(* ===== verification/Prelude.thy ===== *)
theory Prelude
  imports "HOL-Library.Word"
begin

text \<open>
  Shared ground of the development: the integer types and constants of \<open>base/base.h\<close>,
  the ways a run of the C code can stop without returning (\<open>fault\<close>), sequencing of
  fallible steps, the little-endian byte encoding of integers, and the generic lemmas on
  words, lists and sums that the component theories use.
\<close>

unbundle bit_operations_syntax

section \<open>Lemma collections\<close>

named_theorems mem_simps \<open>reading a byte range after a write to the store\<close>
named_theorems run_simps \<open>closed forms of operations on well-formed states\<close>
named_theorems layout_simps \<open>offsets and sizes of the C structures\<close>

section \<open>Integer types, error codes and sizes (base.h)\<close>

type_synonym u64 = "64 word"
type_synonym u32 = "32 word"
type_synonym u8 = "8 word"
type_synonym i8 = "8 word"
type_synonym i32 = "32 word"

text \<open>A byte of memory and a C \<open>char\<close> are the same thing, HOL's 8-bit \<^typ>\<open>char\<close>.\<close>

abbreviation NUL :: char where "NUL \<equiv> CHR 0x00"
abbreviation NL :: char where "NL \<equiv> CHR 0x0A"
abbreviation TAB :: char where "TAB \<equiv> CHR 0x09"

datatype err_code = ERR_OK | ERR_IO | ERR_PARSE | ERR_PERM | ERR_INVALID

definition KiB :: "nat \<Rightarrow> u64" where
  "KiB n = push_bit 10 (of_nat n)"

definition MiB :: "nat \<Rightarrow> u64" where
  "MiB n = push_bit 20 (of_nat n)"

definition GiB :: "nat \<Rightarrow> u64" where
  "GiB n = push_bit 30 (of_nat n)"

definition PATH_MAX_LEN :: nat where "PATH_MAX_LEN = 128"
definition BUFF_SMALL :: nat where "BUFF_SMALL = 128"
definition BUFF_DEFAULT :: nat where "BUFF_DEFAULT = 256"
definition BUFF_LARGE :: nat where "BUFF_LARGE = 512"

lemmas buff_defs = PATH_MAX_LEN_def BUFF_SMALL_def BUFF_DEFAULT_def BUFF_LARGE_def

lemma size_consts [simp]: "KiB 4 = 4096" "KiB 8 = 8192" "KiB 2 = 2048" "MiB 8 = 8388608" "MiB 1 = 1048576"
  by (simp_all add: KiB_def MiB_def)

section \<open>Runs that do not return\<close>

text \<open>
  \<open>Segfault\<close>: an access outside every mapped region (a NULL dereference included).
  \<open>Assertion_failed\<close>: \<open>assert\<close> aborts the process; the build sets no \<open>NDEBUG\<close>.
  \<open>Buffer_overflow\<close>: a write past the end of a C array.
  \<open>Uninitialised\<close>: use of a local variable that no path has assigned.
  \<open>Signed_overflow\<close>, \<open>Division_by_zero\<close>: arithmetic without a defined result.
  \<open>Bad_read\<close>: a read past the end of a C array.
\<close>

datatype fault =
    Segfault
  | Assertion_failed
  | Buffer_overflow
  | Bad_read
  | Uninitialised
  | Signed_overflow
  | Division_by_zero

type_synonym 'a run = "fault + 'a"

fun andthen :: "'a run \<Rightarrow> ('a \<Rightarrow> 'b run) \<Rightarrow> 'b run" where
  "andthen (Inl e) f = Inl e"
| "andthen (Inr x) f = f x"

text \<open>The same for runs that may also loop for ever: \<^const>\<open>None\<close>.\<close>

fun then_run :: "'a run option \<Rightarrow> ('a \<Rightarrow> 'b run option) \<Rightarrow> 'b run option" where
  "then_run None f = None"
| "then_run (Some (Inl e)) f = Some (Inl e)"
| "then_run (Some (Inr x)) f = f x"

definition c_assert :: "bool \<Rightarrow> unit run" where
  "c_assert b = (if b then Inr () else Inl Assertion_failed)"

lemma andthen_eq_Inr: "andthen r f = Inr y \<longleftrightarrow> (\<exists>x. r = Inr x \<and> f x = Inr y)"
  by (cases r) auto

lemma andthen_assoc: "andthen (andthen r f) g = andthen r (\<lambda>x. andthen (f x) g)"
  by (cases r) auto

lemma andthen_cong [fundef_cong]:
  "r = r' \<Longrightarrow> (\<And>x. r' = Inr x \<Longrightarrow> f x = f' x) \<Longrightarrow> andthen r f = andthen r' f'"
  by (cases r') auto

section \<open>Words\<close>

lemma unat_less_2_64: "unat (a :: u64) < 18446744073709551616"
  using unsigned_less [of a] by simp

lemma unat_add_nowrap:
  "unat (a :: u64) + unat b < 18446744073709551616 \<Longrightarrow> unat (a + b) = unat a + unat b"
  using unat_add_lem [of a b] by simp

lemma unat_add_u64: "unat ((a :: u64) + b) = (unat a + unat b) mod 18446744073709551616"
  by (simp add: unat_word_ariths)

lemma unat_sub_u64: "b \<le> (a :: u64) \<Longrightarrow> unat (a - b) = unat a - unat b"
  by (rule unat_sub)

lemma unat_of_nat_u64: "n < 18446744073709551616 \<Longrightarrow> unat (of_nat n :: u64) = n"
  by (simp add: unat_of_nat)

lemma unat_mult_nowrap:
  "unat (a :: u64) * unat b < 18446744073709551616 \<Longrightarrow> unat (a * b) = unat a * unat b"
  using unat_mult_lem [of a b] by simp

section \<open>Little-endian byte encoding\<close>

fun enc :: "nat \<Rightarrow> nat \<Rightarrow> char list" where
  "enc 0 x = []"
| "enc (Suc n) x = char_of (x mod 256) # enc n (x div 256)"

fun dec :: "char list \<Rightarrow> nat" where
  "dec [] = 0"
| "dec (c # cs) = of_char c + 256 * dec cs"

lemma length_enc [simp]: "length (enc n x) = n"
  by (induction n arbitrary: x) auto

lemma dec_enc: "dec (enc n x) = x mod 256 ^ n"
proof (induction n arbitrary: x)
  case (Suc n)
  then show ?case by (simp add: mod_mult2_eq)
qed simp

lemma dec_less: "dec cs < 256 ^ length cs"
proof (induction cs)
  case (Cons c cs)
  have c: "of_char c < (256 :: nat)" by (rule nat_of_char_less_256)
  have "dec cs + 1 \<le> 256 ^ length cs" using Cons by simp
  then have "256 * dec cs + 256 \<le> 256 * 256 ^ length cs"
    by (metis add_mult_distrib2 mult_le_mono2 mult.right_neutral)
  then have "of_char c + 256 * dec cs < 256 * 256 ^ length cs" using c by linarith
  then show ?case by simp
qed simp

lemma enc_zero: "enc n 0 = replicate n NUL"
proof -
  have "char_of (0 :: nat) = NUL" by (simp add: char_of_def)
  then show ?thesis by (induction n) auto
qed

lemma dec_replicate_NUL [simp]: "dec (replicate n NUL) = 0"
  by (induction n) auto

lemma enc_dec: "enc (length cs) (dec cs) = cs"
proof (induction cs)
  case (Cons c cs)
  have "of_char c < (256 :: nat)" by (rule nat_of_char_less_256)
  then show ?case using Cons by simp
qed simp

lemma dec_enc_u64 [simp]: "dec (enc 8 (unat (w :: u64))) = unat w"
  using unat_less_2_64 [of w] by (simp add: dec_enc)

lemma unat_less_2_32: "unat (a :: u32) < 4294967296"
  using unsigned_less [of a] by simp

lemma unat_less_2_8: "unat (a :: u8) < 256"
  using unsigned_less [of a] by simp

lemma unat_mod_256 [simp]: "unat (a :: u8) mod 256 = unat a"
  using unat_less_2_8 [of a] by simp

lemma dec_enc_u32 [simp]: "dec (enc 4 (unat (w :: u32))) = unat w"
  using unat_less_2_32 [of w] by (simp add: dec_enc)

lemma dec_enc_u8 [simp]: "dec (enc (Suc 0) (unat (w :: u8))) = unat w"
  using unat_less_2_8 [of w] by simp

end
