(* ===== verification/Memory.thy ===== *)
theory Memory
  imports Prelude
begin

text \<open>
  The process memory the C code works on: a flat byte store with the list of regions the
  kernel has mapped. Every load and store is checked against the regions; an access outside
  them is a \<^const>\<open>Segfault\<close>. \<open>mmap\<close> is the kernel's and is a parameter
  (\<^typ>\<open>'a\<close> below stands for the memory state it sees); \<open>kernel_ok\<close> is what its
  documentation promises.
\<close>

section \<open>The store\<close>

record os =
  mem :: "nat \<Rightarrow> char"
  regions :: "(nat \<times> nat) list"

definition mem_read :: "(nat \<Rightarrow> char) \<Rightarrow> nat \<Rightarrow> nat \<Rightarrow> char list" where
  "mem_read m p n = map m [p..<p + n]"

definition mem_write :: "nat \<Rightarrow> char list \<Rightarrow> (nat \<Rightarrow> char) \<Rightarrow> nat \<Rightarrow> char" where
  "mem_write p bs m = (\<lambda>a. if p \<le> a \<and> a < p + length bs then bs ! (a - p) else m a)"

definition mem_zero :: "nat \<Rightarrow> nat \<Rightarrow> (nat \<Rightarrow> char) \<Rightarrow> nat \<Rightarrow> char" where
  "mem_zero p n m = (\<lambda>a. if p \<le> a \<and> a < p + n then NUL else m a)"

definition apart :: "nat \<Rightarrow> nat \<Rightarrow> nat \<Rightarrow> nat \<Rightarrow> bool" where
  "apart p n q k \<longleftrightarrow> p + n \<le> q \<or> q + k \<le> p"

definition accessible :: "os \<Rightarrow> nat \<Rightarrow> nat \<Rightarrow> bool" where
  "accessible s p n \<longleftrightarrow> n = 0 \<or> list_ex (\<lambda>(b, l). b \<le> p \<and> p + n \<le> b + l) (regions s)"

text \<open>Every region ends below \<open>2 ^ 64\<close>: addresses are 64-bit.\<close>

definition os_ok :: "os \<Rightarrow> bool" where
  "os_ok s \<longleftrightarrow> list_all (\<lambda>(b, l). b + l < 18446744073709551616) (regions s)"

lemma length_mem_read [simp]: "length (mem_read m p n) = n"
  by (simp add: mem_read_def)

lemma nth_mem_read [simp]: "i < n \<Longrightarrow> mem_read m p n ! i = m (p + i)"
  by (simp add: mem_read_def)

lemma mem_read_0 [simp]: "mem_read m p 0 = []"
  by (simp add: mem_read_def)

lemma mem_read_Suc: "mem_read m p (Suc n) = m p # mem_read m (Suc p) n"
proof -
  have "[p..<p + Suc n] = p # [Suc p..<p + Suc n]" by (rule upt_conv_Cons) simp
  then show ?thesis by (simp add: mem_read_def del: upt_Suc)
qed

lemma mem_read_zeros: "mem_read m p n = replicate n NUL \<longleftrightarrow> (\<forall>x. p \<le> x \<and> x < p + n \<longrightarrow> m x = NUL)"
proof -
  have "mem_read m p n = replicate n NUL \<longleftrightarrow> (\<forall>c \<in> set (mem_read m p n). c = NUL)"
    using replicate_length_same [of "mem_read m p n" NUL] by (metis in_set_replicate length_mem_read)
  also have "\<dots> \<longleftrightarrow> (\<forall>x. p \<le> x \<and> x < p + n \<longrightarrow> m x = NUL)" by (auto simp: mem_read_def)
  finally show ?thesis .
qed

lemma mem_read_add: "mem_read m p (n + k) = mem_read m p n @ mem_read m (p + n) k"
  unfolding mem_read_def add.assoc [symmetric] by (subst upt_add_eq_append) auto

lemma mem_read_sub:
  assumes "mem_read m b (length t) = t" and "i + n \<le> length t"
  shows "mem_read m (b + i) n = take n (drop i t)"
proof -
  have "mem_read m b (i + n + (length t - i - n)) = t" using assms by simp
  then have "t = mem_read m b i @ mem_read m (b + i) n @ mem_read m (b + i + n) (length t - i - n)"
    unfolding mem_read_add by (simp add: add.assoc)
  then have "take n (drop i t) = take n (drop i (mem_read m b i @ mem_read m (b + i) n @
      mem_read m (b + i + n) (length t - i - n)))" by simp
  then show ?thesis by simp
qed

lemma mem_read_write_same [mem_simps]:
  "n = length bs \<Longrightarrow> mem_read (mem_write p bs m) p n = bs"
  by (rule nth_equalityI) (auto simp: mem_write_def)

lemma mem_read_write_apart [mem_simps]:
  "apart p n q (length bs) \<Longrightarrow> mem_read (mem_write q bs m) p n = mem_read m p n"
  by (rule nth_equalityI) (auto simp: mem_write_def apart_def)

lemma mem_read_zero_apart [mem_simps]:
  "apart p n q k \<Longrightarrow> mem_read (mem_zero q k m) p n = mem_read m p n"
  by (rule nth_equalityI) (auto simp: mem_zero_def apart_def)

lemma mem_read_zero_inside [mem_simps]:
  "q \<le> p \<Longrightarrow> p + n \<le> q + k \<Longrightarrow> mem_read (mem_zero q k m) p n = replicate n NUL"
  by (rule nth_equalityI) (auto simp: mem_zero_def)

lemma mem_write_part:
  "mem_write p (bs @ cs) m = mem_write p bs (mem_write (p + length bs) cs m)"
  by (rule ext) (auto simp: mem_write_def nth_append)

lemma mem_write_Nil [simp]: "mem_write p [] m = m"
  by (rule ext) (auto simp: mem_write_def)

lemma mem_zero_0 [simp]: "mem_zero p 0 m = m"
  by (rule ext) (auto simp: mem_zero_def)

lemma mem_zero_write: "mem_zero p n m = mem_write p (replicate n NUL) m"
  by (rule ext) (auto simp: mem_zero_def mem_write_def)

lemma mem_outside_write: "\<not> (p \<le> a \<and> a < p + length bs) \<Longrightarrow> mem_write p bs m a = m a"
  by (auto simp: mem_write_def)

lemma mem_outside_zero: "\<not> (p \<le> a \<and> a < p + n) \<Longrightarrow> mem_zero p n m a = m a"
  by (auto simp: mem_zero_def)

lemma mem_read_cong: "(\<And>a. p \<le> a \<Longrightarrow> a < p + n \<Longrightarrow> m a = m' a) \<Longrightarrow> mem_read m p n = mem_read m' p n"
  by (simp add: mem_read_def)

lemma apart_commute: "apart p n q k \<longleftrightarrow> apart q k p n"
  by (auto simp: apart_def)

lemma accessible_sub: "accessible s p n \<Longrightarrow> p \<le> q \<Longrightarrow> q + k \<le> p + n \<Longrightarrow> accessible s q k"
  by (fastforce simp: accessible_def list_ex_iff)

lemma accessible_region: "(b, l) \<in> set (regions s) \<Longrightarrow> b \<le> p \<Longrightarrow> p + n \<le> b + l \<Longrightarrow> accessible s p n"
  by (fastforce simp: accessible_def list_ex_iff)

lemma accessible_mem [simp]: "accessible (s\<lparr>mem := m\<rparr>) p n = accessible s p n"
  by (simp add: accessible_def)

lemma accessible_bound: "os_ok s \<Longrightarrow> accessible s p n \<Longrightarrow> 0 < n \<Longrightarrow> p + n < 18446744073709551616"
  by (fastforce simp: accessible_def os_ok_def list_ex_iff list_all_iff)

lemma os_ok_mem [simp]: "os_ok (s\<lparr>mem := m\<rparr>) = os_ok s"
  by (simp add: os_ok_def)

section \<open>Loads and stores of the code\<close>

definition get64 :: "(nat \<Rightarrow> char) \<Rightarrow> nat \<Rightarrow> u64" where
  "get64 m p = of_nat (dec (mem_read m p 8))"

definition put64 :: "nat \<Rightarrow> u64 \<Rightarrow> (nat \<Rightarrow> char) \<Rightarrow> nat \<Rightarrow> char" where
  "put64 p v m = mem_write p (enc 8 (unat v)) m"

definition load64 :: "os \<Rightarrow> u64 \<Rightarrow> u64 run" where
  "load64 s p = (if accessible s (unat p) 8 then Inr (get64 (mem s) (unat p)) else Inl Segfault)"

definition store64 :: "os \<Rightarrow> u64 \<Rightarrow> u64 \<Rightarrow> os run" where
  "store64 s p v =
     (if accessible s (unat p) 8 then Inr (s\<lparr>mem := put64 (unat p) v (mem s)\<rparr>) else Inl Segfault)"

definition load8 :: "os \<Rightarrow> u64 \<Rightarrow> char run" where
  "load8 s p = (if accessible s (unat p) 1 then Inr (mem s (unat p)) else Inl Segfault)"

definition store8 :: "os \<Rightarrow> u64 \<Rightarrow> char \<Rightarrow> os run" where
  "store8 s p c =
     (if accessible s (unat p) 1 then Inr (s\<lparr>mem := mem_write (unat p) [c] (mem s)\<rparr>)
      else Inl Segfault)"

text \<open>\<open>MemSet(dest, len)\<close> of \<open>base.h\<close> always writes zero bytes; \<open>memcpy\<close> from a
  C buffer writes the given bytes; \<open>memmove\<close> reads its source before it writes.\<close>

definition MemSet :: "os \<Rightarrow> u64 \<Rightarrow> u64 \<Rightarrow> os run" where
  "MemSet s p n =
     (if accessible s (unat p) (unat n) then Inr (s\<lparr>mem := mem_zero (unat p) (unat n) (mem s)\<rparr>)
      else Inl Segfault)"

definition memcpy :: "os \<Rightarrow> u64 \<Rightarrow> char list \<Rightarrow> os run" where
  "memcpy s p bs =
     (if accessible s (unat p) (length bs) then Inr (s\<lparr>mem := mem_write (unat p) bs (mem s)\<rparr>)
      else Inl Segfault)"

definition load_bytes :: "os \<Rightarrow> u64 \<Rightarrow> nat \<Rightarrow> char list run" where
  "load_bytes s p n =
     (if accessible s (unat p) n then Inr (mem_read (mem s) (unat p) n) else Inl Segfault)"

definition load32 :: "os \<Rightarrow> u64 \<Rightarrow> u32 run" where
  "load32 s p = andthen (load_bytes s p 4) (\<lambda>bs. Inr (of_nat (dec bs)))"

definition store32 :: "os \<Rightarrow> u64 \<Rightarrow> u32 \<Rightarrow> os run" where
  "store32 s p v = memcpy s p (enc 4 (unat v))"

definition memmove :: "os \<Rightarrow> u64 \<Rightarrow> u64 \<Rightarrow> u64 \<Rightarrow> os run" where
  "memmove s p q n = andthen (load_bytes s q (unat n)) (\<lambda>bs. memcpy s p bs)"

lemma get64_put64_same [mem_simps]: "get64 (put64 p v m) p = v"
  by (simp add: get64_def put64_def mem_simps)

lemma get64_put64_apart [mem_simps]: "apart p 8 q 8 \<Longrightarrow> get64 (put64 q v m) p = get64 m p"
  by (simp add: get64_def put64_def mem_simps)

lemma get64_write_apart [mem_simps]:
  "apart p 8 q (length bs) \<Longrightarrow> get64 (mem_write q bs m) p = get64 m p"
  by (simp add: get64_def mem_simps)

lemma get64_zero_apart [mem_simps]: "apart p 8 q k \<Longrightarrow> get64 (mem_zero q k m) p = get64 m p"
  by (simp add: get64_def mem_simps)

lemma get64_zero_inside [mem_simps]:
  "q \<le> p \<Longrightarrow> p + 8 \<le> q + k \<Longrightarrow> get64 (mem_zero q k m) p = 0"
  by (simp add: get64_def mem_simps)

lemma mem_read_put64_apart [mem_simps]:
  "apart p n q 8 \<Longrightarrow> mem_read (put64 q v m) p n = mem_read m p n"
  by (simp add: put64_def mem_simps)

lemma mem_outside_put64: "\<not> (p \<le> a \<and> a < p + 8) \<Longrightarrow> put64 p v m a = m a"
  by (simp add: put64_def mem_outside_write)

section \<open>Mapping and unmapping\<close>

type_synonym kernel = "os \<Rightarrow> u64 \<Rightarrow> u64 option"

definition kernel_ok :: "kernel \<Rightarrow> bool" where
  "kernel_ok k \<longleftrightarrow> (\<forall>s len p. k s len = Some p \<longrightarrow>
     p \<noteq> 0 \<and> 4096 dvd unat p \<and> len \<noteq> 0 \<and> unat p + unat len < 18446744073709551616 \<and>
     (\<forall>(b, l) \<in> set (regions s). apart (unat p) (unat len) b l))"

lemma kernel_okD:
  assumes "kernel_ok k" and "k s len = Some p"
  shows "p \<noteq> 0" "len \<noteq> 0" "unat p + unat len < 18446744073709551616"
    "\<forall>(b, l) \<in> set (regions s). apart (unat p) (unat len) b l"
  using assms unfolding kernel_ok_def by blast+

text \<open>\<open>mmap(NULL, len, PROT_READ | PROT_WRITE, MAP_SHARED | MAP_ANONYMOUS, ...)\<close>: a fresh
  region of zero bytes at the address the kernel picks, or \<open>MAP_FAILED\<close>.\<close>

definition mmap :: "kernel \<Rightarrow> os \<Rightarrow> u64 \<Rightarrow> u64 option \<times> os" where
  "mmap k s len = (case k s len of
     None \<Rightarrow> (None, s)
   | Some p \<Rightarrow> (Some p, s\<lparr>mem := mem_zero (unat p) (unat len) (mem s),
                         regions := (unat p, unat len) # regions s\<rparr>))"

fun region_minus :: "nat \<Rightarrow> nat \<Rightarrow> nat \<times> nat \<Rightarrow> (nat \<times> nat) list" where
  "region_minus p n (b, l) =
     (if apart p n b l then [(b, l)]
      else (if b < p then [(b, p - b)] else []) @
           (if p + n < b + l then [(p + n, b + l - (p + n))] else []))"

definition munmap :: "os \<Rightarrow> u64 \<Rightarrow> u64 \<Rightarrow> os" where
  "munmap s p len = s\<lparr>regions := concat (map (region_minus (unat p) (unat len)) (regions s))\<rparr>"

lemma concat_region_minus_apart:
  "(\<forall>(b, l) \<in> set rs. apart p n b l) \<Longrightarrow> concat (map (region_minus p n) rs) = rs"
  by (induction rs) auto

lemma munmap_fresh:
  assumes "\<forall>(b, l) \<in> set rs. apart (unat p) (unat len) b l" and "len \<noteq> 0"
    and "regions s = (unat p, unat len) # rs"
  shows "regions (munmap s p len) = rs"
proof -
  have "0 < unat len" using assms(2) by (simp add: unat_gt_0)
  then have "region_minus (unat p) (unat len) (unat p, unat len) = []" by (simp add: apart_def)
  then show ?thesis using assms by (simp add: munmap_def concat_region_minus_apart)
qed

lemma mem_munmap [simp]: "mem (munmap s p len) = mem s"
  by (simp add: munmap_def)

lemma mmap_os_ok: "kernel_ok k \<Longrightarrow> os_ok s \<Longrightarrow> os_ok (snd (mmap k s len))"
  by (auto simp: mmap_def kernel_ok_def os_ok_def split: option.splits)

section \<open>A kernel that meets the promise\<close>

text \<open>Places every mapping on the first page after all existing regions.\<close>

definition end_of_regions :: "(nat \<times> nat) list \<Rightarrow> nat" where
  "end_of_regions rs = foldr (\<lambda>(b, l) m. max (b + l) m) rs 0"

definition page_kernel :: kernel where
  "page_kernel s len =
     (let p = 4096 * Suc (end_of_regions (regions s) div 4096) in
      if len \<noteq> 0 \<and> p + unat len < 18446744073709551616 then Some (of_nat p) else None)"

definition empty_os :: os where
  "empty_os = \<lparr>mem = \<lambda>_. NUL, regions = []\<rparr>"

lemma end_of_regions_ge: "(b, l) \<in> set rs \<Longrightarrow> b + l \<le> end_of_regions rs"
  by (induction rs) (auto simp: end_of_regions_def)

lemma page_kernel_ok: "kernel_ok page_kernel"
  unfolding kernel_ok_def
proof (intro allI impI)
  fix s and len p :: u64
  assume run: "page_kernel s len = Some p"
  let ?e = "end_of_regions (regions s)"
  let ?p = "4096 * Suc (?e div 4096)"
  have p: "p = of_nat ?p" "len \<noteq> 0" "?p + unat len < 18446744073709551616"
    using run by (auto simp: page_kernel_def Let_def split: if_splits)
  then have u: "unat p = ?p" using unat_of_nat_u64 [of ?p] by simp
  then have "p \<noteq> 0" by (metis Suc_not_Zero mult_eq_0_iff unat_0 zero_neq_numeral)
  moreover have "?e \<le> ?p" by simp
  then have "apart (unat p) (unat len) b l" if "(b, l) \<in> set (regions s)" for b l
    using end_of_regions_ge [OF that] u by (simp add: apart_def)
  ultimately show "p \<noteq> 0 \<and> 4096 dvd unat p \<and> len \<noteq> 0 \<and> unat p + unat len < 18446744073709551616 \<and>
      (\<forall>(b, l) \<in> set (regions s). apart (unat p) (unat len) b l)"
    using p u by auto
qed

lemma page_kernel_empty: "0 < unat len \<Longrightarrow> unat len < 18446744073709547520 \<Longrightarrow> page_kernel empty_os len = Some 4096"
  by (auto simp: page_kernel_def empty_os_def end_of_regions_def Let_def)

lemma empty_os_ok [simp]: "os_ok empty_os"
  by (simp add: os_ok_def empty_os_def)

end
