(* ===== verification/Base_Mem.thy ===== *)
theory Base_Mem
  imports Memory
begin

text \<open>
  \<open>base/base_mem.c\<close> and \<open>base/base_mem.h\<close>: the power-of-two test, the alignment helper
  and the size macros. \<open>align_up\<close> is the reference the helper is meant to compute.
\<close>

definition ARENA_ALIGN :: u64 where
  "ARENA_ALIGN = 2 * 8"

definition c_MIN :: "u64 \<Rightarrow> u64 \<Rightarrow> u64" where
  "c_MIN a b = (if a < b then a else b)"

definition c_MAX :: "u64 \<Rightarrow> u64 \<Rightarrow> u64" where
  "c_MAX a b = (if a > b then a else b)"

definition is_pow :: "u64 \<Rightarrow> bool" where
  "is_pow x \<longleftrightarrow> x AND (x - 1) = 0"

definition align :: "u64 \<Rightarrow> u64 \<Rightarrow> u64" where
  "align pointer alignment =
     (if alignment AND (alignment - 1) = 0 then pointer
      else (pointer + alignment - 1) AND NOT (alignment - 1))"

text \<open>The least multiple of \<open>a\<close> that is not below \<open>p\<close>.\<close>

definition align_up :: "nat \<Rightarrow> nat \<Rightarrow> nat" where
  "align_up p a = (p + a - 1) div a * a"

lemma bit_nat_top: "2 ^ n \<le> (k :: nat) \<Longrightarrow> k < 2 ^ Suc n \<Longrightarrow> bit k n"
proof -
  assume "2 ^ n \<le> k" "k < 2 ^ Suc n"
  then have "k div 2 ^ n = 1"
    by (auto intro: div_nat_eqI)
  then show "bit k n" by (simp add: bit_iff_odd)
qed

lemma unat_exp_u64: "n < 64 \<Longrightarrow> unat (2 ^ n :: u64) = 2 ^ n"
  using unat_of_nat_u64 [of "2 ^ n"] power_strict_increasing [of n 64 "2 :: nat"] by simp

lemma take_bit_add_exp:
  assumes "n < 64"
  shows "take_bit n ((p :: u64) + 2 ^ n) = take_bit n p"
proof -
  have "(2 :: nat) ^ n dvd 2 ^ 64" using assms by (intro le_imp_power_dvd) simp
  then have "(unat p + 2 ^ n) mod 2 ^ 64 mod 2 ^ n = unat p mod (2 ^ n :: nat)"
    by (simp add: mod_mod_cancel)
  then have "take_bit n (unat (p + 2 ^ n)) = take_bit n (unat p)"
    by (simp add: take_bit_eq_mod unat_add_u64 unat_exp_u64 [OF assms])
  then have "unat (take_bit n (p + 2 ^ n)) = unat (take_bit n p)"
    by (simp only: unsigned_take_bit_eq)
  then show ?thesis by (simp only: word_unat_eq_iff)
qed

lemma is_pow_exp: "is_pow (2 ^ n)"
proof -
  have "(2 :: u64) ^ n - 1 = mask n" by (simp add: mask_eq_exp_minus_1)
  then have "(2 ^ n AND (2 ^ n - 1) :: u64) = take_bit n (2 ^ n)"
    by (simp add: take_bit_eq_mask)
  also have "\<dots> = 0" by (rule bit_word_eqI) (auto simp: bit_take_bit_iff bit_exp_iff)
  finally show ?thesis by (simp add: is_pow_def)
qed

lemma is_pow_imp_exp:
  assumes "is_pow x" and "x \<noteq> 0"
  shows "\<exists>n < 64. x = 2 ^ n"
proof -
  have pos: "1 \<le> unat x" using assms(2) by (simp add: Suc_le_eq unat_gt_0)
  obtain n where n: "2 ^ n \<le> unat x" "unat x < 2 ^ (n + 1)"
    using ex_power_ivl1 [of 2 "unat x"] pos by auto
  have "(2 :: nat) ^ n < 2 ^ 64" using n(1) unat_less_2_64 [of x] by simp
  then have n64: "n < 64" using power_less_imp_less_exp [of "2 :: nat" n 64] by simp
  have "x = 2 ^ n"
  proof (rule ccontr)
    assume "x \<noteq> 2 ^ n"
    moreover have "unat (2 ^ n :: u64) = 2 ^ n"
      by (rule unat_exp_u64 [OF n64])
    ultimately have "unat x \<noteq> 2 ^ n" by (metis word_unat_eq_iff)
    then have lt: "2 ^ n \<le> unat x - 1" using n(1) by simp
    have "unat (x - 1) = unat x - 1"
      using pos by (subst unat_sub) (simp_all add: word_le_nat_alt)
    then have "bit (unat (x - 1)) n" "bit (unat x) n"
      using lt n bit_nat_top [of n "unat x - 1"] bit_nat_top [of n "unat x"] by simp_all
    then have "bit (x AND (x - 1)) n"
      by (simp add: bit_and_iff bit_unsigned_iff)
    then show False using assms(1) by (simp add: is_pow_def)
  qed
  then show ?thesis using n64 by blast
qed

lemma align_pow: "is_pow a \<Longrightarrow> align p a = p"
  by (simp add: align_def is_pow_def)

lemma align_ARENA_ALIGN [simp]: "align p ARENA_ALIGN = p"
  by (simp add: align_def ARENA_ALIGN_def)

lemma is_pow_ARENA_ALIGN [simp]: "is_pow ARENA_ALIGN"
  by (simp add: is_pow_def ARENA_ALIGN_def)

lemma c_MIN_le: "c_MIN a b \<le> b"
  by (auto simp: c_MIN_def)

section \<open>Properties\<close>

text \<open>\<open>is_pow\<close> accepts exactly zero and the powers of two of a 64-bit word.\<close>

theorem is_pow_iff: "is_pow x \<longleftrightarrow> x = 0 \<or> (\<exists>n. n < 64 \<and> x = 2 ^ n)"
proof
  assume "is_pow x"
  then show "x = 0 \<or> (\<exists>n. n < 64 \<and> x = 2 ^ n)" using is_pow_imp_exp by blast
next
  assume "x = 0 \<or> (\<exists>n. n < 64 \<and> x = 2 ^ n)"
  then show "is_pow x" by (auto simp: is_pow_exp) (simp add: is_pow_def)
qed

text \<open>\<open>align\<close> returns its argument unchanged for every power-of-two alignment, so it does
  not compute the next multiple: the test in it is the wrong way round.\<close>

theorem align_keeps_powers:
  "align p (2 ^ n) = p \<and> (\<exists>q. unat (align q ARENA_ALIGN) \<noteq> align_up (unat q) (unat ARENA_ALIGN))"
proof
  show "align p (2 ^ n) = p" using is_pow_exp [of n] by (rule align_pow)
  have "unat (align 1 ARENA_ALIGN) \<noteq> align_up (unat (1 :: u64)) (unat ARENA_ALIGN)"
    by (simp add: align_up_def ARENA_ALIGN_def align_def)
  then show "\<exists>q. unat (align q ARENA_ALIGN) \<noteq> align_up (unat q) (unat ARENA_ALIGN)" by blast
qed

end
