(* ===== verification/Arena.thy ===== *)
theory Arena
  imports Base_Mem
begin

text \<open>
  \<open>base/base_arena.c\<close>: the arena allocator. Its header is a \<open>struct mem_arena\<close> at the start
  of the mapping, the data follows it; both live in the byte store, so a stray write through
  one is visible in the other. Operations take the address of the header (0 is NULL) and
  return the new store. \<open>allocator\<close> is the contract the readers of \<open>libres\<close> rely on.
\<close>

section \<open>The header\<close>

record mem_arena =
  current_position :: u64
  previous_position :: u64
  capacity :: u64
  base_position :: u64

record temp_arena =
  arena :: u64
  start_position :: u64

definition sizeof_mem_arena :: u64 where "sizeof_mem_arena = 32"
definition off_current_position :: u64 where "off_current_position = 0"
definition off_previous_position :: u64 where "off_previous_position = 8"
definition off_capacity :: u64 where "off_capacity = 16"
definition off_base_position :: u64 where "off_base_position = 24"

lemmas arena_offsets [layout_simps] =
  sizeof_mem_arena_def off_current_position_def off_previous_position_def
  off_capacity_def off_base_position_def

definition arena_at :: "os \<Rightarrow> u64 \<Rightarrow> mem_arena" where
  "arena_at s a = \<lparr>current_position = get64 (mem s) (unat a),
     previous_position = get64 (mem s) (unat a + 8),
     capacity = get64 (mem s) (unat a + 16),
     base_position = get64 (mem s) (unat a + 24)\<rparr>"

section \<open>Operations\<close>

definition arena_create :: "kernel \<Rightarrow> os \<Rightarrow> u64 \<Rightarrow> (u64 \<times> os) run" where
  "arena_create k s cap = (case mmap k s (cap + sizeof_mem_arena) of
     (None, s1) \<Rightarrow> Inr (0, s1)
   | (Some a, s1) \<Rightarrow>
       andthen (store64 s1 (a + off_capacity) cap) (\<lambda>s2.
       andthen (store64 s2 (a + off_base_position) (a + sizeof_mem_arena)) (\<lambda>s3.
       andthen (store64 s3 (a + off_current_position) 0) (\<lambda>s4.
       andthen (store64 s4 (a + off_previous_position) 0) (\<lambda>s5. Inr (a, s5))))))"

definition arena_destroy :: "os \<Rightarrow> u64 \<Rightarrow> os run" where
  "arena_destroy s a =
     (if a = 0 then Inr s
      else andthen (load64 s (a + off_capacity)) (\<lambda>cap. Inr (munmap s a (cap + sizeof_mem_arena))))"

definition arena_alloc :: "os \<Rightarrow> u64 \<Rightarrow> u64 \<Rightarrow> (u64 \<times> os) run" where
  "arena_alloc s a sz =
     (if a = 0 then Inr (0, s)
      else andthen (load64 s (a + off_current_position)) (\<lambda>cur.
        let aligned = align cur ARENA_ALIGN; new_pos = aligned + sz in
        andthen (load64 s (a + off_capacity)) (\<lambda>cap.
        if new_pos > cap then Inr (0, s)
        else andthen (load64 s (a + off_base_position)) (\<lambda>base.
          let out = base + aligned in
          andthen (store64 s (a + off_previous_position) cur) (\<lambda>s1.
          andthen (store64 s1 (a + off_current_position) (aligned + sz)) (\<lambda>s2.
          andthen (MemSet s2 out sz) (\<lambda>s3. Inr (out, s3))))))))"

definition arena_pop :: "os \<Rightarrow> u64 \<Rightarrow> u64 \<Rightarrow> os run" where
  "arena_pop s a sz =
     andthen (load64 s (a + off_current_position)) (\<lambda>cur.
     let sz = c_MIN sz cur in
     store64 s (a + off_current_position) (cur - sz))"

definition arena_pop_to :: "os \<Rightarrow> u64 \<Rightarrow> u64 \<Rightarrow> os run" where
  "arena_pop_to s a pos =
     andthen (load64 s (a + off_current_position)) (\<lambda>cur.
     let sz = (if pos < cur then cur - pos else 0) in arena_pop s a sz)"

definition arena_clear :: "os \<Rightarrow> u64 \<Rightarrow> os run" where
  "arena_clear s a = store64 s (a + off_current_position) 0"

text \<open>
  \<open>check(0)\<close> in the last branch prints its success line and goes on. The first branch only
  computes an alignment whose result is dropped; the load in it can still fault.
\<close>

definition arena_resize_align ::
  "os \<Rightarrow> u64 \<Rightarrow> u64 \<Rightarrow> u64 \<Rightarrow> u64 \<Rightarrow> u64 \<Rightarrow> (u64 \<times> os) run" where
  "arena_resize_align s a old_memory new_size old_size alignment =
     andthen (if \<not> is_pow alignment
              then andthen (load64 s (a + off_current_position)) (\<lambda>cur. Inr (align cur alignment))
              else Inr 0) (\<lambda>_.
     if old_memory = 0 \<or> old_size = 0 then arena_alloc s a new_size
     else
       andthen (load64 s (a + off_base_position)) (\<lambda>base.
       andthen (load64 s (a + off_capacity)) (\<lambda>cap.
       if base \<le> old_memory \<and> old_memory < base + cap then
         andthen (load64 s (a + off_previous_position)) (\<lambda>prev.
         if base + prev = old_memory then
           andthen (store64 s (a + off_current_position) (prev + new_size)) (\<lambda>s1.
           andthen (if new_size > old_size
                    then MemSet s1 (a + off_current_position) (new_size - old_size)
                    else Inr s1) (\<lambda>s2. Inr (old_memory, s2)))
         else
           andthen (arena_alloc s a new_size) (\<lambda>(new_memory, s1).
           let copy_size = (if old_size < new_size then old_size else new_size) in
           andthen (memmove s1 new_memory old_memory copy_size) (\<lambda>s2. Inr (0, s2))))
       else Inr (0, s))))"

definition arena_resize :: "os \<Rightarrow> u64 \<Rightarrow> u64 \<Rightarrow> u64 \<Rightarrow> u64 \<Rightarrow> (u64 \<times> os) run" where
  "arena_resize s a old_memory new_size old_size =
     arena_resize_align s a old_memory new_size old_size ARENA_ALIGN"

definition temp_arena_begin :: "os \<Rightarrow> u64 \<Rightarrow> temp_arena run" where
  "temp_arena_begin s a =
     andthen (load64 s (a + off_current_position)) (\<lambda>cur.
     Inr \<lparr>arena = a, start_position = cur\<rparr>)"

definition temp_arena_end :: "os \<Rightarrow> temp_arena \<Rightarrow> os run" where
  "temp_arena_end s t = store64 s (arena t + off_current_position) (start_position t)"

section \<open>Well-formed arenas\<close>

text \<open>The mapping that starts at the header holds header and data, the base pointer follows the
  header, and the positions are inside the capacity.\<close>

definition arena_ok :: "os \<Rightarrow> u64 \<Rightarrow> bool" where
  "arena_ok s a \<longleftrightarrow>
     a \<noteq> 0 \<and>
     (unat a, unat (capacity (arena_at s a)) + 32) \<in> set (regions s) \<and>
     unat a + 32 + unat (capacity (arena_at s a)) < 18446744073709551616 \<and>
     base_position (arena_at s a) = a + 32 \<and>
     current_position (arena_at s a) \<le> capacity (arena_at s a) \<and>
     previous_position (arena_at s a) \<le> capacity (arena_at s a)"

definition arena_base :: "os \<Rightarrow> u64 \<Rightarrow> nat" where
  "arena_base s a = unat a + 32"

definition arena_top :: "os \<Rightarrow> u64 \<Rightarrow> nat" where
  "arena_top s a = unat a + 32 + unat (current_position (arena_at s a))"

definition arena_room :: "os \<Rightarrow> u64 \<Rightarrow> nat" where
  "arena_room s a = unat (capacity (arena_at s a)) - unat (current_position (arena_at s a))"

lemma arena_ok_nz [simp]: "arena_ok s a \<Longrightarrow> a \<noteq> 0"
  by (simp add: arena_ok_def)

lemma unat_header:
  assumes "arena_ok s a"
  shows "unat (a + off_current_position) = unat a"
    "unat (a + off_previous_position) = unat a + 8"
    "unat (a + off_capacity) = unat a + 16"
    "unat (a + off_base_position) = unat a + 24"
    "unat (a + 32) = unat a + 32"
  using assms by (simp_all add: arena_ok_def layout_simps unat_add_nowrap)

lemma arena_accessible:
  assumes "arena_ok s a" and "unat a \<le> p"
    and "p + n \<le> unat a + 32 + unat (capacity (arena_at s a))"
  shows "accessible s p n"
  using assms by (auto simp: arena_ok_def intro!: accessible_region)

lemma arena_load:
  assumes "arena_ok s a"
  shows "load64 s (a + off_current_position) = Inr (current_position (arena_at s a))"
    "load64 s (a + off_previous_position) = Inr (previous_position (arena_at s a))"
    "load64 s (a + off_capacity) = Inr (capacity (arena_at s a))"
    "load64 s (a + off_base_position) = Inr (base_position (arena_at s a))"
  using assms arena_accessible [OF assms]
  by (simp_all add: load64_def unat_header arena_at_def)

lemma arena_store:
  assumes "arena_ok s a"
  shows "store64 s (a + off_current_position) v = Inr (s\<lparr>mem := put64 (unat a) v (mem s)\<rparr>)"
    "store64 s (a + off_previous_position) v = Inr (s\<lparr>mem := put64 (unat a + 8) v (mem s)\<rparr>)"
  using assms arena_accessible [OF assms] by (simp_all add: store64_def unat_header)

lemma arena_at_put [mem_simps]:
  "arena_at (s\<lparr>mem := put64 (unat a) v m\<rparr>) a = (arena_at (s\<lparr>mem := m\<rparr>) a)\<lparr>current_position := v\<rparr>"
  "arena_at (s\<lparr>mem := put64 (unat a + 8) v m\<rparr>) a = (arena_at (s\<lparr>mem := m\<rparr>) a)\<lparr>previous_position := v\<rparr>"
  by (simp_all add: arena_at_def mem_simps apart_def)

lemma arena_at_write_apart [mem_simps]:
  "apart (unat a) 32 p (length bs) \<Longrightarrow>
     arena_at (s\<lparr>mem := mem_write p bs m\<rparr>) a = arena_at (s\<lparr>mem := m\<rparr>) a"
  by (auto simp: arena_at_def mem_simps apart_def)

lemma arena_at_zero_apart [mem_simps]:
  "apart (unat a) 32 p n \<Longrightarrow>
     arena_at (s\<lparr>mem := mem_zero p n m\<rparr>) a = arena_at (s\<lparr>mem := m\<rparr>) a"
  by (auto simp: arena_at_def mem_simps apart_def)

lemma arena_at_self [simp]: "arena_at (s\<lparr>mem := mem s\<rparr>) a = arena_at s a"
  by (simp add: arena_at_def)

lemma unat_base:
  assumes "arena_ok s a" and "unat n \<le> unat (capacity (arena_at s a))"
  shows "unat (base_position (arena_at s a) + n) = unat a + 32 + unat n"
proof -
  have "unat (a + 32 + n) = unat (a + 32) + unat n"
    using assms by (intro unat_add_nowrap) (auto simp: unat_header arena_ok_def)
  then show ?thesis using assms(1) unat_header(5) [OF assms(1)] by (simp add: arena_ok_def)
qed

section \<open>Allocation\<close>

definition alloc_store :: "os \<Rightarrow> u64 \<Rightarrow> u64 \<Rightarrow> os" where
  "alloc_store s a n = s\<lparr>mem := mem_zero (arena_top s a) (unat n)
     (put64 (unat a) (current_position (arena_at s a) + n)
       (put64 (unat a + 8) (current_position (arena_at s a)) (mem s)))\<rparr>"

lemma regions_alloc_store [simp]: "regions (alloc_store s a n) = regions s"
  by (simp add: alloc_store_def)

lemma os_ok_alloc_store [simp]: "os_ok (alloc_store s a n) = os_ok s"
  by (simp add: os_ok_def)

lemma arena_cur_le: "arena_ok s a \<Longrightarrow> unat (current_position (arena_at s a)) \<le> unat (capacity (arena_at s a))"
  by (simp add: arena_ok_def word_le_nat_alt)

lemma arena_cur_add:
  assumes "arena_ok s a" and "unat n \<le> arena_room s a"
  shows "unat (current_position (arena_at s a) + n) = unat (current_position (arena_at s a)) + unat n"
  using assms(2) arena_cur_le [OF assms(1)] unat_less_2_64 [of "capacity (arena_at s a)"]
  by (intro unat_add_nowrap) (simp add: arena_room_def)

lemma arena_alloc_fits:
  assumes ok: "arena_ok s a" and fits: "unat n \<le> arena_room s a"
  shows "arena_alloc s a n = Inr (a + 32 + current_position (arena_at s a), alloc_store s a n)"
proof -
  let ?A = "arena_at s a"
  let ?s1 = "s\<lparr>mem := put64 (unat a + 8) (current_position ?A) (mem s)\<rparr>"
  let ?s2 = "s\<lparr>mem := put64 (unat a) (current_position ?A + n)
               (put64 (unat a + 8) (current_position ?A) (mem s))\<rparr>"
  note cur = arena_cur_le [OF ok] and sum = arena_cur_add [OF ok fits]
  have le: "\<not> capacity ?A < current_position ?A + n"
    using fits cur sum by (simp add: arena_room_def word_less_nat_alt)
  have base: "base_position ?A = a + 32" using ok by (simp add: arena_ok_def)
  have out: "unat (a + 32 + current_position ?A) = arena_top s a"
    using unat_base [OF ok cur] base by (simp add: arena_top_def)
  have s1: "store64 ?s1 (a + off_current_position) v = Inr (?s1\<lparr>mem := put64 (unat a) v (mem ?s1)\<rparr>)" for v
    using ok arena_accessible [OF ok] by (simp add: store64_def unat_header)
  have "accessible s (arena_top s a) (unat n)"
    using fits cur by (intro arena_accessible [OF ok]) (simp_all add: arena_top_def arena_room_def)
  then have "MemSet ?s2 (a + 32 + current_position ?A) n = Inr (alloc_store s a n)"
    by (simp add: MemSet_def out alloc_store_def)
  then show ?thesis
    using ok le s1 base by (simp add: arena_alloc_def arena_load arena_store Let_def)
qed

lemma arena_alloc_full:
  assumes "arena_ok s a" and "arena_room s a < unat n"
    and "unat (current_position (arena_at s a)) + unat n < 18446744073709551616"
  shows "arena_alloc s a n = Inr (0, s)"
proof -
  have "capacity (arena_at s a) < current_position (arena_at s a) + n"
    using assms by (simp add: arena_room_def word_less_nat_alt unat_add_nowrap)
  then show ?thesis using assms(1) by (simp add: arena_alloc_def arena_load Let_def)
qed

lemma arena_at_alloc:
  assumes "arena_ok s a"
  shows "arena_at (alloc_store s a n) a = (arena_at s a)
    \<lparr>current_position := current_position (arena_at s a) + n,
      previous_position := current_position (arena_at s a)\<rparr>"
  by (simp add: alloc_store_def mem_simps apart_def arena_top_def)

lemma arena_ok_alloc:
  assumes "arena_ok s a" and "unat n \<le> arena_room s a"
  shows "arena_ok (alloc_store s a n) a"
proof -
  let ?A = "arena_at s a"
  have "current_position ?A + n \<le> capacity ?A"
    using arena_cur_le [OF assms(1)] arena_cur_add [OF assms] assms(2)
    by (simp add: word_le_nat_alt arena_room_def)
  moreover have "regions (alloc_store s a n) = regions s"
    by (simp add: alloc_store_def)
  ultimately show ?thesis
    using assms(1) by (simp add: arena_ok_def arena_at_alloc [OF assms(1)])
qed

lemma arena_alloc_wrap:
  assumes "arena_ok s a" and "os_ok s"
    and "18446744073709551616 \<le> unat (current_position (arena_at s a)) + unat n"
  shows "arena_alloc s a n = Inl Segfault"
proof -
  let ?A = "arena_at s a"
  let ?s1 = "s\<lparr>mem := put64 (unat a + 8) (current_position ?A) (mem s)\<rparr>"
  have s1: "store64 ?s1 (a + off_current_position) v = Inr (?s1\<lparr>mem := put64 (unat a) v (mem ?s1)\<rparr>)" for v
    using assms(1) arena_accessible [OF assms(1)] by (simp add: store64_def unat_header)
  note cur = arena_cur_le [OF assms(1)]
  have "unat (base_position ?A + current_position ?A) = unat a + 32 + unat (current_position ?A)"
    using unat_base [OF assms(1) cur] .
  moreover have "0 < unat n" using assms(3) unat_less_2_64 [of "current_position ?A"] by linarith
  ultimately have "\<not> accessible s (unat (base_position ?A + current_position ?A)) (unat n)"
    using accessible_bound [OF assms(2)] assms(3) by fastforce
  moreover have "unat (current_position ?A + n) < unat (current_position ?A)"
    using assms(3) unat_less_2_64 [of n] unat_less_2_64 [of "current_position ?A"]
    by (simp add: unat_add_u64 le_mod_geq)
  then have "\<not> capacity ?A < current_position ?A + n" using cur by (simp add: word_less_nat_alt)
  ultimately show ?thesis
    using assms(1) s1 by (simp add: arena_alloc_def arena_load arena_store Let_def MemSet_def)
qed

lemma arena_bounds:
  assumes "arena_ok s a"
  shows "0 < arena_base s a" "arena_base s a \<le> arena_top s a"
    "arena_top s a + arena_room s a < 18446744073709551616"
  using assms by (auto simp: arena_ok_def arena_base_def arena_top_def arena_room_def word_le_nat_alt)

lemma arena_frame:
  assumes "arena_ok s a" and "arena_base s a \<le> p"
  shows "arena_at (s\<lparr>mem := mem_write p bs (mem s)\<rparr>) a = arena_at s a"
  using assms(2) by (simp add: mem_simps apart_def arena_base_def)

lemma arena_ok_write:
  "arena_ok s a \<Longrightarrow> arena_base s a \<le> p \<Longrightarrow> arena_ok (s\<lparr>mem := mem_write p bs (mem s)\<rparr>) a"
  by (simp add: arena_ok_def arena_frame [unfolded arena_ok_def])

section \<open>The contract its clients rely on\<close>

text \<open>
  An allocator that hands out zeroed blocks one after the other between \<open>base\<close> and
  \<open>brk\<close>, leaves what it handed out before alone, and answers NULL when the block does not
  fit. Nothing outside its memory, from \<open>start\<close> up to the end of its room, changes. Clients may
  write below \<open>brk\<close> without disturbing it.
\<close>

locale allocator =
  fixes alloc :: "os \<Rightarrow> 'h \<Rightarrow> u64 \<Rightarrow> (u64 \<times> os) run"
    and ok :: "os \<Rightarrow> 'h \<Rightarrow> bool"
    and base :: "os \<Rightarrow> 'h \<Rightarrow> nat"
    and brk :: "os \<Rightarrow> 'h \<Rightarrow> nat"
    and room :: "os \<Rightarrow> 'h \<Rightarrow> nat"
    and start :: "'h \<Rightarrow> nat"
  assumes alloc_some: "ok s h \<Longrightarrow> unat n \<le> room s h \<Longrightarrow>
       \<exists>s'. alloc s h n = Inr (of_nat (brk s h), s') \<and> ok s' h \<and> regions s' = regions s \<and>
         base s' h = base s h \<and> brk s' h = brk s h + unat n \<and> room s' h = room s h - unat n \<and>
         mem_read (mem s') (brk s h) (unat n) = replicate (unat n) NUL \<and>
         (\<forall>x. base s h \<le> x \<and> x < brk s h \<longrightarrow> mem s' x = mem s x)"
    and alloc_none: "ok s h \<Longrightarrow> room s h < unat n \<Longrightarrow>
       brk s h + unat n < 18446744073709551616 \<Longrightarrow> alloc s h n = Inr (0, s)"
    and outside: "ok s h \<Longrightarrow> unat n \<le> room s h \<Longrightarrow> alloc s h n = Inr (q, s') \<Longrightarrow>
       x < start h \<or> brk s h + room s h \<le> x \<Longrightarrow> mem s' x = mem s x"
    and bounds: "ok s h \<Longrightarrow>
       0 < base s h \<and> start h \<le> base s h \<and> base s h \<le> brk s h \<and> brk s h + room s h < 18446744073709551616"
    and reach: "ok s h \<Longrightarrow> base s h \<le> p \<Longrightarrow> p + k \<le> brk s h \<Longrightarrow> accessible s p k"
    and frame: "ok s h \<Longrightarrow> base s h \<le> p \<Longrightarrow> p + length bs \<le> brk s h \<Longrightarrow>
       s' = s\<lparr>mem := mem_write p bs (mem s)\<rparr> \<Longrightarrow>
       ok s' h \<and> base s' h = base s h \<and> brk s' h = brk s h \<and> room s' h = room s h"

fun alloc_all :: "(os \<Rightarrow> 'h \<Rightarrow> u64 \<Rightarrow> (u64 \<times> os) run) \<Rightarrow> os \<Rightarrow> 'h \<Rightarrow> u64 list \<Rightarrow> (u64 list \<times> os) run"
where
  "alloc_all alloc s h [] = Inr ([], s)"
| "alloc_all alloc s h (n # ns) =
     andthen (alloc s h n) (\<lambda>(p, s1).
     andthen (alloc_all alloc s1 h ns) (\<lambda>(ps, s2). Inr (p # ps, s2)))"

text \<open>Blocks one after the other: each starts where the one before ends.\<close>

fun consecutive :: "nat \<Rightarrow> u64 list \<Rightarrow> u64 list \<Rightarrow> bool" where
  "consecutive at [] [] = True"
| "consecutive at (p # ps) (n # ns) = (unat p = at \<and> consecutive (at + unat n) ps ns)"
| "consecutive at _ _ = False"

lemma consecutive_length: "consecutive at ps ns \<Longrightarrow> length ps = length ns"
  by (induction "at" ps ns rule: consecutive.induct) auto

lemma consecutive_ge: "consecutive at ps ns \<Longrightarrow> j < length ps \<Longrightarrow> at \<le> unat (ps ! j)"
proof (induction "at" ps ns arbitrary: j rule: consecutive.induct)
  case (2 at0 p ps n ns)
  then show ?case by (cases j) (auto dest: add_leD1)
qed auto

lemma consecutive_disjoint:
  "consecutive at ps ns \<Longrightarrow> i < j \<Longrightarrow> j < length ps \<Longrightarrow> unat (ps ! i) + unat (ns ! i) \<le> unat (ps ! j)"
proof (induction "at" ps ns arbitrary: i j rule: consecutive.induct)
  case (2 at0 p ps n ns)
  then obtain j' where j: "j = Suc j'" by (cases j) auto
  show ?case
  proof (cases i)
    case 0
    then show ?thesis using 2 j consecutive_ge [of "at0 + unat n" ps ns j'] by simp
  next
    case (Suc i')
    then show ?thesis using 2 j by simp
  qed
qed auto

lemma consecutive_end:
  "consecutive at ps ns \<Longrightarrow> j < length ps \<Longrightarrow> unat (ps ! j) + unat (ns ! j) \<le> at + sum_list (map unat ns)"
proof (induction "at" ps ns arbitrary: j rule: consecutive.induct)
  case (2 at0 p ps n ns)
  then show ?case by (cases j) (auto simp: add.assoc)
qed auto

context allocator
begin

lemma alloc_all_consecutive:
  "ok s h \<Longrightarrow> sum_list (map unat ns) \<le> room s h \<Longrightarrow>
   \<exists>ps s'. alloc_all alloc s h ns = Inr (ps, s') \<and> consecutive (brk s h) ps ns \<and> ok s' h \<and>
     regions s' = regions s \<and> base s' h = base s h \<and>
     brk s' h = brk s h + sum_list (map unat ns) \<and> 0 \<notin> set ps \<and>
     (\<forall>x. base s h \<le> x \<and> x < brk s h \<longrightarrow> mem s' x = mem s x) \<and>
     (\<forall>x. brk s h \<le> x \<and> x < brk s' h \<longrightarrow> mem s' x = NUL)"
proof (induction ns arbitrary: s)
  case (Cons n ns)
  have fit: "unat n \<le> room s h" using Cons.prems(2) by simp
  obtain s1 where s1: "alloc s h n = Inr (of_nat (brk s h), s1)" "ok s1 h" "regions s1 = regions s"
      "base s1 h = base s h" "brk s1 h = brk s h + unat n" "room s1 h = room s h - unat n"
      "mem_read (mem s1) (brk s h) (unat n) = replicate (unat n) NUL"
      "\<forall>x. base s h \<le> x \<and> x < brk s h \<longrightarrow> mem s1 x = mem s x"
    using alloc_some [OF Cons.prems(1) fit] by blast
  have z: "mem s1 x = NUL" if "brk s h \<le> x" "x < brk s h + unat n" for x
    using that s1(7) nth_mem_read [of "x - brk s h" "unat n" "mem s1" "brk s h"] by simp
  have "sum_list (map unat ns) \<le> room s1 h" using Cons.prems(2) s1(6) by simp
  then obtain ps s2 where s2: "alloc_all alloc s1 h ns = Inr (ps, s2)"
      "consecutive (brk s1 h) ps ns" "ok s2 h" "regions s2 = regions s1" "base s2 h = base s1 h"
      "brk s2 h = brk s1 h + sum_list (map unat ns)" "0 \<notin> set ps"
      "\<forall>x. base s1 h \<le> x \<and> x < brk s1 h \<longrightarrow> mem s2 x = mem s1 x"
      "\<forall>x. brk s1 h \<le> x \<and> x < brk s2 h \<longrightarrow> mem s2 x = NUL"
    using Cons.IH [OF s1(2)] by blast
  have b: "0 < brk s h" "base s h \<le> brk s h" "brk s h < 18446744073709551616"
    using bounds [OF Cons.prems(1)] by auto
  then have u: "unat (of_nat (brk s h) :: u64) = brk s h" by (simp add: unat_of_nat_u64)
  then have "(of_nat (brk s h) :: u64) \<noteq> 0" using b(1) by (metis less_irrefl unat_0)
  moreover have "mem s2 x = NUL" if "brk s h \<le> x" "x < brk s2 h" for x
    using that z s2(8,9) s1(4,5) b(2) by (cases "x < brk s1 h") auto
  ultimately show ?case using s1 s2 u by auto
qed auto

lemma fresh_block:
  assumes "ok s h" and "unat bytes \<le> room s h"
  obtains np s1 where "alloc s h bytes = Inr (np, s1)" and "np \<noteq> 0" and "unat np = brk s h"
    and "ok s1 h" and "regions s1 = regions s" and "base s1 h = base s h"
    and "brk s1 h = brk s h + unat bytes" and "room s1 h = room s h - unat bytes"
    and "\<forall>x. base s h \<le> x \<and> x < brk s h \<longrightarrow> mem s1 x = mem s x"
    and "mem_read (mem s1) (brk s h) (unat bytes) = replicate (unat bytes) NUL"
    and "\<forall>x. x < start h \<or> brk s h + room s h \<le> x \<longrightarrow> mem s1 x = mem s x"
proof -
  have b: "0 < brk s h" "brk s h < 18446744073709551616" using bounds [OF assms(1)] by auto
  then have u: "unat (of_nat (brk s h) :: u64) = brk s h" by (simp add: unat_of_nat_u64)
  then have "(of_nat (brk s h) :: u64) \<noteq> 0" using b(1) by (metis less_irrefl unat_0)
  then show ?thesis using alloc_some [OF assms] outside [OF assms] u that by metis
qed

text \<open>A block filled right after it was allocated.\<close>

lemma push_bytes:
  assumes "ok s h" and "length v \<le> room s h" and "unat n = length v"
  obtains p s1 s2 where "alloc s h n = Inr (p, s1)" and "memcpy s1 p v = Inr s2"
    and "unat p = brk s h" and "ok s2 h" and "regions s2 = regions s" and "base s2 h = base s h"
    and "brk s2 h = brk s h + length v" and "room s2 h = room s h - length v"
    and "mem_read (mem s2) (unat p) (length v) = v"
    and "\<forall>x. base s h \<le> x \<and> x < brk s h \<longrightarrow> mem s2 x = mem s x"
    and "\<forall>x. x < start h \<or> brk s h + room s h \<le> x \<longrightarrow> mem s2 x = mem s x"
proof -
  have fit: "unat n \<le> room s h" using assms(2,3) by simp
  obtain p s1 where s1: "alloc s h n = Inr (p, s1)" "unat p = brk s h" "ok s1 h"
      "regions s1 = regions s" "base s1 h = base s h" "brk s1 h = brk s h + unat n"
      "room s1 h = room s h - unat n" "\<forall>x. base s h \<le> x \<and> x < brk s h \<longrightarrow> mem s1 x = mem s x"
      "\<forall>x. x < start h \<or> brk s h + room s h \<le> x \<longrightarrow> mem s1 x = mem s x"
    using fresh_block [OF assms(1) fit] by metis
  let ?s = "s1\<lparr>mem := mem_write (unat p) v (mem s1)\<rparr>"
  have b: "start h \<le> brk s h" "base s h \<le> brk s h" using bounds [OF assms(1)] by auto
  have "accessible s1 (unat p) (length v)"
    using b s1 assms(3) by (intro reach [OF s1(3)]) simp_all
  then have "memcpy s1 p v = Inr ?s" by (simp add: memcpy_def)
  moreover have "ok ?s h \<and> base ?s h = base s1 h \<and> brk ?s h = brk s1 h \<and> room ?s h = room s1 h"
    using b s1 assms(3) by (intro frame [OF s1(3), of "unat p" v]) simp_all
  moreover have "mem_read (mem ?s) (unat p) (length v) = v" by (simp add: mem_simps)
  moreover have "\<forall>x. base s h \<le> x \<and> x < brk s h \<longrightarrow> mem ?s x = mem s x"
      "\<forall>x. x < start h \<or> brk s h + room s h \<le> x \<longrightarrow> mem ?s x = mem s x"
    using s1(2,8,9) b assms(2) by (auto simp: mem_write_def)
  ultimately show ?thesis using that [of p s1 ?s] s1 assms(3) by simp
qed

end

lemma of_nat_arena_top:
  "arena_ok s a \<Longrightarrow> of_nat (arena_top s a) = a + 32 + current_position (arena_at s a)"
  by (simp add: arena_top_def)

interpretation arena: allocator arena_alloc arena_ok arena_base arena_top arena_room unat
proof
  fix s h and n :: u64
  assume ok: "arena_ok s h" and fits: "unat n \<le> arena_room s h"
  let ?s = "alloc_store s h n"
  let ?A = "arena_at s h"
  have "arena_top ?s h = arena_top s h + unat n" "arena_room ?s h = arena_room s h - unat n"
    by (simp_all add: arena_top_def arena_room_def arena_at_alloc [OF ok] arena_cur_add [OF ok fits])
  moreover have "mem_read (mem ?s) (arena_top s h) (unat n) = replicate (unat n) NUL"
    by (simp add: alloc_store_def mem_simps)
  moreover have "\<forall>x. arena_base s h \<le> x \<and> x < arena_top s h \<longrightarrow> mem ?s x = mem s x"
    by (auto simp: alloc_store_def mem_outside_zero mem_outside_put64 arena_base_def)
  moreover have "regions ?s = regions s" by (simp add: alloc_store_def)
  ultimately show "\<exists>s'. arena_alloc s h n = Inr (of_nat (arena_top s h), s') \<and> arena_ok s' h \<and>
      regions s' = regions s \<and> arena_base s' h = arena_base s h \<and>
      arena_top s' h = arena_top s h + unat n \<and> arena_room s' h = arena_room s h - unat n \<and>
      mem_read (mem s') (arena_top s h) (unat n) = replicate (unat n) NUL \<and>
      (\<forall>x. arena_base s h \<le> x \<and> x < arena_top s h \<longrightarrow> mem s' x = mem s x)"
    using arena_alloc_fits [OF ok fits] arena_ok_alloc [OF ok fits] of_nat_arena_top [OF ok]
    by (auto simp: arena_base_def)
next
  fix s h and n :: u64
  assume "arena_ok s h" "arena_room s h < unat n" "arena_top s h + unat n < 18446744073709551616"
  then show "arena_alloc s h n = Inr (0, s)"
    by (intro arena_alloc_full) (simp_all add: arena_top_def)
next
  fix s h and n :: u64 and p s' x
  assume ok: "arena_ok s h" and fits: "unat n \<le> arena_room s h"
    and "arena_alloc s h n = Inr (p, s')" and x: "x < unat h \<or> arena_top s h + arena_room s h \<le> x"
  then have "s' = alloc_store s h n" by (simp add: arena_alloc_fits)
  then show "mem s' x = mem s x"
    using x fits by (auto simp: alloc_store_def mem_outside_zero mem_outside_put64 arena_top_def)
next
  fix s h assume "arena_ok s h"
  then show "0 < arena_base s h \<and> unat h \<le> arena_base s h \<and> arena_base s h \<le> arena_top s h \<and>
      arena_top s h + arena_room s h < 18446744073709551616"
    by (simp add: arena_bounds) (simp add: arena_base_def)
next
  fix s h p k
  assume "arena_ok s h" "arena_base s h \<le> p" "p + k \<le> arena_top s h"
  then show "accessible s p k"
    by (intro arena_accessible [of s h])
      (auto simp: arena_base_def arena_top_def arena_ok_def word_le_nat_alt)
next
  fix s h p s' and bs :: "char list"
  assume "arena_ok s h" "arena_base s h \<le> p" "s' = s\<lparr>mem := mem_write p bs (mem s)\<rparr>"
  then show "arena_ok s' h \<and> arena_base s' h = arena_base s h \<and>
      arena_top s' h = arena_top s h \<and> arena_room s' h = arena_room s h"
    by (simp add: arena_ok_write arena_frame arena_base_def arena_top_def arena_room_def)
qed

lemma arena_alloc_cases:
  assumes "arena_ok s a" and "os_ok s" and "arena_alloc s a n = Inr (p, s')"
  shows "(p = 0 \<and> s' = s \<and> arena_room s a < unat n) \<or>
    (unat n \<le> arena_room s a \<and> p = a + 32 + current_position (arena_at s a) \<and> s' = alloc_store s a n)"
proof (cases "unat n \<le> arena_room s a")
  case True
  then show ?thesis using arena_alloc_fits [OF assms(1)] assms(3) by simp
next
  case False
  moreover have "unat (current_position (arena_at s a)) + unat n < 18446744073709551616"
    using arena_alloc_wrap [OF assms(1,2)] assms(3) by (auto simp: not_le [symmetric])
  ultimately show ?thesis using arena_alloc_full [OF assms(1)] assms(3) by simp
qed

section \<open>Creation and destruction\<close>

lemma arena_create_run:
  assumes "kernel_ok k" and "k s (cap + 32) = Some a" and "unat cap + 32 < 18446744073709551616"
  shows "\<exists>s'. arena_create k s cap = Inr (a, s') \<and> arena_ok s' a \<and>
    regions s' = (unat a, unat cap + 32) # regions s \<and>
    arena_at s' a = \<lparr>current_position = 0, previous_position = 0, capacity = cap,
                     base_position = a + 32\<rparr> \<and>
    (\<forall>x. x < unat a \<or> unat a + 32 + unat cap \<le> x \<longrightarrow> mem s' x = mem s x)"
proof -
  have u: "unat (cap + 32) = unat cap + 32" using assms(3) by (simp add: unat_add_nowrap)
  have a: "a \<noteq> 0" "unat a + (unat cap + 32) < 18446744073709551616"
    using kernel_okD [OF assms(1,2)] u by auto
  have off: "unat (a + off_current_position) = unat a" "unat (a + off_previous_position) = unat a + 8"
      "unat (a + off_capacity) = unat a + 16" "unat (a + off_base_position) = unat a + 24"
    using a by (simp_all add: layout_simps unat_add_nowrap)
  define s1 where "s1 = s\<lparr>mem := mem_zero (unat a) (unat cap + 32) (mem s),
                           regions := (unat a, unat cap + 32) # regions s\<rparr>"
  define s' where "s' = s1\<lparr>mem := put64 (unat a + 8) 0 (put64 (unat a) 0
      (put64 (unat a + 24) (a + 32) (put64 (unat a + 16) cap (mem s1))))\<rparr>"
  have acc: "accessible s1 (unat a) 8" "accessible s1 (unat a + 8) 8"
      "accessible s1 (unat a + 16) 8" "accessible s1 (unat a + 24) 8"
    by (simp_all add: s1_def accessible_def)
  have "arena_create k s cap = Inr (a, s')"
    using assms(2) u acc off
    by (simp add: arena_create_def sizeof_mem_arena_def mmap_def flip: s1_def)
      (simp add: store64_def s'_def)
  moreover have at: "arena_at s' a = \<lparr>current_position = 0, previous_position = 0, capacity = cap,
      base_position = a + 32\<rparr>"
    by (simp add: arena_at_def s'_def mem_simps apart_def)
  moreover have "regions s' = (unat a, unat cap + 32) # regions s" by (simp add: s'_def s1_def)
  moreover have "mem s' x = mem s x" if "x < unat a \<or> unat a + 32 + unat cap \<le> x" for x
    using that by (auto simp: s'_def s1_def mem_outside_put64 mem_outside_zero)
  ultimately show ?thesis using a by (auto simp: arena_ok_def)
qed

lemma arena_create_fail: "k s (cap + 32) = None \<Longrightarrow> arena_create k s cap = Inr (0, s)"
  by (simp add: arena_create_def mmap_def sizeof_mem_arena_def)

lemma arena_destroy_run:
  "arena_ok s a \<Longrightarrow>
   arena_destroy s a = Inr (munmap s a (capacity (arena_at s a) + sizeof_mem_arena))"
  by (simp add: arena_destroy_def arena_load)

lemma arena_pop_run:
  "arena_ok s a \<Longrightarrow> arena_pop s a n = Inr (s\<lparr>mem := put64 (unat a)
     (current_position (arena_at s a) - c_MIN n (current_position (arena_at s a))) (mem s)\<rparr>)"
  by (simp add: arena_pop_def arena_load arena_store Let_def)

lemma arena_pop_to_run:
  assumes "arena_ok s a"
  shows "arena_pop_to s a pos =
    Inr (s\<lparr>mem := put64 (unat a) (c_MIN pos (current_position (arena_at s a))) (mem s)\<rparr>)"
proof -
  let ?c = "current_position (arena_at s a)"
  have "pos < ?c \<Longrightarrow> ?c - pos \<le> ?c" by (simp add: word_sub_le less_imp_le)
  then have "pos < ?c \<Longrightarrow> ?c - c_MIN (?c - pos) ?c = pos" by (auto simp: c_MIN_def)
  then show ?thesis using assms
    by (auto simp: arena_pop_to_def arena_pop_run arena_load Let_def c_MIN_def word_gt_0)
qed

lemma arena_clear_run:
  "arena_ok s a \<Longrightarrow> arena_clear s a = Inr (s\<lparr>mem := put64 (unat a) 0 (mem s)\<rparr>)"
  by (simp add: arena_clear_def arena_store)

lemma temp_arena_begin_run:
  "arena_ok s a \<Longrightarrow>
   temp_arena_begin s a = Inr \<lparr>arena = a, start_position = current_position (arena_at s a)\<rparr>"
  by (simp add: temp_arena_begin_def arena_load)

lemma temp_arena_end_run:
  "arena_ok s (arena t) \<Longrightarrow>
   temp_arena_end s t = Inr (s\<lparr>mem := put64 (unat (arena t)) (start_position t) (mem s)\<rparr>)"
  by (simp add: temp_arena_end_def arena_store)

lemmas arena_runs [run_simps] =
  arena_pop_run arena_pop_to_run arena_clear_run temp_arena_begin_run temp_arena_end_run

lemma arena_ok_set_current:
  assumes "arena_ok s a" and "v \<le> capacity (arena_at s a)"
  shows "arena_ok (s\<lparr>mem := put64 (unat a) v (mem s)\<rparr>) a"
  using assms by (simp add: arena_ok_def arena_at_put(1))

lemma word_sub_MIN_le: "(c :: u64) - c_MIN n c \<le> c"
  by (auto simp: c_MIN_def intro: word_sub_le less_imp_le)

text \<open>An arena on an otherwise empty address space.\<close>

lemma page_arena:
  assumes "unat cap < 18446744073709547488"
  obtains s where "arena_create page_kernel empty_os cap = Inr (4096, s)" and "arena_ok s 4096"
    and "os_ok s" and "arena_base s 4096 = 4128" and "arena_top s 4096 = 4128"
    and "arena_room s 4096 = unat cap" and "regions s = [(4096, unat cap + 32)]"
proof -
  have u: "unat (cap + 32) = unat cap + 32" using assms by (simp add: unat_add_nowrap)
  have "page_kernel empty_os (cap + 32) = Some 4096"
    using assms u by (intro page_kernel_empty) simp_all
  from arena_create_run [OF page_kernel_ok this] assms that show ?thesis
    by (fastforce simp: empty_os_def os_ok_def arena_base_def arena_top_def arena_room_def)
qed

section \<open>Two arenas\<close>

lemma arena_capacity:
  "arena_ok s a \<Longrightarrow> unat (capacity (arena_at s a)) = arena_top s a + arena_room s a - arena_base s a"
  using arena_cur_le [of s a] by (simp add: arena_top_def arena_room_def arena_base_def)

text \<open>An arena does not notice changes outside its mapping.\<close>

lemma arena_ok_cong:
  assumes "arena_ok s a" and "set (regions s) \<subseteq> set (regions s')"
    and "\<And>x. unat a \<le> x \<Longrightarrow> x < unat a + 32 \<Longrightarrow> mem s' x = mem s x"
  shows "arena_ok s' a" and "arena_at s' a = arena_at s a"
    and "arena_top s' a = arena_top s a" and "arena_room s' a = arena_room s a"
    and "arena_base s' a = arena_base s a"
proof -
  have "mem_read (mem s') (unat a + k) 8 = mem_read (mem s) (unat a + k) 8" if "k + 8 \<le> 32" for k
    using that assms(3) by (intro mem_read_cong) auto
  from this [of 0] this [of 8] this [of 16] this [of 24]
  show eq: "arena_at s' a = arena_at s a" by (simp add: arena_at_def get64_def)
  show "arena_ok s' a" using assms(1,2) unfolding arena_ok_def eq by auto
  show "arena_top s' a = arena_top s a" "arena_room s' a = arena_room s a"
      "arena_base s' a = arena_base s a"
    by (simp_all add: arena_top_def arena_room_def arena_base_def eq)
qed

text \<open>Destroying the arena that was created last gives the regions before its creation.\<close>

lemma arena_destroy_last:
  assumes ok: "arena_ok s a" and rs: "regions s = (unat a, n) # rs"
    and n: "arena_top s a + arena_room s a = unat a + n"
    and apart: "\<forall>(b, l) \<in> set rs. apart (unat a) n b l"
  obtains s' where "arena_destroy s a = Inr s'" and "regions s' = rs" and "mem s' = mem s"
proof -
  let ?cap = "capacity (arena_at s a)"
  have "unat ?cap + 32 = n" using arena_capacity [OF ok] n by (simp add: arena_base_def arena_top_def)
  moreover have "unat ?cap + 32 < 18446744073709551616" using ok by (simp add: arena_ok_def)
  ultimately have u: "unat (?cap + 32) = n" by (simp add: unat_add_nowrap)
  moreover have "?cap + 32 \<noteq> 0" using u \<open>unat ?cap + 32 = n\<close> by (metis add_is_0 unat_0 zero_neq_numeral)
  ultimately have "regions (munmap s a (?cap + 32)) = rs"
    using rs apart by (intro munmap_fresh) simp_all
  then show ?thesis
    using that arena_destroy_run [OF ok] by (simp add: sizeof_mem_arena_def)
qed

section \<open>Work inside one arena\<close>

text \<open>Nothing but the mapping of the arena changed, and the arena is still well formed.\<close>

definition in_arena_only :: "u64 \<Rightarrow> os \<Rightarrow> os \<Rightarrow> bool" where
  "in_arena_only t s s' \<longleftrightarrow> arena_ok s' t \<and> regions s' = regions s \<and>
     arena_top s' t + arena_room s' t = arena_top s t + arena_room s t \<and>
     (\<forall>x. x < unat t \<or> arena_top s t + arena_room s t \<le> x \<longrightarrow> mem s' x = mem s x)"

lemma in_arena_only_refl: "arena_ok s t \<Longrightarrow> in_arena_only t s s"
  by (simp add: in_arena_only_def)

lemma in_arena_only_trans: "in_arena_only t s s1 \<Longrightarrow> in_arena_only t s1 s2 \<Longrightarrow> in_arena_only t s s2"
  by (simp add: in_arena_only_def)

end
