(* ===== verification/Arena_Life.thy ===== *)
theory Arena_Life
  imports Arena
begin

text \<open>
  The life of an arena: an abstract bump allocator that the operations of \<open>base_arena.c\<close>
  implement, the step relation of everything a program does with an arena between
  \<open>arena_create\<close> and \<open>arena_destroy\<close> (allocation, popping, clearing, temporary scopes and
  the client's own writes), the invariant of every reachable state, and what
  \<open>arena_resize\<close> does to it.
\<close>

section \<open>The abstract allocator\<close>

record bump =
  bump_cap :: nat
  bump_pos :: nat

definition bump_alloc :: "bump \<Rightarrow> nat \<Rightarrow> nat option \<times> bump" where
  "bump_alloc b n =
     (if bump_pos b + n \<le> bump_cap b then (Some (bump_pos b), b\<lparr>bump_pos := bump_pos b + n\<rparr>)
      else (None, b))"

definition bump_pop :: "bump \<Rightarrow> nat \<Rightarrow> bump" where
  "bump_pop b n = b\<lparr>bump_pos := bump_pos b - n\<rparr>"

definition bump_pop_to :: "bump \<Rightarrow> nat \<Rightarrow> bump" where
  "bump_pop_to b pos = b\<lparr>bump_pos := min pos (bump_pos b)\<rparr>"

definition arena_abs :: "os \<Rightarrow> u64 \<Rightarrow> bump" where
  "arena_abs s a = \<lparr>bump_cap = unat (capacity (arena_at s a)),
                    bump_pos = unat (current_position (arena_at s a))\<rparr>"

definition offset_of :: "u64 \<Rightarrow> u64 \<Rightarrow> nat option" where
  "offset_of a p = (if p = 0 then None else Some (unat p - (unat a + 32)))"

lemma alloc_refines:
  assumes ok: "arena_ok s a"
    and nw: "unat (current_position (arena_at s a)) + unat n < 18446744073709551616"
  shows "\<exists>p s'. arena_alloc s a n = Inr (p, s') \<and>
    bump_alloc (arena_abs s a) (unat n) = (offset_of a p, arena_abs s' a)"
proof (cases "unat n \<le> arena_room s a")
  case True
  let ?p = "a + 32 + current_position (arena_at s a)"
  have u: "unat ?p = unat a + 32 + unat (current_position (arena_at s a))"
    using unat_base [OF ok arena_cur_le [OF ok]] ok by (simp add: arena_ok_def)
  then have "?p \<noteq> 0" by (metis add_is_0 unat_0 zero_neq_numeral)
  then have "offset_of a ?p = Some (unat (current_position (arena_at s a)))"
    using u by (simp add: offset_of_def)
  moreover have "unat (current_position (arena_at s a)) + unat n \<le> unat (capacity (arena_at s a))"
    using True arena_cur_le [OF ok] by (simp add: arena_room_def)
  ultimately show ?thesis
    using arena_alloc_fits [OF ok True] arena_cur_add [OF ok True]
    by (simp add: bump_alloc_def arena_abs_def arena_at_alloc [OF ok])
next
  case False
  then have "\<not> unat (current_position (arena_at s a)) + unat n \<le> unat (capacity (arena_at s a))"
    by (simp add: arena_room_def)
  then show ?thesis
    using arena_alloc_full [OF ok _ nw] False
    by (simp add: bump_alloc_def arena_abs_def offset_of_def)
qed

lemma unat_sub_MIN: "unat ((c :: u64) - c_MIN n c) = unat c - unat n"
  by (auto simp: c_MIN_def unat_sub_u64 word_less_nat_alt less_imp_le)

lemma unat_MIN: "unat (c_MIN n c) = min (unat n) (unat c)"
  by (auto simp: c_MIN_def word_less_nat_alt)

lemma pop_refines:
  "arena_ok s a \<Longrightarrow> \<exists>s'. arena_pop s a n = Inr s' \<and> arena_abs s' a = bump_pop (arena_abs s a) (unat n)"
  by (simp add: run_simps arena_abs_def bump_pop_def arena_at_put(1) unat_sub_MIN)

lemma pop_to_refines:
  "arena_ok s a \<Longrightarrow>
   \<exists>s'. arena_pop_to s a pos = Inr s' \<and> arena_abs s' a = bump_pop_to (arena_abs s a) (unat pos)"
  by (simp add: run_simps arena_abs_def bump_pop_to_def arena_at_put(1) unat_MIN)

section \<open>Steps and reachable states\<close>

text \<open>The state is the store and the stack of open temporary scopes.\<close>

inductive arena_step :: "u64 \<Rightarrow> os \<times> temp_arena list \<Rightarrow> os \<times> temp_arena list \<Rightarrow> bool"
  for a :: u64
where
  alloc: "arena_alloc s a n = Inr (p, s') \<Longrightarrow> arena_step a (s, ts) (s', ts)"
| pop: "arena_pop s a n = Inr s' \<Longrightarrow> arena_step a (s, ts) (s', ts)"
| pop_to: "arena_pop_to s a n = Inr s' \<Longrightarrow> arena_step a (s, ts) (s', ts)"
| clear: "arena_clear s a = Inr s' \<Longrightarrow> arena_step a (s, ts) (s', ts)"
| temp_begin: "temp_arena_begin s a = Inr t \<Longrightarrow> arena_step a (s, ts) (s, t # ts)"
| temp_end: "temp_arena_end s t = Inr s' \<Longrightarrow> arena_step a (s, t # ts) (s', ts)"
| client: "arena_base s a \<le> p \<Longrightarrow> p + length bs \<le> arena_top s a \<Longrightarrow>
     arena_step a (s, ts) (s\<lparr>mem := mem_write p bs (mem s)\<rparr>, ts)"

inductive arena_reach :: "kernel \<Rightarrow> os \<Rightarrow> u64 \<Rightarrow> u64 \<Rightarrow> os \<times> temp_arena list \<Rightarrow> bool"
  for k :: kernel and s0 :: os and cap :: u64 and a :: u64
where
  create: "arena_create k s0 cap = Inr (a, s) \<Longrightarrow> a \<noteq> 0 \<Longrightarrow> arena_reach k s0 cap a (s, [])"
| step: "arena_reach k s0 cap a st \<Longrightarrow> arena_step a st st' \<Longrightarrow> arena_reach k s0 cap a st'"

inductive_cases arena_stepE: "arena_step a (s, ts) st'"

definition arena_inv :: "os \<Rightarrow> u64 \<Rightarrow> u64 \<Rightarrow> os \<times> temp_arena list \<Rightarrow> bool" where
  "arena_inv s0 cap a st \<longleftrightarrow> (case st of (s, ts) \<Rightarrow>
     arena_ok s a \<and> os_ok s \<and> capacity (arena_at s a) = cap \<and>
     regions s = (unat a, unat cap + 32) # regions s0 \<and>
     list_all (\<lambda>t. arena t = a \<and> start_position t \<le> cap) ts)"

lemma arena_inv_set_current:
  assumes "arena_inv s0 cap a (s, ts)" and "v \<le> cap"
  shows "arena_inv s0 cap a (s\<lparr>mem := put64 (unat a) v (mem s)\<rparr>, ts)"
  using assms by (simp add: arena_inv_def arena_ok_set_current arena_at_put(1))

lemma arena_inv_cur: "arena_inv s0 cap a (s, ts) \<Longrightarrow> current_position (arena_at s a) \<le> cap"
  by (auto simp: arena_inv_def arena_ok_def)

lemma arena_inv_alloc:
  assumes inv: "arena_inv s0 cap a (s, ts)" and run: "arena_alloc s a n = Inr (p, s')"
  shows "arena_inv s0 cap a (s', ts)"
proof -
  have ok: "arena_ok s a" "os_ok s" using inv by (auto simp: arena_inv_def)
  consider "s' = s" | "unat n \<le> arena_room s a" "s' = alloc_store s a n"
    using arena_alloc_cases [OF ok run] by blast
  then show ?thesis
  proof cases
    case 2
    have "regions s' = regions s" using 2(2) by (simp add: alloc_store_def)
    then have "os_ok s'" using ok(2) by (simp add: os_ok_def)
    then show ?thesis
      using inv 2 \<open>regions s' = regions s\<close> arena_ok_alloc [OF ok(1) 2(1)]
      by (simp add: arena_inv_def arena_at_alloc [OF ok(1)])
  qed (use inv in simp)
qed

lemma arena_step_inv:
  assumes "arena_step a st st'" and "arena_inv s0 cap a st"
  shows "arena_inv s0 cap a st'"
  using assms
proof (cases rule: arena_step.cases)
  case (alloc s n p s' ts)
  then show ?thesis using assms(2) by (auto intro: arena_inv_alloc)
next
  case (pop s n s' ts)
  then have "arena_ok s a" using assms(2) by (simp add: arena_inv_def)
  then show ?thesis using pop assms(2) arena_inv_cur [of s0 cap a s ts]
    by (auto simp: run_simps intro!: arena_inv_set_current order_trans [OF word_sub_MIN_le])
next
  case (pop_to s n s' ts)
  then have "arena_ok s a" using assms(2) by (simp add: arena_inv_def)
  then show ?thesis using pop_to assms(2) arena_inv_cur [of s0 cap a s ts]
    by (auto simp: run_simps intro!: arena_inv_set_current order_trans [OF c_MIN_le])
next
  case (clear s s' ts)
  then have "arena_ok s a" using assms(2) by (simp add: arena_inv_def)
  then show ?thesis using clear assms(2) by (auto simp: run_simps intro!: arena_inv_set_current)
next
  case (temp_begin s t ts)
  then have "arena_ok s a" using assms(2) by (simp add: arena_inv_def)
  then show ?thesis using temp_begin assms(2) by (auto simp: run_simps arena_inv_def arena_ok_def)
next
  case (temp_end s t s' ts)
  then have "arena_ok s a" "arena t = a" "start_position t \<le> cap" "arena_inv s0 cap a (s, ts)"
    using assms(2) by (simp_all add: arena_inv_def)
  then show ?thesis using temp_end by (auto simp: run_simps intro!: arena_inv_set_current)
next
  case (client s p bs ts)
  then show ?thesis using assms(2)
    by (simp add: arena_inv_def arena_ok_write arena_frame)
qed

lemma arena_create_inv:
  assumes "kernel_ok k" and "os_ok s0" and "unat cap + 32 < 18446744073709551616"
    and "arena_create k s0 cap = Inr (a, s)" and "a \<noteq> 0"
  shows "arena_inv s0 cap a (s, [])"
proof (cases "k s0 (cap + 32)")
  case None
  then show ?thesis using arena_create_fail [of k s0 cap] assms(4,5) by simp
next
  case (Some b)
  then obtain s' where s': "arena_create k s0 cap = Inr (b, s')" "arena_ok s' b"
      "regions s' = (unat b, unat cap + 32) # regions s0" "capacity (arena_at s' b) = cap"
    using arena_create_run [OF assms(1) Some assms(3)] by auto
  moreover have "os_ok s'" using s' assms(2) by (auto simp: os_ok_def arena_ok_def)
  ultimately show ?thesis using assms(4) by (simp add: arena_inv_def)
qed

lemma arena_reach_inv:
  assumes "kernel_ok k" and "os_ok s0" and "unat cap + 32 < 18446744073709551616"
    and "arena_reach k s0 cap a st"
  shows "arena_inv s0 cap a st"
  using assms(4)
  by (induction rule: arena_reach.induct) (use assms(1-3) in \<open>blast intro: arena_create_inv arena_step_inv\<close>)+


lemma arena_alloc_capacity:
  assumes "arena_ok s a" and "unat n \<le> arena_room s a" and "arena_alloc s a n = Inr (p, s')"
  shows "capacity (arena_at s' a) = capacity (arena_at s a)"
  using assms arena_alloc_fits [OF assms(1,2)] by (auto simp: arena_at_alloc)

lemma alloc_all_capacity:
  assumes "arena_ok s a" and "alloc_all arena_alloc s a ns = Inr (ps, s')"
    and "sum_list (map unat ns) \<le> arena_room s a"
  shows "capacity (arena_at s' a) = capacity (arena_at s a)"
  using assms
proof (induction ns arbitrary: s ps)
  case (Cons n ns)
  have fit: "unat n \<le> arena_room s a" using Cons.prems(3) by simp
  note run = arena_alloc_fits [OF Cons.prems(1) fit]
  let ?s = "alloc_store s a n"
  have ok: "arena_ok ?s a" by (rule arena_ok_alloc [OF Cons.prems(1) fit])
  obtain qs where rest: "alloc_all arena_alloc ?s a ns = Inr (qs, s')"
    using Cons.prems(2) run by (auto simp: andthen_eq_Inr)
  have "arena_room ?s a = arena_room s a - unat n"
    by (simp add: arena_room_def arena_at_alloc [OF Cons.prems(1)] arena_cur_add [OF Cons.prems(1) fit])
  then have "capacity (arena_at s' a) = capacity (arena_at ?s a)"
    using Cons.IH [OF ok rest] Cons.prems(3) by simp
  then show ?case by (simp add: arena_at_alloc [OF Cons.prems(1)])
qed auto

section \<open>Resizing\<close>

definition last_block :: "os \<Rightarrow> u64 \<Rightarrow> u64 \<Rightarrow> bool" where
  "last_block s a p \<longleftrightarrow>
     p = a + 32 + previous_position (arena_at s a) \<and>
     previous_position (arena_at s a) < capacity (arena_at s a)"

lemma last_block_addr:
  assumes "arena_ok s a" and "last_block s a p"
  shows "unat p = unat a + 32 + unat (previous_position (arena_at s a))" "p \<noteq> 0"
    "base_position (arena_at s a) \<le> p" "p < base_position (arena_at s a) + capacity (arena_at s a)"
    "base_position (arena_at s a) + previous_position (arena_at s a) = p"
proof -
  let ?A = "arena_at s a"
  have b: "base_position ?A = a + 32" using assms(1) by (simp add: arena_ok_def)
  have prev: "unat (previous_position ?A) < unat (capacity ?A)"
    using assms(2) by (simp add: last_block_def word_less_nat_alt)
  show u: "unat p = unat a + 32 + unat (previous_position ?A)"
    using unat_base [OF assms(1), of "previous_position ?A"] prev b assms(2)
    by (simp add: last_block_def)
  then show "p \<noteq> 0" by (metis add_is_0 unat_0 zero_neq_numeral)
  show "base_position ?A \<le> p"
    using u b by (simp add: word_le_nat_alt unat_header [OF assms(1)])
  show "p < base_position ?A + capacity ?A"
    using u prev unat_base [OF assms(1), of "capacity ?A"] by (simp add: word_less_nat_alt)
  show "base_position ?A + previous_position ?A = p" using b assms(2) by (simp add: last_block_def)
qed

lemma arena_resize_last:
  assumes "arena_ok s a" and "last_block s a p" and "old \<noteq> 0"
  shows "arena_resize s a p new old =
    andthen (if new > old
             then MemSet (s\<lparr>mem := put64 (unat a) (previous_position (arena_at s a) + new) (mem s)\<rparr>)
                    (a + off_current_position) (new - old)
             else Inr (s\<lparr>mem := put64 (unat a) (previous_position (arena_at s a) + new) (mem s)\<rparr>))
      (\<lambda>s2. Inr (p, s2))"
  using assms(3) last_block_addr [OF assms(1,2)]
  by (simp add: arena_resize_def arena_resize_align_def arena_load [OF assms(1)]
      arena_store [OF assms(1)])

lemma arena_resize_grow_last:
  assumes "arena_ok s a" and "last_block s a p" and "old \<noteq> 0" and "old < new"
    and "unat new - unat old \<le> unat (capacity (arena_at s a)) + 32"
  shows "arena_resize s a p new old =
    Inr (p, s\<lparr>mem := mem_zero (unat a) (unat new - unat old)
      (put64 (unat a) (previous_position (arena_at s a) + new) (mem s))\<rparr>)"
proof -
  have "unat (new - old) = unat new - unat old" using assms(4) by (simp add: unat_sub_u64 less_imp_le)
  moreover have "accessible s (unat a) (unat new - unat old)"
    using assms(5) by (intro arena_accessible [OF assms(1)]) simp_all
  ultimately show ?thesis
    using assms(4) arena_resize_last [OF assms(1-3)]
    by (simp add: MemSet_def unat_header [OF assms(1)])
qed

section \<open>Properties\<close>

text \<open>C9: \<open>arena_alloc\<close>, \<open>arena_pop\<close>, \<open>arena_pop_to\<close> and \<open>arena_clear\<close> implement the
  abstract bump allocator: each returns, and the abstraction of the resulting store is the
  abstract operation's result (the offset handed out included, NULL standing for none).\<close>

theorem arena_refines_bump:
  assumes "arena_ok s a"
    and "unat (current_position (arena_at s a)) + unat n < 18446744073709551616"
  shows "(\<exists>p s'. arena_alloc s a n = Inr (p, s') \<and>
            bump_alloc (arena_abs s a) (unat n) = (offset_of a p, arena_abs s' a)) \<and>
         (\<exists>s'. arena_pop s a n = Inr s' \<and> arena_abs s' a = bump_pop (arena_abs s a) (unat n)) \<and>
         (\<exists>s'. arena_pop_to s a n = Inr s' \<and> arena_abs s' a = bump_pop_to (arena_abs s a) (unat n)) \<and>
         (\<exists>s'. arena_clear s a = Inr s' \<and> arena_abs s' a = bump_pop_to (arena_abs s a) 0)"
proof -
  have "\<exists>s'. arena_clear s a = Inr s' \<and> arena_abs s' a = bump_pop_to (arena_abs s a) 0"
    using assms(1) by (simp add: run_simps arena_abs_def bump_pop_to_def arena_at_put(1))
  then show ?thesis
    using alloc_refines [OF assms] pop_refines [OF assms(1)] pop_to_refines [OF assms(1)] by blast
qed

text \<open>An arena of 64 bytes at address 4096, fresh from \<open>arena_create\<close>.\<close>

lemma demo_arena:
  "\<exists>s. arena_create page_kernel empty_os 64 = Inr (4096, s) \<and> arena_ok s 4096 \<and> os_ok s \<and>
     regions s = [(4096, 96)] \<and>
     arena_at s 4096 = \<lparr>current_position = 0, previous_position = 0, capacity = 64, base_position = 4128\<rparr>"
proof -
  have "page_kernel empty_os (64 + 32) = Some 4096" by (rule page_kernel_empty) simp_all
  from arena_create_run [OF page_kernel_ok this] obtain s where
    "arena_create page_kernel empty_os 64 = Inr (4096, s)" "arena_ok s 4096"
    "regions s = [(4096, 96)]"
    "arena_at s 4096 = \<lparr>current_position = 0, previous_position = 0, capacity = 64, base_position = 4128\<rparr>"
    by (auto simp: empty_os_def)
  then show ?thesis by (auto simp: os_ok_def)
qed

theorem arena_refines_bump_witness:
  "\<exists>s p s'. arena_ok s 4096 \<and> arena_alloc s 4096 24 = Inr (p, s') \<and>
     bump_alloc (arena_abs s 4096) 24 = (offset_of 4096 p, arena_abs s' 4096)"
proof -
  obtain s where s: "arena_ok s 4096" "arena_at s 4096 =
      \<lparr>current_position = 0, previous_position = 0, capacity = 64, base_position = 4128\<rparr>"
    using demo_arena by auto
  then show ?thesis using arena_refines_bump [OF s(1), of 24] by auto
qed

text \<open>C8: In every state a program reaches from \<open>arena_create\<close> by allocating, popping, clearing,
  opening and closing temporary scopes and writing into what it was given, the header is
  intact (capacity and base as created), the position is within the capacity, and no other
  mapping changed.\<close>

theorem arena_reachable_safe:
  assumes "kernel_ok k" and "os_ok s0" and "unat cap + 32 < 18446744073709551616"
    and "arena_reach k s0 cap a (s, ts)"
  shows "capacity (arena_at s a) = cap \<and> base_position (arena_at s a) = a + 32 \<and>
    current_position (arena_at s a) \<le> cap \<and> previous_position (arena_at s a) \<le> cap \<and>
    regions s = (unat a, unat cap + 32) # regions s0"
  using arena_reach_inv [OF assms] by (auto simp: arena_inv_def arena_ok_def)

theorem arena_reachable_safe_witness:
  "\<exists>s. arena_reach page_kernel empty_os 64 4096 (s, []) \<and> base_position (arena_at s 4096) = 4128"
proof -
  obtain s where "arena_create page_kernel empty_os 64 = Inr (4096, s)" using demo_arena by auto
  then have r: "arena_reach page_kernel empty_os 64 4096 (s, [])" by (rule arena_reach.create) simp
  show ?thesis using arena_reachable_safe [OF page_kernel_ok empty_os_ok _ r] r by auto
qed



text \<open>C13: A sequence of allocations that fits in the arena succeeds; the blocks are not NULL, lie in mapped
  memory above everything handed out before, do not overlap, each holds only zero bytes afterwards, and what was
  allocated before is untouched.\<close>

theorem arena_blocks_disjoint:
  assumes "arena_ok s a" and "sum_list (map unat ns) \<le> arena_room s a"
  shows "\<exists>ps s'. alloc_all arena_alloc s a ns = Inr (ps, s') \<and> length ps = length ns \<and> 0 \<notin> set ps \<and> arena_ok s' a \<and>
    (\<forall>j < length ps. arena_top s a \<le> unat (ps ! j) \<and> accessible s' (unat (ps ! j)) (unat (ns ! j)) \<and>
       unat (ps ! j) + unat (ns ! j) \<le> arena_top s' a \<and>
       mem_read (mem s') (unat (ps ! j)) (unat (ns ! j)) = replicate (unat (ns ! j)) NUL) \<and>
    (\<forall>i j. i < j \<and> j < length ps \<longrightarrow> unat (ps ! i) + unat (ns ! i) \<le> unat (ps ! j)) \<and>
    (\<forall>x. arena_base s a \<le> x \<and> x < arena_top s a \<longrightarrow> mem s' x = mem s x)"
proof -
  obtain ps s' where r: "alloc_all arena_alloc s a ns = Inr (ps, s')"
      "consecutive (arena_top s a) ps ns" "0 \<notin> set ps" "arena_ok s' a" "arena_base s' a = arena_base s a"
      "arena_top s' a = arena_top s a + sum_list (map unat ns)"
      "\<forall>x. arena_base s a \<le> x \<and> x < arena_top s a \<longrightarrow> mem s' x = mem s x"
      "\<forall>x. arena_top s a \<le> x \<and> x < arena_top s' a \<longrightarrow> mem s' x = NUL"
    using arena.alloc_all_consecutive [OF assms] by blast
  have "arena_top s a \<le> unat (ps ! j) \<and> accessible s' (unat (ps ! j)) (unat (ns ! j)) \<and>
      unat (ps ! j) + unat (ns ! j) \<le> arena_top s' a \<and>
      mem_read (mem s') (unat (ps ! j)) (unat (ns ! j)) = replicate (unat (ns ! j)) NUL" if "j < length ps" for j
  proof -
    have b: "arena_top s a \<le> unat (ps ! j)" "unat (ps ! j) + unat (ns ! j) \<le> arena_top s' a"
      using consecutive_ge [OF r(2) that] consecutive_end [OF r(2) that] r(6) by simp_all
    moreover have "arena_base s a \<le> arena_top s a" using arena.bounds [OF assms(1)] by simp
    ultimately show ?thesis using r(5,8) by (simp add: arena.reach [OF r(4)] mem_read_zeros)
  qed
  then show ?thesis using r(1,3,4,7) consecutive_disjoint [OF r(2)] consecutive_length [OF r(2)] by blast
qed

theorem arena_blocks_disjoint_witness:
  "\<exists>s ps s'. arena_ok s 4096 \<and> alloc_all arena_alloc s 4096 [24, 16, 8] = Inr (ps, s') \<and> length ps = 3 \<and> 0 \<notin> set ps \<and>
     mem_read (mem s') (unat (ps ! 1)) 16 = replicate 16 NUL"
proof -
  obtain s where s: "arena_ok s 4096" "arena_at s 4096 =
      \<lparr>current_position = 0, previous_position = 0, capacity = 64, base_position = 4128\<rparr>"
    using demo_arena by auto
  then have "sum_list (map unat [24, 16, 8 :: u64]) \<le> arena_room s 4096"
    by (simp add: arena_room_def)
  from arena_blocks_disjoint [OF s(1) this] show ?thesis
  proof (elim exE conjE, intro exI conjI)
    fix ps s'
    assume r: "alloc_all arena_alloc s 4096 [24, 16, 8] = Inr (ps, s')" "length ps = length [24, 16, 8 :: u64]"
        "0 \<notin> set ps"
      and b: "\<forall>j < length ps. arena_top s 4096 \<le> unat (ps ! j) \<and>
        accessible s' (unat (ps ! j)) (unat ([24, 16, 8 :: u64] ! j)) \<and>
        unat (ps ! j) + unat ([24, 16, 8 :: u64] ! j) \<le> arena_top s' 4096 \<and>
        mem_read (mem s') (unat (ps ! j)) (unat ([24, 16, 8 :: u64] ! j)) = replicate (unat ([24, 16, 8 :: u64] ! j)) NUL"
    show "mem_read (mem s') (unat (ps ! 1)) 16 = replicate 16 NUL"
      using b [rule_format, of 1] r(2) by simp
    show "alloc_all arena_alloc s 4096 [24, 16, 8] = Inr (ps, s')" "length ps = 3" "0 \<notin> set ps" "arena_ok s 4096"
      using r s(1) by simp_all
  qed
qed

text \<open>C35: \<open>arena_alloc\<close> does not guard the sum of position and size against wrap-around: a
  request that wraps passes the capacity check, and the zeroing of the block then runs out of
  the address space and faults.\<close>

theorem arena_alloc_overflow_faults:
  assumes "arena_ok s a" and "os_ok s"
    and "18446744073709551616 \<le> unat (current_position (arena_at s a)) + unat n"
  shows "arena_alloc s a n = Inl Segfault"
  using assms by (rule arena_alloc_wrap)

theorem arena_alloc_overflow_faults_witness:
  "\<exists>s s1 p. arena_ok s 4096 \<and> arena_alloc s 4096 16 = Inr (p, s1) \<and>
     arena_alloc s1 4096 18446744073709551608 = Inl Segfault"
proof -
  obtain s where s: "arena_ok s 4096" "os_ok s" "arena_at s 4096 =
      \<lparr>current_position = 0, previous_position = 0, capacity = 64, base_position = 4128\<rparr>"
    using demo_arena by auto
  have fits: "unat (16 :: u64) \<le> arena_room s 4096" using s by (simp add: arena_room_def)
  let ?s1 = "alloc_store s 4096 16"
  have "arena_ok ?s1 4096" "os_ok ?s1" using s arena_ok_alloc [OF s(1) fits] by simp_all
  moreover have "current_position (arena_at ?s1 4096) = 16"
    using s(3) by (simp add: arena_at_alloc [OF s(1)])
  ultimately show ?thesis
    using arena_alloc_overflow_faults [of ?s1 4096 18446744073709551608]
      arena_alloc_fits [OF s(1) fits] s(1) by auto
qed

text \<open>C26: A temporary scope restores the arena: after \<open>temp_arena_begin\<close>, any allocations that
  fit and \<open>temp_arena_end\<close>, the position is the one before and everything allocated before the
  scope is unchanged.\<close>

theorem temp_scope_restores:
  assumes "arena_ok s a" and "sum_list (map unat ns) \<le> arena_room s a"
  shows "\<exists>t ps s1 s2. temp_arena_begin s a = Inr t \<and> alloc_all arena_alloc s a ns = Inr (ps, s1) \<and>
    temp_arena_end s1 t = Inr s2 \<and> arena_ok s2 a \<and> arena_abs s2 a = arena_abs s a \<and>
    (\<forall>x. arena_base s a \<le> x \<and> x < arena_top s a \<longrightarrow> mem s2 x = mem s x)"
proof -
  let ?c = "current_position (arena_at s a)"
  obtain ps s1 where r: "alloc_all arena_alloc s a ns = Inr (ps, s1)" "arena_ok s1 a"
      "regions s1 = regions s"
      "\<forall>x. arena_base s a \<le> x \<and> x < arena_top s a \<longrightarrow> mem s1 x = mem s x"
    using arena.alloc_all_consecutive [OF assms] by blast
  have cap: "capacity (arena_at s1 a) = capacity (arena_at s a)"
    by (rule alloc_all_capacity [OF assms(1) r(1) assms(2)])
  let ?s2 = "s1\<lparr>mem := put64 (unat a) ?c (mem s1)\<rparr>"
  have "?c \<le> capacity (arena_at s1 a)" using assms(1) cap by (simp add: arena_ok_def)
  then have "arena_ok ?s2 a" by (rule arena_ok_set_current [OF r(2)])
  moreover have "arena_abs ?s2 a = arena_abs s a" by (simp add: arena_abs_def arena_at_put(1) cap)
  moreover have "mem ?s2 x = mem s x" if "arena_base s a \<le> x" "x < arena_top s a" for x
    using that r(4) by (simp add: mem_outside_put64 arena_base_def)
  ultimately show ?thesis using r assms(1) by (simp add: run_simps)
qed

theorem temp_scope_restores_witness:
  "\<exists>s t ps s1 s2. temp_arena_begin s 4096 = Inr t \<and> alloc_all arena_alloc s 4096 [24, 16] = Inr (ps, s1) \<and>
     temp_arena_end s1 t = Inr s2 \<and> arena_abs s2 4096 = arena_abs s 4096"
proof -
  obtain s where s: "arena_ok s 4096" "arena_at s 4096 =
      \<lparr>current_position = 0, previous_position = 0, capacity = 64, base_position = 4128\<rparr>"
    using demo_arena by auto
  then have "sum_list (map unat [24, 16 :: u64]) \<le> arena_room s 4096"
    by (simp add: arena_room_def)
  then show ?thesis using temp_scope_restores [OF s(1), of "[24, 16]"] by blast
qed

text \<open>C36: Growing the last block with \<open>arena_resize\<close> clears the arena's own header instead of
  the new bytes: growth by 32 bytes or more leaves position, capacity and base all zero, after
  which every allocation of at least one byte answers NULL.\<close>

theorem arena_resize_grow_clears_header:
  assumes "arena_ok s a" and "last_block s a p" and "old \<noteq> 0"
    and "unat old + 32 \<le> unat new"
    and "unat new - unat old \<le> unat (capacity (arena_at s a)) + 32"
  shows "\<exists>s'. arena_resize s a p new old = Inr (p, s') \<and>
    arena_at s' a = \<lparr>current_position = 0, previous_position = 0, capacity = 0, base_position = 0\<rparr> \<and>
    (\<forall>n. n \<noteq> 0 \<longrightarrow> arena_alloc s' a n = Inr (0, s'))"
proof -
  let ?s' = "s\<lparr>mem := mem_zero (unat a) (unat new - unat old)
      (put64 (unat a) (previous_position (arena_at s a) + new) (mem s))\<rparr>"
  have "old < new" using assms(4) by (simp add: word_less_nat_alt)
  then have run: "arena_resize s a p new old = Inr (p, ?s')"
    using arena_resize_grow_last [OF assms(1-3) _ assms(5)] by simp
  have at: "arena_at ?s' a =
      \<lparr>current_position = 0, previous_position = 0, capacity = 0, base_position = 0\<rparr>"
    using assms(4) by (simp add: arena_at_def mem_simps)
  have acc: "accessible s (unat a) 8" "accessible s (unat a + 16) 8"
    by (rule arena_accessible [OF assms(1)]; simp)+
  have "load64 ?s' (a + off_current_position) = Inr 0" "load64 ?s' (a + off_capacity) = Inr 0"
    using at acc unat_header [OF assms(1)] by (simp_all add: load64_def arena_at_def)
  then have "arena_alloc ?s' a n = Inr (0, ?s')" if "n \<noteq> 0" for n
    using that assms(1) by (simp add: arena_alloc_def Let_def word_gt_0)
  then show ?thesis using run at by blast
qed

text \<open>A demo arena with one block of 16 bytes allocated.\<close>

lemma demo_block:
  "\<exists>s. arena_ok s 4096 \<and> last_block s 4096 4128 \<and> os_ok s \<and> regions s = [(4096, 96)] \<and> arena_at s 4096 =
     \<lparr>current_position = 16, previous_position = 0, capacity = 64, base_position = 4128\<rparr>"
proof -
  obtain s where s: "arena_ok s 4096" "os_ok s" "regions s = [(4096, 96)]" "arena_at s 4096 =
      \<lparr>current_position = 0, previous_position = 0, capacity = 64, base_position = 4128\<rparr>"
    using demo_arena by auto
  have fits: "unat (16 :: u64) \<le> arena_room s 4096" using s by (simp add: arena_room_def)
  have "arena_at (alloc_store s 4096 16) 4096 =
      \<lparr>current_position = 16, previous_position = 0, capacity = 64, base_position = 4128\<rparr>"
    using s(4) by (simp add: arena_at_alloc [OF s(1)])
  then show ?thesis
    using s arena_ok_alloc [OF s(1) fits] by (intro exI [of _ "alloc_store s 4096 16"]) (simp add: last_block_def)
qed

theorem arena_resize_grow_clears_header_witness:
  "\<exists>s s'. arena_ok s 4096 \<and> arena_resize s 4096 4128 48 16 = Inr (4128, s') \<and>
     arena_alloc s' 4096 1 = Inr (0, s')"
proof -
  obtain s where s: "arena_ok s 4096" "last_block s 4096 4128" "arena_at s 4096 =
      \<lparr>current_position = 16, previous_position = 0, capacity = 64, base_position = 4128\<rparr>"
    using demo_block by auto
  then show ?thesis
    using arena_resize_grow_clears_header [OF s(1,2), of 16 48] by (auto dest: spec [of _ 1])
qed

text \<open>Shrinking the last block in place works: \<open>arena_resize\<close> to a size not above the old one
  returns the same block, ends the arena right after it, keeps the header well formed and
  leaves every data byte as it was.\<close>

theorem arena_resize_shrinks:
  assumes "arena_ok s a" and "last_block s a p" and "old \<noteq> 0" and "new \<le> old"
    and "unat (previous_position (arena_at s a)) + unat old \<le> unat (capacity (arena_at s a))"
  shows "\<exists>s'. arena_resize s a p new old = Inr (p, s') \<and> arena_ok s' a \<and>
    arena_top s' a = unat p + unat new \<and>
    (\<forall>x. arena_base s a \<le> x \<longrightarrow> mem s' x = mem s x)"
proof -
  let ?v = "previous_position (arena_at s a) + new"
  let ?s' = "s\<lparr>mem := put64 (unat a) ?v (mem s)\<rparr>"
  have run: "arena_resize s a p new old = Inr (p, ?s')"
    using arena_resize_last [OF assms(1-3)] leD [OF assms(4)] by simp
  have "unat new \<le> unat old" using assms(4) by (simp add: word_le_nat_alt)
  then have v: "unat ?v = unat (previous_position (arena_at s a)) + unat new"
    using assms(5) unat_less_2_64 [of "capacity (arena_at s a)"] by (intro unat_add_nowrap) simp
  then have "?v \<le> capacity (arena_at s a)"
    using assms(5) \<open>unat new \<le> unat old\<close> by (simp add: word_le_nat_alt)
  then have "arena_ok ?s' a" by (rule arena_ok_set_current [OF assms(1)])
  moreover have "arena_top ?s' a = unat p + unat new"
    using v last_block_addr(1) [OF assms(1,2)] by (simp add: arena_top_def arena_at_put(1))
  moreover have "mem ?s' x = mem s x" if "arena_base s a \<le> x" for x
    using that by (simp add: mem_outside_put64 arena_base_def)
  ultimately show ?thesis using run by blast
qed

end
