(* ===== verification/Mem_Stack.thy ===== *)
theory Mem_Stack
  imports Base_Mem
begin

text \<open>
  \<open>base/base_stack.c\<close>: a stack allocator in one mapping, a \<open>struct mem_stack\<close> followed by
  its data. Each block is preceded by a two-byte \<open>struct mem_stack_header\<close> whose first byte
  is the padding that was put before the block; \<open>stack_pop\<close> reads it back.
\<close>

section \<open>Layout\<close>

record mem_stack =
  stack_base :: u64
  current_offset :: u64
  stack_capacity :: u64

definition sizeof_mem_stack :: u64 where "sizeof_mem_stack = 24"
definition sizeof_mem_stack_header :: u64 where "sizeof_mem_stack_header = 2"
definition off_stack_base :: u64 where "off_stack_base = 0"
definition off_current_offset :: u64 where "off_current_offset = 8"
definition off_stack_capacity :: u64 where "off_stack_capacity = 16"

lemmas stack_offsets [layout_simps] =
  sizeof_mem_stack_def sizeof_mem_stack_header_def off_stack_base_def off_current_offset_def
  off_stack_capacity_def

definition stack_at :: "os \<Rightarrow> u64 \<Rightarrow> mem_stack" where
  "stack_at s st = \<lparr>stack_base = get64 (mem s) (unat st),
     current_offset = get64 (mem s) (unat st + 8),
     stack_capacity = get64 (mem s) (unat st + 16)\<rparr>"

section \<open>Operations\<close>

definition stack_create :: "kernel \<Rightarrow> os \<Rightarrow> u64 \<Rightarrow> (u64 \<times> os) run" where
  "stack_create k s cap = (case mmap k s (cap + sizeof_mem_stack) of
     (None, s1) \<Rightarrow> Inr (0, s1)
   | (Some st, s1) \<Rightarrow>
       andthen (store64 s1 (st + off_stack_capacity) cap) (\<lambda>s2.
       andthen (store64 s2 (st + off_stack_base) (st + sizeof_mem_stack)) (\<lambda>s3.
       andthen (store64 s3 (st + off_current_offset) 0) (\<lambda>s4. Inr (st, s4)))))"

definition calculate_padding :: "u64 \<Rightarrow> u64 \<Rightarrow> u64 \<Rightarrow> u64 run" where
  "calculate_padding pointer alignment header_size =
     (if \<not> is_pow alignment then Inr 0
      else
        let modulo = pointer AND (alignment - 1);
            padding = (if 0 = modulo then alignment - modulo else 0)
        in if padding < header_size then
             let header_size = header_size - padding in
             if alignment = 0 then Inl Division_by_zero
             else if header_size AND (alignment - 1) \<noteq> 0
             then Inr (padding + alignment * (1 + header_size div alignment))
             else Inr (padding + alignment * (header_size div alignment))
           else Inr padding)"

definition stack_push_align :: "os \<Rightarrow> u64 \<Rightarrow> u64 \<Rightarrow> u64 \<Rightarrow> (u64 \<times> os) run" where
  "stack_push_align s st sz alignment =
     (if \<not> is_pow alignment then Inr (0, s)
      else
        let alignment = (if alignment > 128 then 128 else alignment) in
        andthen (load64 s (st + off_stack_base)) (\<lambda>base.
        andthen (load64 s (st + off_current_offset)) (\<lambda>off.
        let current_address = base + off in
        andthen (calculate_padding current_address alignment sizeof_mem_stack_header) (\<lambda>padding.
        andthen (load64 s (st + off_stack_capacity)) (\<lambda>cap.
        if off + padding + sz > cap then Inr (0, s)
        else
          andthen (store64 s (st + off_current_offset) (off + padding)) (\<lambda>s1.
          let next_address = current_address + padding in
          andthen (store8 s1 (next_address - sizeof_mem_stack_header) (char_of (unat padding))) (\<lambda>s2.
          andthen (load64 s2 (st + off_current_offset)) (\<lambda>off2.
          andthen (store64 s2 (st + off_current_offset) (off2 + sz)) (\<lambda>s3.
          andthen (MemSet s3 next_address sz) (\<lambda>s4. Inr (next_address, s4)))))))))))"

definition stack_push :: "os \<Rightarrow> u64 \<Rightarrow> u64 \<Rightarrow> (u64 \<times> os) run" where
  "stack_push s st sz = stack_push_align s st sz ARENA_ALIGN"

definition stack_pop :: "os \<Rightarrow> u64 \<Rightarrow> u64 \<Rightarrow> os run" where
  "stack_pop s st pointer =
     (if pointer \<noteq> 0 then
        andthen (load64 s (st + off_stack_base)) (\<lambda>start.
        andthen (load64 s (st + off_stack_capacity)) (\<lambda>cap.
        if \<not> (start \<le> pointer \<and> pointer < start + cap) then Inr s
        else if pointer \<ge> start + start then Inr s
        else
          andthen (load8 s (pointer - sizeof_mem_stack_header)) (\<lambda>padding.
          let prev_offset = pointer - of_char padding - start in
          store64 s (st + off_current_offset) prev_offset)))
      else Inr s)"

definition stack_resize_align ::
  "os \<Rightarrow> u64 \<Rightarrow> u64 \<Rightarrow> u64 \<Rightarrow> u64 \<Rightarrow> u64 \<Rightarrow> (u64 \<times> os) run" where
  "stack_resize_align s st pointer old_size new_size alignment =
     (if pointer = 0 then stack_push_align s st new_size alignment
      else if new_size = 0 then andthen (stack_pop s st pointer) (\<lambda>s1. Inr (0, s1))
      else
        let min_size = (if old_size < new_size then old_size else new_size) in
        andthen (load64 s (st + off_stack_base)) (\<lambda>start.
        andthen (load64 s (st + off_stack_capacity)) (\<lambda>cap.
        if \<not> (start \<le> pointer \<and> pointer < start + cap) then Inr (0, s)
        else
          andthen (load64 s (st + off_current_offset)) (\<lambda>off.
          if pointer \<ge> start + off then Inr (0, s)
          else if old_size = new_size then Inr (pointer, s)
          else
            andthen (stack_push_align s st new_size alignment) (\<lambda>(new_pointer, s1).
            andthen (memmove s1 new_pointer pointer min_size) (\<lambda>s2. Inr (pointer, s2)))))))"

definition stack_pop_all :: "os \<Rightarrow> u64 \<Rightarrow> os run" where
  "stack_pop_all s st = store64 s (st + off_current_offset) 0"

definition stack_destroy :: "os \<Rightarrow> u64 \<Rightarrow> os run" where
  "stack_destroy s st =
     (if st = 0 then Inr s
      else andthen (load64 s (st + off_stack_capacity)) (\<lambda>cap.
             Inr (munmap s st (cap + sizeof_mem_stack))))"

section \<open>Padding\<close>

definition small_pow :: "u64 set" where
  "small_pow = {1, 2, 4, 8, 16, 32, 64, 128}"

lemma is_pow_small:
  assumes "is_pow a" and "a \<noteq> 0" and "a \<le> 128"
  shows "a \<in> small_pow"
proof -
  obtain n where n: "n < 64" "a = 2 ^ n" using is_pow_imp_exp [OF assms(1,2)] by blast
  then have "(2 :: nat) ^ n \<le> 2 ^ 7" using assms(3) unat_exp_u64 [OF n(1)] by (simp add: word_le_nat_alt)
  then have "n \<le> 7" using power_le_imp_le_exp [of "2 :: nat" n 7] by simp
  then have "n \<in> {0, 1, 2, 3, 4, 5, 6, 7}" by auto
  then show ?thesis using n(2) by (auto simp: small_pow_def)
qed

definition block_padding :: "u64 \<Rightarrow> u64" where
  "block_padding alignment = (if alignment = 1 then 2 else if alignment > 128 then 128 else alignment)"

lemma calculate_padding_small:
  "a \<in> small_pow \<Longrightarrow> calculate_padding p a 2 = Inr (if a = 1 then 2 else a)"
  unfolding small_pow_def by (auto simp: calculate_padding_def is_pow_def Let_def)

lemma calculate_padding_header:
  assumes "is_pow a" and "a \<noteq> 0"
  shows "calculate_padding p (if a > 128 then 128 else a) sizeof_mem_stack_header = Inr (block_padding a)"
proof (cases "a > 128")
  case True
  then have "a \<noteq> 1" by auto
  then show ?thesis using True
    by (simp add: sizeof_mem_stack_header_def calculate_padding_small small_pow_def block_padding_def)
next
  case False
  then show ?thesis
    using calculate_padding_small [OF is_pow_small [OF assms]]
    by (simp add: sizeof_mem_stack_header_def block_padding_def)
qed

lemma block_padding_bounds:
  assumes "is_pow a" and "a \<noteq> 0"
  shows "2 \<le> unat (block_padding a)" "unat (block_padding a) \<le> 128"
proof -
  have "a \<in> small_pow \<or> a > 128" using is_pow_small [OF assms] by (auto simp: not_le)
  then show "2 \<le> unat (block_padding a)" "unat (block_padding a) \<le> 128"
    by (auto simp: block_padding_def small_pow_def)
qed

section \<open>Well-formed stacks\<close>

definition stack_ok :: "os \<Rightarrow> u64 \<Rightarrow> bool" where
  "stack_ok s st \<longleftrightarrow>
     st \<noteq> 0 \<and>
     (unat st, unat (stack_capacity (stack_at s st)) + 24) \<in> set (regions s) \<and>
     unat st + 24 + unat (stack_capacity (stack_at s st)) < 18446744073709551616 \<and>
     stack_base (stack_at s st) = st + 24 \<and>
     current_offset (stack_at s st) \<le> stack_capacity (stack_at s st)"

text \<open>Where Linux puts mappings: in the lower half of the address space, and above their own
  size. \<open>stack_pop\<close> compares the pointer with twice the base address.\<close>

definition low_mapping :: "os \<Rightarrow> u64 \<Rightarrow> bool" where
  "low_mapping s st \<longleftrightarrow> unat st + 24 < 9223372036854775808 \<and>
     unat (stack_capacity (stack_at s st)) \<le> unat st + 24"

definition stack_top :: "os \<Rightarrow> u64 \<Rightarrow> nat" where
  "stack_top s st = unat st + 24 + unat (current_offset (stack_at s st))"

definition stack_room :: "os \<Rightarrow> u64 \<Rightarrow> nat" where
  "stack_room s st = unat (stack_capacity (stack_at s st)) - unat (current_offset (stack_at s st))"

lemma stack_off_le:
  "stack_ok s st \<Longrightarrow> unat (current_offset (stack_at s st)) \<le> unat (stack_capacity (stack_at s st))"
  by (simp add: stack_ok_def word_le_nat_alt)

lemma unat_stack:
  assumes "stack_ok s st"
  shows "unat (st + off_stack_base) = unat st" "unat (st + off_current_offset) = unat st + 8"
    "unat (st + off_stack_capacity) = unat st + 16" "unat (st + 24) = unat st + 24"
  using assms by (simp_all add: stack_ok_def layout_simps unat_add_nowrap)

lemma stack_accessible:
  assumes "stack_ok s st" and "unat st \<le> p"
    and "p + n \<le> unat st + 24 + unat (stack_capacity (stack_at s st))"
  shows "accessible s p n"
  using assms by (auto simp: stack_ok_def intro!: accessible_region)

lemma stack_load:
  assumes "stack_ok s st"
  shows "load64 s (st + off_stack_base) = Inr (stack_base (stack_at s st))"
    "load64 s (st + off_current_offset) = Inr (current_offset (stack_at s st))"
    "load64 s (st + off_stack_capacity) = Inr (stack_capacity (stack_at s st))"
  using assms stack_accessible [OF assms]
  by (simp_all add: load64_def unat_stack stack_at_def)

lemma stack_store:
  assumes "stack_ok s st"
  shows "store64 s (st + off_current_offset) v = Inr (s\<lparr>mem := put64 (unat st + 8) v (mem s)\<rparr>)"
  using assms stack_accessible [OF assms] by (simp add: store64_def unat_stack)

lemma stack_at_put [mem_simps]:
  "stack_at (s\<lparr>mem := put64 (unat st + 8) v m\<rparr>) st = (stack_at (s\<lparr>mem := m\<rparr>) st)\<lparr>current_offset := v\<rparr>"
  by (simp add: stack_at_def mem_simps apart_def)

lemma stack_at_write_apart [mem_simps]:
  "apart (unat st) 24 p (length bs) \<Longrightarrow>
     stack_at (s\<lparr>mem := mem_write p bs m\<rparr>) st = stack_at (s\<lparr>mem := m\<rparr>) st"
  by (auto simp: stack_at_def mem_simps apart_def)

lemma stack_at_zero_apart [mem_simps]:
  "apart (unat st) 24 p n \<Longrightarrow>
     stack_at (s\<lparr>mem := mem_zero p n m\<rparr>) st = stack_at (s\<lparr>mem := m\<rparr>) st"
  by (auto simp: stack_at_def mem_simps apart_def)

lemma stack_at_self [simp]: "stack_at (s\<lparr>mem := mem s\<rparr>) st = stack_at s st"
  by (simp add: stack_at_def)

lemma stack_ok_mem:
  "stack_ok s st \<Longrightarrow> stack_at (s\<lparr>mem := m\<rparr>) st = (stack_at s st)\<lparr>current_offset := v\<rparr> \<Longrightarrow>
   v \<le> stack_capacity (stack_at s st) \<Longrightarrow> stack_ok (s\<lparr>mem := m\<rparr>) st"
  by (simp add: stack_ok_def)

section \<open>Pushing\<close>

definition push_store :: "os \<Rightarrow> u64 \<Rightarrow> u64 \<Rightarrow> u64 \<Rightarrow> os" where
  "push_store s st pad n = s\<lparr>mem := mem_zero (stack_top s st + unat pad) (unat n)
     (put64 (unat st + 8) (current_offset (stack_at s st) + pad + n)
       (mem_write (stack_top s st + unat pad - 2) [char_of (unat pad)]
         (put64 (unat st + 8) (current_offset (stack_at s st) + pad) (mem s))))\<rparr>"

definition block_at :: "os \<Rightarrow> u64 \<Rightarrow> u64 \<Rightarrow> u64" where
  "block_at s st pad = st + 24 + current_offset (stack_at s st) + pad"

lemma stack_sums:
  assumes ok: "stack_ok s st" and fits: "unat pad + unat n \<le> stack_room s st"
  shows "unat (current_offset (stack_at s st) + pad) = unat (current_offset (stack_at s st)) + unat pad"
    "unat (current_offset (stack_at s st) + pad + n) = unat (current_offset (stack_at s st)) + unat pad + unat n"
    "unat (block_at s st pad) = stack_top s st + unat pad"
    "unat (st + 24 + current_offset (stack_at s st)) = stack_top s st"
proof -
  let ?S = "stack_at s st"
  have le: "unat (current_offset ?S) + unat pad + unat n \<le> unat (stack_capacity ?S)"
    using fits stack_off_le [OF ok] by (simp add: stack_room_def)
  have top: "unat st + 24 + unat (stack_capacity ?S) < 18446744073709551616"
    using ok by (simp add: stack_ok_def)
  show 1: "unat (current_offset ?S + pad) = unat (current_offset ?S) + unat pad"
    using le unat_less_2_64 [of "stack_capacity ?S"] by (intro unat_add_nowrap) simp
  show "unat (current_offset ?S + pad + n) = unat (current_offset ?S) + unat pad + unat n"
    using le 1 unat_less_2_64 [of "stack_capacity ?S"] by (subst unat_add_nowrap) simp_all
  show 2: "unat (st + 24 + current_offset ?S) = stack_top s st"
    using le top unat_stack(4) [OF ok] by (subst unat_add_nowrap) (simp_all add: stack_top_def)
  show "unat (block_at s st pad) = stack_top s st + unat pad"
    unfolding block_at_def using le top 2 by (subst unat_add_nowrap) (simp_all add: stack_top_def)
qed

lemma stack_at_push:
  assumes "stack_ok s st" and "2 \<le> unat pad"
  shows "stack_at (push_store s st pad n) st =
    (stack_at s st)\<lparr>current_offset := current_offset (stack_at s st) + pad + n\<rparr>"
  using assms(2) by (simp add: push_store_def mem_simps apart_def stack_top_def)

lemma stack_ok_push:
  assumes "stack_ok s st" and "2 \<le> unat pad" and "unat pad + unat n \<le> stack_room s st"
  shows "stack_ok (push_store s st pad n) st"
proof -
  have "current_offset (stack_at s st) + pad + n \<le> stack_capacity (stack_at s st)"
    using stack_sums(2) [OF assms(1,3)] assms(3) stack_off_le [OF assms(1)]
    by (simp add: word_le_nat_alt stack_room_def)
  then show ?thesis
    using assms(1) stack_at_push [OF assms(1,2), of n] unfolding push_store_def
    by (intro stack_ok_mem)
qed

lemma stack_push_align_fits:
  assumes ok: "stack_ok s st" and al: "is_pow al" "al \<noteq> 0"
    and fits: "unat (block_padding al) + unat n \<le> stack_room s st"
  shows "stack_push_align s st n al =
    Inr (block_at s st (block_padding al), push_store s st (block_padding al) n)"
proof -
  let ?S = "stack_at s st" and ?pad = "block_padding al"
  let ?s1 = "s\<lparr>mem := put64 (unat st + 8) (current_offset ?S + ?pad) (mem s)\<rparr>"
  let ?s2 = "s\<lparr>mem := mem_write (stack_top s st + unat ?pad - 2) [char_of (unat ?pad)] (mem ?s1)\<rparr>"
  let ?s3 = "s\<lparr>mem := put64 (unat st + 8) (current_offset ?S + ?pad + n) (mem ?s2)\<rparr>"
  note pad = block_padding_bounds [OF al] and sums = stack_sums [OF ok fits]
  have cap: "stack_top s st + unat ?pad + unat n \<le> unat st + 24 + unat (stack_capacity ?S)"
    using fits stack_off_le [OF ok] by (simp add: stack_room_def stack_top_def)
  have off1: "current_offset ?S + ?pad \<le> stack_capacity ?S"
    using sums(1) cap by (simp add: word_le_nat_alt stack_top_def)
  have nofull: "\<not> stack_capacity ?S < current_offset ?S + ?pad + n"
    using sums(2) cap by (simp add: word_less_nat_alt stack_top_def)
  have base: "stack_base ?S = st + 24" using ok by (simp add: stack_ok_def)
  have at2: "stack_at ?s2 st = ?S\<lparr>current_offset := current_offset ?S + ?pad\<rparr>"
    using pad(1) by (simp add: mem_simps apart_def stack_top_def)
  have ok2: "stack_ok ?s2 st" using ok at2 off1 by (rule stack_ok_mem)
  have hdr: "unat (block_at s st ?pad - 2) = stack_top s st + unat ?pad - 2"
    using sums(3) pad(1) by (subst unat_sub_u64) (simp_all add: word_le_nat_alt)
  have "accessible s (stack_top s st + unat ?pad - 2) 1"
    using pad(1) cap by (intro stack_accessible [OF ok]) (simp_all add: stack_top_def)
  then have st8: "store8 ?s1 (block_at s st ?pad - sizeof_mem_stack_header) (char_of (unat ?pad)) = Inr ?s2"
    by (simp add: store8_def sizeof_mem_stack_header_def hdr)
  have ms: "MemSet ?s3 (block_at s st ?pad) n = Inr (push_store s st ?pad n)"
    using stack_accessible [OF ok, of "stack_top s st + unat ?pad" "unat n"] cap
    by (simp add: MemSet_def sums(3) push_store_def stack_top_def)
  have addr: "st + 24 + current_offset ?S + ?pad = block_at s st ?pad" by (simp add: block_at_def)
  show ?thesis
    using al(1) st8 ms nofull at2 stack_load [OF ok2] stack_store [OF ok2]
    by (simp add: stack_push_align_def Let_def stack_load [OF ok] stack_store [OF ok]
        calculate_padding_header [OF al] base addr)
qed

lemma stack_push_align_full:
  assumes "stack_ok s st" and "is_pow al" "al \<noteq> 0"
    and "stack_room s st < unat (block_padding al) + unat n"
    and "unat (current_offset (stack_at s st)) + unat (block_padding al) + unat n < 18446744073709551616"
  shows "stack_push_align s st n al = Inr (0, s)"
proof -
  let ?S = "stack_at s st" and ?pad = "block_padding al"
  have "unat (current_offset ?S + ?pad + n) = unat (current_offset ?S) + unat ?pad + unat n"
    using assms(5) by (simp add: unat_add_nowrap)
  then have "stack_capacity ?S < current_offset ?S + ?pad + n"
    using assms(4) by (simp add: word_less_nat_alt stack_room_def)
  then show ?thesis using assms(2)
    by (simp add: stack_push_align_def Let_def stack_load [OF assms(1)]
        calculate_padding_header [OF assms(2,3)])
qed

section \<open>Popping\<close>

lemma u64_of_char: "(of_char c :: u64) = of_nat (of_char c)"
  by (simp add: of_nat_of_char)

lemma of_char_of_nat_u64: "n < 256 \<Longrightarrow> (of_char (char_of (n :: nat)) :: u64) = of_nat n"
  by (simp only: u64_of_char of_char_of) simp

text \<open>A pointer into the data area: whatever the current offset is, popping it makes the offset
  the distance to the start of its padding.\<close>

lemma stack_pop_run:
  assumes ok: "stack_ok s st" and low: "low_mapping s st"
    and p: "unat st + 26 \<le> unat p" "unat p < unat st + 24 + unat (stack_capacity (stack_at s st))"
  shows "stack_pop s st p = Inr (s\<lparr>mem := put64 (unat st + 8)
    (p - of_char (mem s (unat p - 2)) - (st + 24)) (mem s)\<rparr>)"
proof -
  let ?S = "stack_at s st"
  have base: "stack_base ?S = st + 24" using ok by (simp add: stack_ok_def)
  have u: "unat (st + 24) = unat st + 24" by (rule unat_stack(4) [OF ok])
  have top: "unat (st + 24 + stack_capacity ?S) = unat st + 24 + unat (stack_capacity ?S)"
    using ok u by (subst unat_add_nowrap) (simp_all add: stack_ok_def)
  have dbl: "unat (st + 24 + (st + 24)) = 2 * (unat st + 24)"
    using low u by (subst unat_add_nowrap) (simp_all add: low_mapping_def)
  have "st + 24 \<le> p" "p < st + 24 + stack_capacity ?S" "\<not> st + 24 + (st + 24) \<le> p"
    using p low u top dbl by (simp_all add: word_le_nat_alt word_less_nat_alt low_mapping_def)
  moreover have "p \<noteq> 0" using p(1) by auto
  moreover have "unat (p - 2) = unat p - 2"
    using p(1) by (subst unat_sub_u64) (simp_all add: word_le_nat_alt)
  then have "load8 s (p - sizeof_mem_stack_header) = Inr (mem s (unat p - 2))"
    using stack_accessible [OF ok, of "unat p - 2" 1] p
    by (simp add: load8_def sizeof_mem_stack_header_def)
  ultimately show ?thesis
    by (simp add: stack_pop_def stack_load [OF ok] stack_store [OF ok] base)
qed

lemma stack_pop_block:
  assumes ok: "stack_ok s st" and low: "low_mapping s st"
    and pad: "2 \<le> unat pad" "unat pad \<le> 128"
    and at: "stack_at s' st = (stack_at s st)\<lparr>current_offset := v\<rparr>" and ok': "stack_ok s' st"
    and in_range: "stack_top s st + unat pad < unat st + 24 + unat (stack_capacity (stack_at s st))"
    and hdr: "mem s' (stack_top s st + unat pad - 2) = char_of (unat pad)"
  shows "stack_pop s' st (block_at s st pad) =
    Inr (s'\<lparr>mem := put64 (unat st + 8) (current_offset (stack_at s st)) (mem s')\<rparr>)"
proof -
  have "unat pad + unat (0 :: u64) \<le> stack_room s st"
    using in_range by (simp add: stack_room_def stack_top_def)
  then have b: "unat (block_at s st pad) = stack_top s st + unat pad"
    by (rule stack_sums(3) [OF ok])
  have low': "low_mapping s' st" using low at by (simp add: low_mapping_def)
  have "block_at s st pad - of_nat (unat pad) - (st + 24) = current_offset (stack_at s st)"
    by (simp add: block_at_def)
  moreover have "(of_char (char_of (unat pad)) :: u64) = of_nat (unat pad)"
    using pad(2) by (intro of_char_of_nat_u64) simp
  ultimately show ?thesis
    using stack_pop_run [OF ok' low', of "block_at s st pad"] b pad(1) in_range hdr at
    by (simp add: stack_top_def)
qed

lemma push_store_header:
  assumes "2 \<le> unat pad"
  shows "mem (push_store s st pad n) (stack_top s st + unat pad - 2) = char_of (unat pad)"
  using assms by (simp add: push_store_def mem_zero_def put64_def mem_write_def stack_top_def)

lemma push_store_frame:
  assumes "2 \<le> unat pad" and "unat st + 24 \<le> x" and "x < stack_top s st"
  shows "mem (push_store s st pad n) x = mem s x"
  using assms by (simp add: push_store_def mem_zero_def put64_def mem_write_def stack_top_def)

section \<open>Last in, first out\<close>

fun push_all :: "os \<Rightarrow> u64 \<Rightarrow> (u64 \<times> u64) list \<Rightarrow> (u64 list \<times> os) run" where
  "push_all s st [] = Inr ([], s)"
| "push_all s st ((n, al) # rs) =
     andthen (stack_push_align s st n al) (\<lambda>(p, s1).
     andthen (push_all s1 st rs) (\<lambda>(ps, s2). Inr (p # ps, s2)))"

fun pop_each :: "os \<Rightarrow> u64 \<Rightarrow> u64 list \<Rightarrow> os run" where
  "pop_each s st [] = Inr s"
| "pop_each s st (p # ps) = andthen (stack_pop s st p) (\<lambda>s1. pop_each s1 st ps)"

lemma pop_each_append: "pop_each s st (ps @ qs) = andthen (pop_each s st ps) (\<lambda>s1. pop_each s1 st qs)"
  by (induction ps arbitrary: s) (auto simp: andthen_assoc)

definition requests_ok :: "(u64 \<times> u64) list \<Rightarrow> bool" where
  "requests_ok rs \<longleftrightarrow> list_all (\<lambda>(n, al). is_pow al \<and> al \<noteq> 0) rs"

definition requests_size :: "(u64 \<times> u64) list \<Rightarrow> nat" where
  "requests_size rs = sum_list (map (\<lambda>(n, al). unat (block_padding al) + unat n) rs)"

lemma push_all_pop_each:
  assumes "stack_ok s st" and "low_mapping s st" and "requests_ok rs"
    and "requests_size rs < stack_room s st"
  shows "\<exists>ps s1 s2. push_all s st rs = Inr (ps, s1) \<and> pop_each s1 st (rev ps) = Inr s2 \<and>
    stack_ok s2 st \<and> stack_at s2 st = stack_at s st \<and>
    (\<forall>x. unat st + 24 \<le> x \<and> x < stack_top s st \<longrightarrow> mem s2 x = mem s x)"
  using assms
proof (induction rs arbitrary: s)
  case (Cons r rs)
  obtain n al where r: "r = (n, al)" by (cases r)
  have al: "is_pow al" "al \<noteq> 0" using Cons.prems(3) r by (simp_all add: requests_ok_def)
  let ?pad = "block_padding al" and ?S = "stack_at s st"
  let ?t = "push_store s st ?pad n"
  note pad = block_padding_bounds [OF al] and ok = Cons.prems(1)
  have fits: "unat ?pad + unat n \<le> stack_room s st" and rest: "unat ?pad + unat n + requests_size rs < stack_room s st"
    using Cons.prems(4) r by (simp_all add: requests_size_def)
  note push = stack_push_align_fits [OF ok al fits] and sums = stack_sums [OF ok fits]
  have okt: "stack_ok ?t st" by (rule stack_ok_push [OF ok pad(1) fits])
  note att = stack_at_push [OF ok pad(1), of n]
  have top: "stack_top ?t st = stack_top s st + unat ?pad + unat n"
    by (simp add: stack_top_def att sums(2))
  have "stack_room ?t st = stack_room s st - (unat ?pad + unat n)"
    by (simp add: stack_room_def att sums(2))
  then have roomt: "requests_size rs < stack_room ?t st" using rest by simp
  have lowt: "low_mapping ?t st" using Cons.prems(2) by (simp add: low_mapping_def att)
  have rst: "requests_ok rs" using Cons.prems(3) by (simp add: requests_ok_def)
  obtain ps s1 s2 where IH: "push_all ?t st rs = Inr (ps, s1)" "pop_each s1 st (rev ps) = Inr s2"
      "stack_ok s2 st" "stack_at s2 st = stack_at ?t st"
      "\<forall>x. unat st + 24 \<le> x \<and> x < stack_top ?t st \<longrightarrow> mem s2 x = mem ?t x"
    using Cons.IH [OF okt lowt rst roomt] by blast
  have "unat st + 24 \<le> stack_top s st" by (simp add: stack_top_def)
  then have "unat st + 24 \<le> stack_top s st + unat ?pad - 2"
      "stack_top s st + unat ?pad - 2 < stack_top ?t st"
    using top pad(1) by linarith+
  then have hdr: "mem s2 (stack_top s st + unat ?pad - 2) = char_of (unat ?pad)"
    using IH(5) push_store_header [OF pad(1), of s st n] by simp
  let ?s3 = "s2\<lparr>mem := put64 (unat st + 8) (current_offset ?S) (mem s2)\<rparr>"
  have at3: "stack_at ?s3 st = ?S" using IH(4) att by (simp add: stack_at_put)
  have "stack_top s st + unat ?pad < unat st + 24 + unat (stack_capacity ?S)"
    using rest by (simp add: stack_top_def stack_room_def)
  then have "stack_pop s2 st (block_at s st ?pad) = Inr ?s3"
    using stack_pop_block [OF ok Cons.prems(2) pad _ IH(3) _ hdr] IH(4) att by simp
  then have run: "push_all s st (r # rs) = Inr (block_at s st ?pad # ps, s1)"
      "pop_each s1 st (rev (block_at s st ?pad # ps)) = Inr ?s3"
    using push IH(1,2) r by (simp_all add: pop_each_append)
  have "current_offset ?S \<le> stack_capacity (stack_at s2 st)"
    using ok IH(4) att by (simp add: stack_ok_def)
  then have "stack_ok ?s3 st" by (intro stack_ok_mem [OF IH(3)]) (simp_all add: stack_at_put)
  moreover have "mem ?s3 x = mem s x" if "unat st + 24 \<le> x" "x < stack_top s st" for x
    using that IH(5) top push_store_frame [OF pad(1) that, of n] by (simp add: mem_outside_put64)
  ultimately show ?case using run at3 by blast
qed (auto simp: requests_size_def)

section \<open>Properties\<close>

text \<open>The padding \<open>calculate_padding\<close> returns for a block header does not depend on the
  pointer: it is 2 for alignment 1 and the alignment itself otherwise. The address of a
  pushed block is therefore aligned exactly when the old top of the stack was.\<close>

theorem padding_ignores_pointer:
  assumes "is_pow a" and "a \<noteq> 0" and "a \<le> 128"
  shows "calculate_padding p a sizeof_mem_stack_header = Inr (if a = 1 then 2 else a) \<and>
    (a \<noteq> 1 \<longrightarrow> (p + a) AND (a - 1) = p AND (a - 1))"
proof -
  have a: "a \<in> small_pow" by (rule is_pow_small [OF assms])
  have "(p + a) AND (a - 1) = p AND (a - 1)"
  proof -
    obtain n where n: "n < 64" "a = 2 ^ n" using is_pow_imp_exp [OF assms(1,2)] by blast
    have "(p + a) AND (a - 1) = take_bit n (p + 2 ^ n)" and "p AND (a - 1) = take_bit n p"
      by (simp_all add: n(2) take_bit_eq_mask mask_eq_exp_minus_1)
    moreover have "take_bit n (p + 2 ^ n) = take_bit n p" by (rule take_bit_add_exp [OF n(1)])
    ultimately show ?thesis by simp
  qed
  then show ?thesis using calculate_padding_small [OF a] by (simp add: sizeof_mem_stack_header_def)
qed

text \<open>C17: Blocks pushed on a stack and popped in the reverse order give the stack back as it
  was: the offset returns to its old value and the data below it is unchanged. This holds for
  every sequence of sizes and power-of-two alignments that fits.\<close>

theorem stack_lifo_restores:
  assumes "stack_ok s st" and "low_mapping s st" and "requests_ok rs"
    and "requests_size rs < stack_room s st"
  shows "\<exists>ps s1 s2. push_all s st rs = Inr (ps, s1) \<and> pop_each s1 st (rev ps) = Inr s2 \<and>
    stack_at s2 st = stack_at s st \<and>
    (\<forall>x. unat st + 24 \<le> x \<and> x < stack_top s st \<longrightarrow> mem s2 x = mem s x)"
  using push_all_pop_each [OF assms] by blast

lemma stack_create_run:
  assumes "kernel_ok k" and "k s (cap + 24) = Some st" and "unat cap + 24 < 18446744073709551616"
  shows "\<exists>s'. stack_create k s cap = Inr (st, s') \<and> stack_ok s' st \<and>
    regions s' = (unat st, unat cap + 24) # regions s \<and>
    stack_at s' st = \<lparr>stack_base = st + 24, current_offset = 0, stack_capacity = cap\<rparr>"
proof -
  have u: "unat (cap + 24) = unat cap + 24" using assms(3) by (simp add: unat_add_nowrap)
  have a: "st \<noteq> 0" "unat st + (unat cap + 24) < 18446744073709551616"
    using kernel_okD [OF assms(1,2)] u by auto
  have off: "unat (st + off_stack_base) = unat st" "unat (st + off_current_offset) = unat st + 8"
      "unat (st + off_stack_capacity) = unat st + 16"
    using a by (simp_all add: layout_simps unat_add_nowrap)
  define s1 where "s1 = s\<lparr>mem := mem_zero (unat st) (unat cap + 24) (mem s),
                           regions := (unat st, unat cap + 24) # regions s\<rparr>"
  define s' where "s' = s1\<lparr>mem := put64 (unat st + 8) 0
      (put64 (unat st) (st + 24) (put64 (unat st + 16) cap (mem s1)))\<rparr>"
  have acc: "accessible s1 (unat st) 8" "accessible s1 (unat st + 8) 8" "accessible s1 (unat st + 16) 8"
    by (simp_all add: s1_def accessible_def)
  have "stack_create k s cap = Inr (st, s')"
    using assms(2) u acc off
    by (simp add: stack_create_def sizeof_mem_stack_def mmap_def flip: s1_def)
      (simp add: store64_def s'_def)
  moreover have "stack_at s' st = \<lparr>stack_base = st + 24, current_offset = 0, stack_capacity = cap\<rparr>"
    by (simp add: stack_at_def s'_def mem_simps apart_def)
  moreover have "regions s' = (unat st, unat cap + 24) # regions s" by (simp add: s'_def s1_def)
  ultimately show ?thesis using a by (auto simp: stack_ok_def)
qed

lemma demo_stack:
  "\<exists>s. stack_create page_kernel empty_os 256 = Inr (4096, s) \<and> stack_ok s 4096 \<and> low_mapping s 4096 \<and>
     stack_at s 4096 = \<lparr>stack_base = 4120, current_offset = 0, stack_capacity = 256\<rparr>"
proof -
  have "page_kernel empty_os (256 + 24) = Some 4096" by (rule page_kernel_empty) simp_all
  from stack_create_run [OF page_kernel_ok this] show ?thesis by (auto simp: low_mapping_def)
qed

theorem stack_lifo_restores_witness:
  "\<exists>s ps s1 s2. stack_create page_kernel empty_os 256 = Inr (4096, s) \<and>
     push_all s 4096 [(24, 16), (5, 1), (64, 8)] = Inr (ps, s1) \<and>
     pop_each s1 4096 (rev ps) = Inr s2 \<and> current_offset (stack_at s2 4096) = 0"
proof -
  obtain s where s: "stack_create page_kernel empty_os 256 = Inr (4096, s)" "stack_ok s 4096"
      "low_mapping s 4096"
      "stack_at s 4096 = \<lparr>stack_base = 4120, current_offset = 0, stack_capacity = 256\<rparr>"
    using demo_stack by auto
  have "requests_ok [(24, 16), (5, 1), (64, 8)]" by (simp add: requests_ok_def is_pow_def)
  moreover have "requests_size [(24, 16), (5, 1), (64, 8)] < stack_room s 4096"
    using s(4) by (simp add: requests_size_def block_padding_def stack_room_def)
  ultimately show ?thesis using stack_lifo_restores [OF s(2,3)] s(1,4) by fastforce
qed

text \<open>\<open>stack_pop\<close> does not compare the pointer with the top of the stack (it compares it with
  twice the base address), so popping a pointer beyond the top raises the offset instead of
  being refused.\<close>

theorem stack_pop_stale_raises:
  assumes "stack_ok s st" and "low_mapping s st" and "stack_top s st + 256 \<le> unat p"
    and "unat p < unat st + 24 + unat (stack_capacity (stack_at s st))"
  shows "\<exists>s'. stack_pop s st p = Inr s' \<and>
    current_offset (stack_at s' st) > current_offset (stack_at s st)"
proof -
  define c where "c = (of_char (mem s (unat p - 2)) :: nat)"
  let ?v = "p - of_char (mem s (unat p - 2)) - (st + 24)"
  have p26: "unat st + 26 \<le> unat p" using assms(3) by (simp add: stack_top_def)
  have c: "c < 256" unfolding c_def by (rule nat_of_char_less_256)
  have uc: "(of_char (mem s (unat p - 2)) :: u64) = of_nat c" unfolding c_def by (rule u64_of_char)
  have "unat (of_nat c :: u64) = c" using c by (intro unat_of_nat_u64) simp
  then have "unat (p - of_nat c) = unat p - c"
    using c assms(3) by (subst unat_sub_u64) (simp_all add: word_le_nat_alt stack_top_def)
  then have "unat ?v = unat p - c - (unat st + 24)"
    using uc unat_stack(4) [OF assms(1)] c assms(3)
    by (subst unat_sub_u64) (simp_all add: word_le_nat_alt stack_top_def)
  then have "current_offset (stack_at s st) < ?v"
    using c assms(3) by (simp add: word_less_nat_alt stack_top_def)
  then show ?thesis
    using stack_pop_run [OF assms(1,2) p26 assms(4)] by (simp add: stack_at_put)
qed

text \<open>C37: \<open>stack_resize_align\<close> on a live block pushes a new block, copies the smaller of the two
  sizes into it, and then returns the old pointer: the caller never learns the address of the
  copy.\<close>

theorem stack_resize_returns_old:
  assumes ok: "stack_ok s st" and al: "is_pow al" "al \<noteq> 0"
    and fits: "unat (block_padding al) + unat new \<le> stack_room s st"
    and p: "unat st + 24 \<le> unat p" "unat p + min (unat old) (unat new) \<le> stack_top s st"
    and live: "unat p < stack_top s st" and sizes: "new \<noteq> 0" "old \<noteq> new"
  shows "\<exists>s'. stack_resize_align s st p old new al = Inr (p, s') \<and>
    stack_top s' st = stack_top s st + unat (block_padding al) + unat new \<and>
    mem_read (mem s') (stack_top s st + unat (block_padding al)) (min (unat old) (unat new)) =
      mem_read (mem s) (unat p) (min (unat old) (unat new))"
proof -
  let ?S = "stack_at s st" and ?pad = "block_padding al" and ?k = "min (unat old) (unat new)"
  let ?t = "push_store s st ?pad new" and ?q = "block_at s st ?pad"
  note pad = block_padding_bounds [OF al] and sums = stack_sums [OF ok fits]
  have okt: "stack_ok ?t st" by (rule stack_ok_push [OF ok pad(1) fits])
  note att = stack_at_push [OF ok pad(1), of new]
  have base: "stack_base ?S = st + 24" and u: "unat (st + 24) = unat st + 24"
    using ok unat_stack(4) [OF ok] by (simp_all add: stack_ok_def)
  have cap: "stack_top s st + unat ?pad + unat new \<le> unat st + 24 + unat (stack_capacity ?S)"
    using fits stack_off_le [OF ok] by (simp add: stack_top_def stack_room_def)
  have top: "unat (st + 24 + stack_capacity ?S) = unat st + 24 + unat (stack_capacity ?S)"
    using ok u by (subst unat_add_nowrap) (simp_all add: stack_ok_def)
  have rng: "st + 24 \<le> p" "p < st + 24 + stack_capacity ?S" "\<not> st + 24 + current_offset ?S \<le> p" "p \<noteq> 0"
    using p live cap u top sums(4) by (auto simp: word_le_nat_alt word_less_nat_alt)
  have k: "unat (if old < new then old else new) = ?k" by (simp add: word_less_nat_alt min_def)
  have "accessible ?t (unat p) ?k" "accessible ?t (unat ?q) ?k"
    using p cap sums(3) by (auto intro!: stack_accessible [OF okt] simp: att stack_top_def)
  then have mv: "memmove ?t ?q p (if old < new then old else new) =
      Inr (?t\<lparr>mem := mem_write (unat ?q) (mem_read (mem ?t) (unat p) ?k) (mem ?t)\<rparr>)" (is "_ = Inr ?s'")
    by (simp add: memmove_def load_bytes_def memcpy_def k)
  have run: "stack_resize_align s st p old new al = Inr (p, ?s')"
    using rng sizes stack_push_align_fits [OF ok al fits] mv
    by (simp add: stack_resize_align_def stack_load [OF ok] base Let_def)
  have "stack_at ?s' st = stack_at ?t st"
    using sums(3) by (simp add: mem_simps apart_def stack_top_def)
  then have "stack_top ?s' st = stack_top s st + unat ?pad + unat new"
    by (simp add: stack_top_def att sums(2))
  moreover have "mem_read (mem ?t) (unat p) ?k = mem_read (mem s) (unat p) ?k"
    using p by (intro mem_read_cong push_store_frame [OF pad(1)]) simp_all
  ultimately show ?thesis using run sums(3) by (auto simp: mem_simps)
qed

theorem stack_resize_returns_old_witness:
  "\<exists>s s1 s'. stack_create page_kernel empty_os 256 = Inr (4096, s) \<and> stack_push s 4096 16 = Inr (4136, s1) \<and>
     stack_resize_align s1 4096 4136 16 32 16 = Inr (4136, s') \<and> stack_top s' 4096 = 4200"
proof -
  obtain s where s: "stack_create page_kernel empty_os 256 = Inr (4096, s)" "stack_ok s 4096"
      "stack_at s 4096 = \<lparr>stack_base = 4120, current_offset = 0, stack_capacity = 256\<rparr>"
    using demo_stack by auto
  let ?t = "push_store s 4096 16 16"
  have al: "is_pow 16" "(16 :: u64) \<noteq> 0" by (simp_all add: is_pow_def)
  have f1: "unat (block_padding 16) + unat (16 :: u64) \<le> stack_room s 4096"
    using s(3) by (simp add: block_padding_def stack_room_def)
  have run: "stack_push s 4096 16 = Inr (4136, ?t)"
    using stack_push_align_fits [OF s(2) al f1] s(3)
    by (simp add: stack_push_def ARENA_ALIGN_def block_padding_def block_at_def)
  have "stack_ok ?t 4096" using stack_ok_push [OF s(2) _ f1] by (simp add: block_padding_def)
  moreover have at: "stack_at ?t 4096 = \<lparr>stack_base = 4120, current_offset = 32, stack_capacity = 256\<rparr>"
    using stack_at_push [OF s(2), of 16 16] s(3) by simp
  ultimately show ?thesis
    using stack_resize_returns_old [of ?t 4096 16 32 4136 16] al run s(1)
    by (auto simp: block_padding_def stack_room_def stack_top_def)
qed

end
