(* ===== verification/Libc.thy ===== *)
theory Libc
  imports Prelude
begin

text \<open>
  What the sources use of the C library's strings, formatted input and output. A C string is
  the list of its characters without the terminator; a file is the list of its bytes. A pointer
  into a string is the suffix that starts there.
\<close>

section \<open>Strings\<close>

definition c_str :: "char list \<Rightarrow> string" where
  "c_str bs = takeWhile (\<lambda>c. c \<noteq> NUL) bs"

fun strchr :: "string \<Rightarrow> char \<Rightarrow> string option" where
  "strchr [] c = None"
| "strchr (x # xs) c = (if x = c then Some (x # xs) else strchr xs c)"

definition strcspn :: "string \<Rightarrow> char list \<Rightarrow> nat" where
  "strcspn s reject = length (takeWhile (\<lambda>c. c \<notin> set reject) s)"

text \<open>\<open>!strncmp(s, t, n)\<close>.\<close>

definition strn_eq :: "string \<Rightarrow> string \<Rightarrow> nat \<Rightarrow> bool" where
  "strn_eq s t n \<longleftrightarrow> take n s = take n t"

definition is_digit :: "char \<Rightarrow> bool" where
  "is_digit c \<longleftrightarrow> 48 \<le> (of_char c :: nat) \<and> (of_char c :: nat) \<le> 57"

definition digit_value :: "char \<Rightarrow> nat" where
  "digit_value c = of_char c - 48"

definition digits_value :: "string \<Rightarrow> nat" where
  "digits_value ds = foldl (\<lambda>v c. v * 10 + digit_value c) 0 ds"

definition c_isspace :: "char \<Rightarrow> bool" where
  "c_isspace c \<longleftrightarrow> c = CHR '' '' \<or> (9 \<le> (of_char c :: nat) \<and> (of_char c :: nat) \<le> 13)"

lemma c_isspace_chars [simp]: "c_isspace NL" "c_isspace TAB" "c_isspace (CHR '' '')" "\<not> c_isspace NUL"
  by (simp_all add: c_isspace_def)

lemma strchr_Some:
  "strchr s c = Some t \<Longrightarrow> \<exists>u. s = u @ t \<and> c \<notin> set u \<and> t \<noteq> [] \<and> hd t = c"
proof (induction s)
  case (Cons x xs)
  show ?case
  proof (cases "x = c")
    case False
    then obtain u where "xs = u @ t" "c \<notin> set u" "t \<noteq> []" "hd t = c" using Cons by auto
    then show ?thesis using False by (intro exI [of _ "x # u"]) auto
  qed (use Cons.prems in auto)
qed simp

lemma strchr_append: "c \<notin> set u \<Longrightarrow> strchr (u @ c # t) c = Some (c # t)"
  by (induction u) auto

lemma strchr_None_iff: "strchr s c = None \<longleftrightarrow> c \<notin> set s"
  by (induction s) auto

lemma strcspn_take: "take (strcspn s r) s = takeWhile (\<lambda>c. c \<notin> set r) s"
  unfolding strcspn_def by (rule takeWhile_eq_take [symmetric])

lemma strcspn_le: "strcspn s r \<le> length s"
  by (simp add: strcspn_def length_takeWhile_le)

lemma c_str_id: "NUL \<notin> set s \<Longrightarrow> c_str s = s"
  by (auto simp: c_str_def takeWhile_eq_all_conv)

lemma NUL_notin_c_str [simp]: "NUL \<notin> set (c_str s)"
  by (auto simp: c_str_def dest: set_takeWhileD)

lemma strn_eq_prefix: "strn_eq (t @ u) t (length t)"
  by (simp add: strn_eq_def)

lemma is_digit_NUL [simp]: "\<not> is_digit NUL" "\<not> is_digit NL" "\<not> is_digit (CHR '' '')"
  by (simp_all add: is_digit_def)

section \<open>Character arrays\<close>

text \<open>\<open>memcpy\<close> of bytes to the start of a \<open>char[n]\<close>, and an assignment to one of its elements.\<close>

definition buf_copy :: "char list \<Rightarrow> char list \<Rightarrow> char list run" where
  "buf_copy dst bs =
     (if length bs \<le> length dst then Inr (bs @ drop (length bs) dst) else Inl Buffer_overflow)"

definition buf_set :: "char list \<Rightarrow> nat \<Rightarrow> char \<Rightarrow> char list run" where
  "buf_set dst i c = (if i < length dst then Inr (dst[i := c]) else Inl Buffer_overflow)"

lemma buf_copy_run: "buf_copy dst bs = Inr dst' \<Longrightarrow> length dst' = length dst"
  by (auto simp: buf_copy_def split: if_splits)

lemma buf_set_run: "buf_set dst i c = Inr dst' \<Longrightarrow> length dst' = length dst"
  by (auto simp: buf_set_def split: if_splits)

lemma c_str_append_NUL: "NUL \<notin> set s \<Longrightarrow> c_str (s @ NUL # r) = s"
  by (auto simp: c_str_def takeWhile_tail takeWhile_eq_all_conv)

text \<open>Copying a string and terminating it leaves that string in the array.\<close>

lemma buf_copy_terminated:
  assumes "length s < length dst"
  shows "andthen (buf_copy dst s) (\<lambda>b. buf_set b (length s) NUL) =
    Inr (s @ NUL # drop (Suc (length s)) dst)"
proof -
  have "drop (length s) dst = dst ! length s # drop (Suc (length s)) dst"
    using assms by (simp add: Cons_nth_drop_Suc)
  then show ?thesis using assms by (simp add: buf_copy_def buf_set_def)
qed

definition terminated :: "char list \<Rightarrow> string \<Rightarrow> char list" where
  "terminated dst s = s @ NUL # drop (Suc (length s)) dst"

lemma length_terminated: "length s < length dst \<Longrightarrow> length (terminated dst s) = length dst"
  by (simp add: terminated_def)

lemma c_str_terminated: "NUL \<notin> set s \<Longrightarrow> c_str (terminated dst s) = s"
  by (simp add: terminated_def c_str_append_NUL)

text \<open>A line that does not start with a key does not do so with its newline either.\<close>

lemma strn_eq_snoc:
  assumes "\<not> strn_eq u key n" and "NL \<notin> set key"
  shows "\<not> strn_eq (u @ [NL]) key n"
proof
  assume "strn_eq (u @ [NL]) key n"
  then have eq: "take n (u @ [NL]) = take n key" by (simp add: strn_eq_def)
  show False
  proof (cases "n \<le> length u")
    case True
    then show ?thesis using eq assms(1) by (simp add: strn_eq_def)
  next
    case False
    then have "NL \<in> set (take n (u @ [NL]))" by simp
    then have "NL \<in> set (take n key)" unfolding eq .
    then show ?thesis using assms(2) by (auto dest: in_set_takeD)
  qed
qed

section \<open>Reading lines\<close>

fun take_line :: "nat \<Rightarrow> char list \<Rightarrow> char list \<times> char list" where
  "take_line 0 f = ([], f)"
| "take_line (Suc k) [] = ([], [])"
| "take_line (Suc k) (c # cs) =
     (if c = NL then ([c], cs) else let (l, r) = take_line k cs in (c # l, r))"

text \<open>\<open>fgets(buf, n, f)\<close>: at most \<open>n - 1\<close> bytes, up to and including a newline.\<close>

definition fgets :: "nat \<Rightarrow> char list \<Rightarrow> (string \<times> char list) option" where
  "fgets n f = (if f = [] then None else let (l, r) = take_line (n - 1) f in Some (c_str l, r))"

lemma take_line_append: "take_line k f = (l, r) \<Longrightarrow> f = l @ r"
  by (induction k f arbitrary: l rule: take_line.induct) (auto split: if_splits prod.splits)

lemma length_take_line: "take_line k f = (l, r) \<Longrightarrow> length l \<le> k"
  by (induction k f arbitrary: l rule: take_line.induct) (auto split: if_splits prod.splits)

lemma take_line_nonempty: "take_line (Suc k) (c # cs) = (l, r) \<Longrightarrow> l \<noteq> []"
  by (auto split: if_splits prod.splits)

lemma fgets_shorter: "\<not> n < 2 \<Longrightarrow> fgets n f = Some (l, r) \<Longrightarrow> length r < length f"
proof -
  assume n: "\<not> n < 2" and "fgets n f = Some (l, r)"
  then obtain c cs k l' where f: "f = c # cs" "n - 1 = Suc k" "take_line (Suc k) (c # cs) = (l', r)"
    by (cases f; cases "n - 1") (auto simp: fgets_def split: prod.splits)
  have "f = l' @ r" using take_line_append [OF f(3)] f(1) by simp
  moreover have "l' \<noteq> []" by (rule take_line_nonempty [OF f(3)])
  ultimately show "length r < length f" by simp
qed

text \<open>The strings that successive calls of \<open>fgets\<close> with a buffer of \<open>n\<close> bytes return: what a
  \<open>while (fgets(buf, n, f))\<close> loop iterates over. Buffers have at least two bytes.\<close>

function fgets_lines :: "nat \<Rightarrow> char list \<Rightarrow> string list" where
  "fgets_lines n f =
     (if n < 2 then []
      else case fgets n f of None \<Rightarrow> [] | Some (l, r) \<Rightarrow> l # fgets_lines n r)"
  by pat_completeness auto
termination
  by (relation "measure (\<lambda>(n, f). length f)") (auto intro: fgets_shorter)

declare fgets_lines.simps [simp del]

lemma length_c_str: "length (c_str s) \<le> length s"
  by (simp add: c_str_def length_takeWhile_le)

lemma fgets_length: "fgets n f = Some (l, r) \<Longrightarrow> length l \<le> n - 1"
proof -
  assume "fgets n f = Some (l, r)"
  then obtain l' where l': "take_line (n - 1) f = (l', r)" "l = c_str l'"
    by (auto simp: fgets_def split: if_splits prod.splits)
  show "length l \<le> n - 1"
    using length_take_line [OF l'(1)] length_c_str [of l'] l'(2) by (blast intro: order_trans)
qed

lemma fgets_lines_mem:
  "l \<in> set (fgets_lines n f) \<Longrightarrow> \<exists>g r. fgets n g = Some (l, r)"
proof (induction n f rule: fgets_lines.induct)
  case (1 n f)
  show ?case
  proof (cases "n < 2 \<or> fgets n f = None")
    case True
    then show ?thesis using "1.prems" by (auto simp: fgets_lines.simps [of n f] split: if_splits)
  next
    case False
    then obtain l' r where f: "\<not> n < 2" "fgets n f = Some (l', r)" by auto
    then consider "l = l'" | "l \<in> set (fgets_lines n r)"
      using "1.prems" by (auto simp: fgets_lines.simps [of n f])
    then show ?thesis
    proof cases
      case 2
      then show ?thesis using "1.IH" [OF f(1,2) refl] by blast
    qed (use f(2) in blast)
  qed
qed

lemma fgets_lines_length: "l \<in> set (fgets_lines n f) \<Longrightarrow> length l \<le> n - 1"
  by (auto dest!: fgets_lines_mem simp del: One_nat_def intro: fgets_length)

lemma fgets_lines_NUL: "l \<in> set (fgets_lines n f) \<Longrightarrow> NUL \<notin> set l"
  by (auto dest!: fgets_lines_mem simp: fgets_def split: if_splits prod.splits)

lemma take_line_line:
  "NL \<notin> set u \<Longrightarrow> length u < k \<Longrightarrow> take_line k (u @ NL # r) = (u @ [NL], r)"
proof (induction u arbitrary: k)
  case (Cons c u)
  then obtain k' where "k = Suc k'" by (cases k) auto
  then show ?case using Cons by auto
qed (auto simp: gr0_conv_Suc)

lemma fgets_line:
  assumes "NL \<notin> set u" and "NUL \<notin> set u" and "length u + 2 \<le> n"
  shows "fgets n (u @ NL # r) = Some (u @ [NL], r)"
proof -
  have "take_line (n - 1) (u @ NL # r) = (u @ [NL], r)"
    using assms(1,3) by (intro take_line_line) auto
  moreover have "c_str (u @ [NL]) = u @ [NL]" using assms(2) by (intro c_str_id) auto
  ultimately show ?thesis by (simp add: fgets_def)
qed

lemma fgets_lines_Nil [simp]: "fgets_lines n [] = []"
  by (subst fgets_lines.simps) (simp add: fgets_def)

text \<open>A text file of lines that fit the buffer is read line by line.\<close>

lemma fgets_lines_Cons:
  assumes "NL \<notin> set u" and "NUL \<notin> set u" and "length u + 2 \<le> n"
  shows "fgets_lines n (u @ NL # r) = (u @ [NL]) # fgets_lines n r"
  using assms(3) fgets_line [OF assms] by (subst fgets_lines.simps) simp

definition lines_text :: "string list \<Rightarrow> char list" where
  "lines_text ls = concat (map (\<lambda>l. l @ [NL]) ls)"

lemma fgets_lines_text:
  assumes "list_all (\<lambda>u. NL \<notin> set u \<and> NUL \<notin> set u \<and> length u + 2 \<le> n) us"
  shows "fgets_lines n (lines_text us) = map (\<lambda>u. u @ [NL]) us"
  using assms unfolding lines_text_def by (induction us) (simp_all add: fgets_lines_Cons)

section \<open>Numbers in text\<close>

lemma digits_value_snoc: "digits_value (ds @ [c]) = digits_value ds * 10 + digit_value c"
  by (simp add: digits_value_def)

lemma digits_value_Nil [simp]: "digits_value [] = 0"
  by (simp add: digits_value_def)

text \<open>The decimal digits \<open>printf\<close> writes for a number.\<close>

fun show_nat :: "nat \<Rightarrow> string" where
  "show_nat n = (if n < 10 then [char_of (48 + n)] else show_nat (n div 10) @ [char_of (48 + n mod 10)])"

declare show_nat.simps [simp del]

lemma of_char_digit: "(n :: nat) < 10 \<Longrightarrow> of_char (char_of (48 + n :: nat)) = 48 + n"
  by simp

lemma digit_value_char: "n < 10 \<Longrightarrow> digit_value (char_of (48 + n)) = n"
  by (simp add: digit_value_def)

lemma is_digit_char: "(n :: nat) < 10 \<Longrightarrow> is_digit (char_of (48 + n))"
  by (simp add: is_digit_def)

lemma digits_value_show [simp]: "digits_value (show_nat n) = n"
proof (induction n rule: show_nat.induct)
  case (1 n)
  show ?case
  proof (cases "n < 10")
    case True
    then show ?thesis
      by (simp add: show_nat.simps [of n] digits_value_def digit_value_char)
  next
    case False
    then show ?thesis
      using 1 by (simp add: show_nat.simps [of n] digits_value_snoc digit_value_char)
  qed
qed

lemma show_nat_digits: "list_all is_digit (show_nat n)"
proof (induction n rule: show_nat.induct)
  case (1 n)
  then show ?case by (cases "n < 10") (simp_all add: show_nat.simps [of n] is_digit_char)
qed

lemma show_nat_nonempty [simp]: "show_nat n \<noteq> []"
  by (subst show_nat.simps) simp

lemma length_show_nat: "n < 10 ^ k \<Longrightarrow> 0 < k \<Longrightarrow> length (show_nat n) \<le> k"
proof (induction n arbitrary: k rule: show_nat.induct)
  case (1 n)
  show ?case
  proof (cases "n < 10")
    case True
    then show ?thesis using "1.prems" by (simp add: show_nat.simps [of n])
  next
    case False
    then obtain k' where k: "k = Suc k'" "0 < k'" using "1.prems" by (cases k; cases "k - 1") auto
    then have "n div 10 < 10 ^ k'" using "1.prems" by auto
    then show ?thesis using "1.IH" [OF False] k False by (simp add: show_nat.simps [of n])
  qed
qed

lemma not_in_show: "\<not> is_digit c \<Longrightarrow> c \<notin> set (show_nat n)"
  using show_nat_digits [of n] by (auto simp: list_all_iff)

lemma length_show_u32: "length (show_nat (unat (v :: u32))) \<le> 10"
  using unat_less_2_32 [of v] by (intro length_show_nat) simp_all

lemma length_show_u64: "length (show_nat (unat (v :: u64))) \<le> 20"
  using unat_less_2_64 [of v] by (intro length_show_nat) simp_all

definition show_int :: "int \<Rightarrow> string" where
  "show_int i = (if i < 0 then CHR ''-'' # show_nat (nat (- i)) else show_nat (nat i))"

section \<open>Formatted input\<close>

text \<open>
  The conversions of \<open>sscanf\<close> that the sources use, as in glibc: white space is skipped, a sign
  is optional, at least one digit is needed. The number is read as \<open>strtoul\<close> or \<open>strtol\<close> reads
  it (out of range gives the limit of the 64-bit type) and then stored at the width of the
  argument. Each returns the value and the rest of the input, or nothing on a mismatch.
\<close>

definition skip_space :: "string \<Rightarrow> string" where
  "skip_space s = dropWhile c_isspace s"

definition scan_sign :: "string \<Rightarrow> bool \<times> string" where
  "scan_sign s = (case s of
     c # cs \<Rightarrow> if c = CHR ''-'' then (True, cs) else if c = CHR ''+'' then (False, cs) else (False, s)
   | [] \<Rightarrow> (False, []))"

definition scan_lu :: "string \<Rightarrow> (u64 \<times> string) option" where
  "scan_lu s =
     (let (neg, t) = scan_sign (skip_space s); ds = takeWhile is_digit t; v = digits_value ds in
      if ds = [] then None
      else Some (if v \<ge> 18446744073709551616 then - 1
                 else if neg then - of_nat v else of_nat v, dropWhile is_digit t))"

definition scan_ld :: "string \<Rightarrow> (int \<times> string) option" where
  "scan_ld s =
     (let (neg, t) = scan_sign (skip_space s); ds = takeWhile is_digit t;
          v = (if neg then - int (digits_value ds) else int (digits_value ds)) in
      if ds = [] then None
      else Some (max (- 9223372036854775808) (min 9223372036854775807 v), dropWhile is_digit t))"

definition scan_d :: "string \<Rightarrow> (u32 \<times> string) option" where
  "scan_d s = map_option (\<lambda>(v, r). (word_of_int v, r)) (scan_ld s)"

definition scan_s :: "nat \<Rightarrow> string \<Rightarrow> (string \<times> string) option" where
  "scan_s n s =
     (let t = skip_space s; w = take n (takeWhile (\<lambda>c. \<not> c_isspace c) t) in
      if w = [] then None else Some (w, drop (length w) t))"

lemma takeWhile_digits:
  "list_all is_digit ds \<Longrightarrow> (r = [] \<or> \<not> is_digit (hd r)) \<Longrightarrow>
   takeWhile is_digit (ds @ r) = ds \<and> dropWhile is_digit (ds @ r) = r"
  by (induction ds) (auto simp: takeWhile_eq_Nil_iff dropWhile_eq_self_iff)

lemma digit_not_sign: "is_digit c \<Longrightarrow> c \<noteq> CHR ''-'' \<and> c \<noteq> CHR ''+'' \<and> \<not> c_isspace c"
  by (auto simp: is_digit_def c_isspace_def)

lemma skip_space_digits: "list_all is_digit ds \<Longrightarrow> ds \<noteq> [] \<Longrightarrow> skip_space (ds @ r) = ds @ r"
  by (cases ds) (auto simp: skip_space_def digit_not_sign)

lemma scan_sign_digits: "list_all is_digit ds \<Longrightarrow> ds \<noteq> [] \<Longrightarrow> scan_sign (ds @ r) = (False, ds @ r)"
  by (cases ds) (auto simp: scan_sign_def digit_not_sign)

lemma skip_space_append: "list_all c_isspace w \<Longrightarrow> skip_space (w @ r) = skip_space r"
  by (induction w) (auto simp: skip_space_def)

text \<open>A number printed in decimal, whatever the conversion reads it back into.\<close>

lemma scan_ld_show:
  assumes "list_all c_isspace w" and "r = [] \<or> \<not> is_digit (hd r)" and "n < 9223372036854775808"
  shows "scan_ld (w @ show_nat n @ r) = Some (int n, r)"
  using assms takeWhile_digits [OF show_nat_digits assms(2), of n]
  by (simp add: scan_ld_def skip_space_append skip_space_digits [OF show_nat_digits]
      scan_sign_digits [OF show_nat_digits] Let_def)

lemma scan_d_show:
  assumes "list_all c_isspace w" and "r = [] \<or> \<not> is_digit (hd r)"
  shows "scan_d (w @ show_nat (unat v) @ r) = Some (v, r)"
  using scan_ld_show [OF assms, of "unat v"] unat_less_2_32 [of v] by (simp add: scan_d_def)

lemma scan_d_None:
  assumes "\<not> c_isspace c" and "\<not> is_digit c" and "c \<noteq> CHR ''-''" and "c \<noteq> CHR ''+''"
  shows "scan_d (c # s) = None"
  using assms by (simp add: scan_d_def scan_ld_def skip_space_def scan_sign_def)

lemma scan_s_word:
  assumes "list_all c_isspace w" and "t \<noteq> []" and "\<forall>c \<in> set t. \<not> c_isspace c" and "length t \<le> n"
    and "r = [] \<or> c_isspace (hd r)"
  shows "scan_s n (w @ t @ r) = Some (t, r)"
proof -
  have "skip_space (t @ r) = t @ r" using assms(2,3) by (cases t) (auto simp: skip_space_def)
  moreover have "takeWhile (\<lambda>c. \<not> c_isspace c) (t @ r) = t"
    using assms(3,5) by (cases r) (auto simp: takeWhile_tail takeWhile_eq_all_conv)
  moreover have "n \<noteq> 0" using assms(2,4) by (cases t) auto
  ultimately show ?thesis using assms(1,2,4) by (simp add: scan_s_def skip_space_append Let_def)
qed

text \<open>What \<open>%lu\<close> reads after blanks is what \<open>%lu\<close> writes.\<close>

lemma scan_lu_show:
  assumes "list_all c_isspace w" and "r = [] \<or> \<not> is_digit (hd r)"
  shows "scan_lu (w @ show_nat (unat v) @ r) = Some (v, r)"
  using assms unat_less_2_64 [of v] takeWhile_digits [OF show_nat_digits assms(2), of "unat v"]
  by (simp add: scan_lu_def skip_space_append skip_space_digits [OF show_nat_digits]
      scan_sign_digits [OF show_nat_digits] Let_def)

end
