(* ===== verification/Parse.thy ===== *)
theory Parse
  imports Libc
begin

text \<open>
  The string helpers of \<open>base/base_parse.c\<close>. A \<open>char *\<close> is the list of the bytes that can be
  read from it on, its terminator included; a read past their end is a \<^const>\<open>Bad_read\<close>.
\<close>

section \<open>Operations\<close>

text \<open>\<open>for (word_idx = 0; word_idx <= sizeof(*c1); ++word_idx)\<close>: \<open>sizeof(*c1)\<close> is the size of
  one \<open>char\<close>. The result is a \<open>b8\<close>, an unsigned byte, so \<open>-1\<close> is 255.\<close>

fun compare_from :: "nat \<Rightarrow> char list \<Rightarrow> char list \<Rightarrow> u8 run" where
  "compare_from 0 c1 c2 = Inr 0"
| "compare_from (Suc n) (x # xs) (y # ys) = (if x \<noteq> y then Inr (- 1) else compare_from n xs ys)"
| "compare_from (Suc n) _ _ = Inl Bad_read"

definition sizeof_char :: nat where "sizeof_char = 1"

definition compare_string :: "char list \<Rightarrow> char list \<Rightarrow> u8 run" where
  "compare_string c1 c2 = compare_from (Suc sizeof_char) c1 c2"

fun parse_u64_from :: "nat \<Rightarrow> char list \<Rightarrow> u64 \<Rightarrow> u64 run" where
  "parse_u64_from 0 buf value = Inr value"
| "parse_u64_from (Suc n) [] value = Inl Bad_read"
| "parse_u64_from (Suc n) (c # cs) value =
     (if \<not> is_digit c then Inr value
      else parse_u64_from n cs (value * 10 + of_nat (digit_value c)))"

definition parse_u64 :: "char list \<Rightarrow> u64 \<Rightarrow> u64 run" where
  "parse_u64 buf len = parse_u64_from (unat len) buf 0"

fun is_numeric :: "char list \<Rightarrow> u8 run" where
  "is_numeric [] = Inl Bad_read"
| "is_numeric (c # s) =
     (if c = NUL then Inr 1 else if \<not> is_digit c then Inr 0 else is_numeric s)"

section \<open>What they compute\<close>

lemma compare_string_two:
  "compare_string (a # b # u) (c # d # v) = Inr (if a = c \<and> b = d then 0 else - 1)"
  by (auto simp: compare_string_def sizeof_char_def)

lemma digits_value_Cons_foldl:
  "foldl (\<lambda>v c. v * 10 + digit_value c) x ds = x * 10 ^ length ds + digits_value ds"
proof (induction ds rule: rev_induct)
  case (snoc c ds)
  then show ?case by (simp add: digits_value_snoc algebra_simps)
qed (simp add: digits_value_def)

lemma digits_value_Cons: "digits_value (c # ds) = digit_value c * 10 ^ length ds + digits_value ds"
  using digits_value_Cons_foldl [of "digit_value c" ds] by (simp add: digits_value_def)

text \<open>The loop returns as soon as the length is used up or a byte is no digit; it never runs
  off a buffer that holds one of the two.\<close>

lemma parse_u64_from_value:
  assumes "n \<le> length buf \<or> (\<exists>c \<in> set buf. \<not> is_digit c)"
  shows "parse_u64_from n buf v =
    Inr (v * 10 ^ length (takeWhile is_digit (take n buf))
         + of_nat (digits_value (takeWhile is_digit (take n buf))))"
  using assms
proof (induction n buf v rule: parse_u64_from.induct)
  case (3 n c cs v)
  show ?case
  proof (cases "is_digit c")
    case True
    then have "n \<le> length cs \<or> (\<exists>c \<in> set cs. \<not> is_digit c)" using 3 by auto
    then show ?thesis using 3(1) True by (simp add: digits_value_Cons algebra_simps)
  qed simp
qed auto

lemma parse_u64_value:
  assumes "unat len \<le> length buf \<or> (\<exists>c \<in> set buf. \<not> is_digit c)"
  shows "parse_u64 buf len = Inr (of_nat (digits_value (takeWhile is_digit (take (unat len) buf))))"
  using parse_u64_from_value [OF assms, of 0] by (simp add: parse_u64_def)

lemma parse_u64_c_string:
  "parse_u64 (s @ NUL # r) len =
     Inr (of_nat (digits_value (takeWhile is_digit (take (unat len) (s @ [NUL])))))"
proof -
  have "takeWhile is_digit (take n (s @ NUL # r)) = takeWhile is_digit (take n (s @ [NUL]))" for n
    by (simp add: take_Cons' takeWhile_tail)
  then show ?thesis using parse_u64_value [of len "s @ NUL # r"] by simp
qed

lemma takeWhile_digits_show: "takeWhile is_digit (show_nat n) = show_nat n"
  using show_nat_digits [of n] by (simp add: list_all_iff takeWhile_eq_all_conv)

lemma is_numeric_c_string:
  "NUL \<notin> set s \<Longrightarrow> is_numeric (s @ NUL # r) = Inr (if list_all is_digit s then 1 else 0)"
  by (induction s) auto

section \<open>Properties\<close>

text \<open>C31: what \<open>parse_u64\<close> reads from the digits of a 64-bit number followed by a byte that is
  no digit, with a length that covers them, is that number: printing and parsing are inverse.\<close>

theorem parse_u64_show:
  assumes "\<not> is_digit c" and "length (show_nat (unat v)) \<le> unat len"
  shows "parse_u64 (show_nat (unat v) @ c # r) len = Inr v"
proof -
  let ?s = "show_nat (unat v)"
  have "takeWhile is_digit (take (unat len) (?s @ c # r)) = ?s"
    using assms takeWhile_digits_show [of "unat v"] show_nat_digits [of "unat v"]
    by (cases "unat len - length ?s") (simp_all add: takeWhile_append2 list_all_iff)
  then show ?thesis using parse_u64_value [of len "?s @ c # r"] assms(1) by auto
qed

theorem parse_u64_show_witness:
  "parse_u64 (show_nat (unat (16318480 :: u64)) @ CHR '' '' # ''kB'') 16 = Inr 16318480"
proof -
  have "length (show_nat 16318480) \<le> 8" by (rule length_show_nat) simp_all
  then show ?thesis by (intro parse_u64_show) simp_all
qed

text \<open>\<open>compare_string\<close> looks at two characters only. Two strings of at least one character,
  terminators included, compare equal exactly when their first two bytes agree, so different
  strings with a common prefix of two are reported equal.\<close>

theorem compare_string_prefix:
  assumes "s \<noteq> []" and "t \<noteq> []"
  shows "compare_string (s @ [NUL]) (t @ [NUL]) =
    Inr (if take 2 (s @ [NUL]) = take 2 (t @ [NUL]) then 0 else 255)"
proof -
  obtain a b u where s: "s @ [NUL] = a # b # u"
    using assms(1) by (cases s; cases "tl s") auto
  obtain c d v where t: "t @ [NUL] = c # d # v"
    using assms(2) by (cases t; cases "tl t") auto
  show ?thesis unfolding s t by (simp add: compare_string_two)
qed

end
