(* ===== verification/Structs.thy ===== *)
theory Structs
  imports Memory
begin

text \<open>
  C structures in the byte store. A codec gives the bytes of a structure and back; what it
  promises is the locale \<open>struct_codec\<close>, and from it follow the facts about arrays of structures
  (\<open>array_at\<close>) and about code that works on a structure through a pointer (\<open>on_struct\<close>).
\<close>

section \<open>Arrays and pointers\<close>

definition field :: "nat \<Rightarrow> nat \<Rightarrow> char list \<Rightarrow> char list" where
  "field off n bs = take n (drop off bs)"

definition array_at :: "nat \<Rightarrow> (char list \<Rightarrow> 'a) \<Rightarrow> (nat \<Rightarrow> char) \<Rightarrow> nat \<Rightarrow> nat \<Rightarrow> 'a list" where
  "array_at sz de m p n = map (\<lambda>i. de (mem_read m (p + i * sz) sz)) [0..<n]"

text \<open>A call that reads and writes the structure at \<open>p\<close> and nothing else through it: the
  structure is loaded, the call works on its value, the new value is stored.\<close>

definition on_struct ::
  "nat \<Rightarrow> (char list \<Rightarrow> 'a) \<Rightarrow> ('a \<Rightarrow> char list) \<Rightarrow> os \<Rightarrow> u64 \<Rightarrow>
   (os \<Rightarrow> 'a \<Rightarrow> ('r \<times> 'a \<times> os) run) \<Rightarrow> ('r \<times> os) run" where
  "on_struct sz de en s p f =
     andthen (load_bytes s p sz) (\<lambda>bs.
     andthen (f s (de bs)) (\<lambda>(r, x, s1).
     andthen (memcpy s1 p (en x)) (\<lambda>s2. Inr (r, s2))))"

lemma length_array_at [simp]: "length (array_at sz de m p n) = n"
  by (simp add: array_at_def)

lemma array_at_0 [simp]: "array_at sz de m p 0 = []"
  by (simp add: array_at_def)

lemma array_at_Suc:
  "array_at sz de m p (Suc n) = array_at sz de m p n @ [de (mem_read m (p + n * sz) sz)]"
  by (simp add: array_at_def)

lemma array_at_cong:
  assumes "\<And>a. a < n * sz \<Longrightarrow> m' (q + a) = m (p + a)"
  shows "array_at sz de m' q n = array_at sz de m p n"
proof -
  have "mem_read m' (q + i * sz) sz = mem_read m (p + i * sz) sz" if "i < n" for i
  proof (rule nth_equalityI)
    fix j assume "j < length (mem_read m' (q + i * sz) sz)"
    then have "j < sz" by simp
    moreover have "i * sz + j < n * sz"
    proof -
      have "i * sz + j < (i + 1) * sz" using \<open>j < sz\<close> by simp
      also have "\<dots> \<le> n * sz" using that by (intro mult_le_mono1) simp
      finally show ?thesis .
    qed
    ultimately show "mem_read m' (q + i * sz) sz ! j = mem_read m (p + i * sz) sz ! j"
      using assms [of "i * sz + j"] by (simp add: add.assoc)
  qed simp
  then show ?thesis by (simp add: array_at_def)
qed

lemma array_at_copy:
  "bs = mem_read m p (n * sz) \<Longrightarrow> array_at sz de (mem_write q bs m') q n = array_at sz de m p n"
  by (rule array_at_cong) (simp add: mem_write_def)

lemma array_at_write_apart:
  "apart p (n * sz) q (length bs) \<Longrightarrow>
   array_at sz de (mem_write q bs m) p n = array_at sz de m p n"
  by (rule array_at_cong) (auto simp: mem_write_def apart_def)

section \<open>The contract of a codec\<close>

locale struct_codec =
  fixes sz :: nat
    and en :: "'a \<Rightarrow> char list"
    and de :: "char list \<Rightarrow> 'a"
    and wf :: "'a \<Rightarrow> bool"
  assumes size_pos: "0 < sz"
    and length_en: "wf x \<Longrightarrow> length (en x) = sz"
    and de_en: "wf x \<Longrightarrow> de (en x) = x"
    and wf_de: "length bs = sz \<Longrightarrow> wf (de bs)"
begin

lemma read_back: "wf x \<Longrightarrow> de (mem_read (mem_write p (en x) m) p sz) = x"
  by (simp add: mem_simps length_en de_en)

lemma array_snoc:
  assumes "wf x"
  shows "array_at sz de (mem_write (p + n * sz) (en x) m) p (Suc n) = array_at sz de m p n @ [x]"
proof -
  have "array_at sz de (mem_write (p + n * sz) (en x) m) p n = array_at sz de m p n"
    by (rule array_at_write_apart) (simp add: apart_def)
  then show ?thesis using assms by (simp add: array_at_Suc read_back)
qed

lemma array_wf: "list_all wf (array_at sz de m p n)"
  by (simp add: array_at_def list_all_iff wf_de)

lemma on_struct_run:
  assumes "accessible s (unat p) sz"
    and "f s (de (mem_read (mem s) (unat p) sz)) = Inr (r, x, s1)"
    and "regions s1 = regions s" and "wf x"
  shows "on_struct sz de en s p f = Inr (r, s1\<lparr>mem := mem_write (unat p) (en x) (mem s1)\<rparr>)"
proof -
  have "accessible s1 (unat p) (length (en x))"
    using assms(1,3,4) by (simp add: accessible_def length_en)
  then show ?thesis
    using assms by (simp add: on_struct_def load_bytes_def memcpy_def)
qed

end

end
