(* ===== verification/Resources.thy ===== *)
theory Resources
  imports Structs
begin

text \<open>
  \<open>libres/resources.h\<close>: the structures the readers fill, with their layout in memory (x86-64
  and AArch64 Linux agree on it). A \<open>char[n]\<close> member is a list of exactly \<open>n\<close> bytes; \<open>wf\<close>
  predicates say so.
\<close>

section \<open>Structures\<close>

datatype sys_proc_state =
    proc_undefined
  | proc_running
  | proc_sleeping
  | proc_disk_sleeping
  | proc_stopped
  | proc_tracing_stopped
  | proc_zombie
  | proc_dead
  | proc_idle

record sys_proc =
  proc_name :: "char list"
  num_threads :: i8
  stime :: u64
  utime :: u64
  pid :: i32
  state :: sys_proc_state

record sys_proc_list =
  items :: u64
  proc_count :: u64
  proc_capacity :: u64

record sys_partition =
  blocks :: u64
  major :: u32
  minor :: u32
  part_name :: "char list"

record sys_cpu =
  total_time :: u64
  idle_time :: u64
  cores :: u32
  cpu_pad :: u32
  vendor :: "char list"
  model :: "char list"
  frequency :: "char list"

record sys_memory =
  mem_total :: u64
  mem_free :: u64

record sys_fs =
  fs_total :: u64
  fs_free :: u64
  fs_available :: u64
  fs_used :: u64

record sys_disk =
  partitions :: u64
  part_count :: u64
  part_capacity :: u64

record sys_device =
  os_version :: "char list"
  uptime :: "char list"
  processes :: sys_proc_list
  port :: u64

text \<open>The files a reader opens, by path; nothing when \<open>fopen\<close> fails.\<close>

type_synonym files = "string \<Rightarrow> char list option"

section \<open>Layout\<close>

definition word_field :: "nat \<Rightarrow> nat \<Rightarrow> char list \<Rightarrow> 'a::len word" where
  "word_field off n bs = of_nat (dec (field off n bs))"

text \<open>Values of the enumeration; the code only ever stores declared ones.\<close>

definition proc_states :: "sys_proc_state list" where
  "proc_states = [proc_undefined, proc_running, proc_sleeping, proc_disk_sleeping, proc_stopped,
     proc_tracing_stopped, proc_zombie, proc_dead, proc_idle]"

fun state_code :: "sys_proc_state \<Rightarrow> nat" where
  "state_code proc_undefined = 0"
| "state_code proc_running = 1"
| "state_code proc_sleeping = 2"
| "state_code proc_disk_sleeping = 3"
| "state_code proc_stopped = 4"
| "state_code proc_tracing_stopped = 5"
| "state_code proc_zombie = 6"
| "state_code proc_dead = 7"
| "state_code proc_idle = 8"

definition state_of_code :: "nat \<Rightarrow> sys_proc_state" where
  "state_of_code n = (if n < 9 then proc_states ! n else proc_undefined)"

definition sizeof_sys_proc :: u64 where "sizeof_sys_proc = 48"
definition sizeof_sys_partition :: u64 where "sizeof_sys_partition = 48"
definition sizeof_sys_cpu :: u64 where "sizeof_sys_cpu = 120"
definition sizeof_sys_memory :: u64 where "sizeof_sys_memory = 16"
definition sizeof_sys_fs :: u64 where "sizeof_sys_fs = 32"
definition sizeof_sys_disk :: u64 where "sizeof_sys_disk = 24"
definition sizeof_sys_device :: u64 where "sizeof_sys_device = 544"

lemmas sizeofs [layout_simps] =
  sizeof_sys_proc_def sizeof_sys_partition_def sizeof_sys_cpu_def sizeof_sys_memory_def
  sizeof_sys_fs_def sizeof_sys_disk_def sizeof_sys_device_def

definition en_proc :: "sys_proc \<Rightarrow> char list" where
  "en_proc p = proc_name p @ enc 1 (unat (num_threads p)) @ replicate 7 NUL @
     enc 8 (unat (stime p)) @ enc 8 (unat (utime p)) @ enc 4 (unat (pid p)) @
     enc 4 (state_code (state p))"

definition de_proc :: "char list \<Rightarrow> sys_proc" where
  "de_proc bs = \<lparr>proc_name = field 0 16 bs, num_threads = word_field 16 1 bs,
     stime = word_field 24 8 bs, utime = word_field 32 8 bs, pid = word_field 40 4 bs,
     state = state_of_code (dec (field 44 4 bs))\<rparr>"

definition wf_proc :: "sys_proc \<Rightarrow> bool" where
  "wf_proc p \<longleftrightarrow> length (proc_name p) = 16"

definition en_partition :: "sys_partition \<Rightarrow> char list" where
  "en_partition p = enc 8 (unat (blocks p)) @ enc 4 (unat (major p)) @ enc 4 (unat (minor p)) @
     part_name p"

definition de_partition :: "char list \<Rightarrow> sys_partition" where
  "de_partition bs = \<lparr>blocks = word_field 0 8 bs, major = word_field 8 4 bs,
     minor = word_field 12 4 bs, part_name = field 16 32 bs\<rparr>"

definition wf_partition :: "sys_partition \<Rightarrow> bool" where
  "wf_partition p \<longleftrightarrow> length (part_name p) = 32"

definition en_cpu :: "sys_cpu \<Rightarrow> char list" where
  "en_cpu c = enc 8 (unat (total_time c)) @ enc 8 (unat (idle_time c)) @ enc 4 (unat (cores c)) @
     enc 4 (unat (cpu_pad c)) @ vendor c @ model c @ frequency c"

definition de_cpu :: "char list \<Rightarrow> sys_cpu" where
  "de_cpu bs = \<lparr>total_time = word_field 0 8 bs, idle_time = word_field 8 8 bs,
     cores = word_field 16 4 bs, cpu_pad = word_field 20 4 bs, vendor = field 24 16 bs,
     model = field 40 64 bs, frequency = field 104 16 bs\<rparr>"

definition wf_cpu :: "sys_cpu \<Rightarrow> bool" where
  "wf_cpu c \<longleftrightarrow> length (vendor c) = 16 \<and> length (model c) = 64 \<and> length (frequency c) = 16"

definition en_memory :: "sys_memory \<Rightarrow> char list" where
  "en_memory m = enc 8 (unat (mem_total m)) @ enc 8 (unat (mem_free m))"

definition de_memory :: "char list \<Rightarrow> sys_memory" where
  "de_memory bs = \<lparr>mem_total = word_field 0 8 bs, mem_free = word_field 8 8 bs\<rparr>"

definition en_disk :: "sys_disk \<Rightarrow> char list" where
  "en_disk d = enc 8 (unat (partitions d)) @ enc 8 (unat (part_count d)) @
     enc 8 (unat (part_capacity d))"

definition de_disk :: "char list \<Rightarrow> sys_disk" where
  "de_disk bs = \<lparr>partitions = word_field 0 8 bs, part_count = word_field 8 8 bs,
     part_capacity = word_field 16 8 bs\<rparr>"

definition en_device :: "sys_device \<Rightarrow> char list" where
  "en_device d = os_version d @ uptime d @ enc 8 (unat (items (processes d))) @
     enc 8 (unat (proc_count (processes d))) @ enc 8 (unat (proc_capacity (processes d))) @
     enc 8 (unat (port d))"

definition de_device :: "char list \<Rightarrow> sys_device" where
  "de_device bs = \<lparr>os_version = field 0 256 bs, uptime = field 256 256 bs,
     processes = \<lparr>items = word_field 512 8 bs, proc_count = word_field 520 8 bs,
                  proc_capacity = word_field 528 8 bs\<rparr>, port = word_field 536 8 bs\<rparr>"

definition wf_device :: "sys_device \<Rightarrow> bool" where
  "wf_device d \<longleftrightarrow> length (os_version d) = 256 \<and> length (uptime d) = 256"

section \<open>Codecs\<close>

lemma length_field: "off + n \<le> length bs \<Longrightarrow> length (field off n bs) = n"
  by (simp add: field_def)

lemma state_of_code [simp]: "state_of_code (dec (enc 4 (state_code st))) = st"
  by (cases st) (simp_all add: dec_enc state_of_code_def proc_states_def)

lemmas codec_defs = word_field_def field_def wf_proc_def wf_partition_def wf_cpu_def wf_device_def

interpretation proc: struct_codec 48 en_proc de_proc wf_proc
  by unfold_locales (simp_all add: en_proc_def de_proc_def codec_defs)

interpretation part: struct_codec 48 en_partition de_partition wf_partition
  by unfold_locales (simp_all add: en_partition_def de_partition_def codec_defs)

interpretation cpu: struct_codec 120 en_cpu de_cpu wf_cpu
  by unfold_locales (simp_all add: en_cpu_def de_cpu_def codec_defs)

interpretation ram: struct_codec 16 en_memory de_memory "\<lambda>_. True"
  by unfold_locales (simp_all add: en_memory_def de_memory_def codec_defs)

interpretation disk: struct_codec 24 en_disk de_disk "\<lambda>_. True"
  by unfold_locales (simp_all add: en_disk_def de_disk_def codec_defs)

interpretation device: struct_codec 544 en_device de_device wf_device
  by unfold_locales (simp_all add: en_device_def de_device_def codec_defs)

text \<open>What a zeroed block holds.\<close>

definition zero_cpu :: sys_cpu where
  "zero_cpu = \<lparr>total_time = 0, idle_time = 0, cores = 0, cpu_pad = 0, vendor = replicate 16 NUL,
     model = replicate 64 NUL, frequency = replicate 16 NUL\<rparr>"

definition zero_device :: sys_device where
  "zero_device = \<lparr>os_version = replicate 256 NUL, uptime = replicate 256 NUL,
     processes = \<lparr>items = 0, proc_count = 0, proc_capacity = 0\<rparr>, port = 0\<rparr>"

lemma de_zero:
  "de_cpu (replicate 120 NUL) = zero_cpu"
  "de_memory (replicate 16 NUL) = \<lparr>mem_total = 0, mem_free = 0\<rparr>"
  "de_disk (replicate 24 NUL) = \<lparr>partitions = 0, part_count = 0, part_capacity = 0\<rparr>"
  "de_device (replicate 544 NUL) = zero_device"
  by (simp_all add: de_cpu_def de_memory_def de_disk_def de_device_def codec_defs zero_cpu_def
      zero_device_def)

lemma wf_zero [simp]: "wf_cpu zero_cpu" "wf_device zero_device"
  by (simp_all add: codec_defs zero_cpu_def zero_device_def)

end
