(* ===== verification/Growable.thy ===== *)
theory Growable
  imports Structs Arena
begin

text \<open>
  Arrays of structures that grow by moving to a larger block of an allocator: the scheme of
  \<open>disk_push_partition\<close> and \<open>process_list_collect\<close>. The locale puts the contract of an allocator
  and of a codec together; its lemmas are the two steps of a push, the move and the append.
\<close>

locale growable = allocator alloc ok base brk room start + struct_codec sz en de wf
  for alloc :: "os \<Rightarrow> 'h \<Rightarrow> u64 \<Rightarrow> (u64 \<times> os) run"
    and ok :: "os \<Rightarrow> 'h \<Rightarrow> bool"
    and base :: "os \<Rightarrow> 'h \<Rightarrow> nat"
    and brk :: "os \<Rightarrow> 'h \<Rightarrow> nat"
    and room :: "os \<Rightarrow> 'h \<Rightarrow> nat"
    and start :: "'h \<Rightarrow> nat"
    and sz :: nat
    and en :: "'a \<Rightarrow> char list"
    and de :: "char list \<Rightarrow> 'a"
    and wf :: "'a \<Rightarrow> bool"
begin

lemma append_elem:
  assumes "ok s h" and "base s h \<le> p" and "p + Suc n * sz \<le> brk s h" and "wf x"
    and "unat q = p + n * sz"
  obtains s' where "memcpy s q (en x) = Inr s'" and "ok s' h" and "regions s' = regions s"
    and "base s' h = base s h" and "brk s' h = brk s h" and "room s' h = room s h"
    and "array_at sz de (mem s') p (Suc n) = array_at sz de (mem s) p n @ [x]"
    and "\<forall>y. y < p + n * sz \<or> p + Suc n * sz \<le> y \<longrightarrow> mem s' y = mem s y"
proof -
  let ?s = "s\<lparr>mem := mem_write (p + n * sz) (en x) (mem s)\<rparr>"
  have len: "length (en x) = sz" using assms(4) by (rule length_en)
  have top: "p + n * sz + sz \<le> brk s h" using assms(3) by simp
  have "accessible s (p + n * sz) sz"
    using assms(2) by (intro reach [OF assms(1) _ top]) simp
  then have "memcpy s q (en x) = Inr ?s" using assms(5) len by (simp add: memcpy_def)
  moreover have "ok ?s h \<and> base ?s h = base s h \<and> brk ?s h = brk s h \<and> room ?s h = room s h"
    using assms(2) top len by (intro frame [OF assms(1), of "p + n * sz" "en x"]) auto
  moreover have "array_at sz de (mem ?s) p (Suc n) = array_at sz de (mem s) p n @ [x]"
    using array_snoc [OF assms(4)] by simp
  moreover have "\<forall>y. y < p + n * sz \<or> p + Suc n * sz \<le> y \<longrightarrow> mem ?s y = mem s y"
    using len by (auto simp: mem_write_def)
  ultimately show ?thesis using that [of ?s] by simp
qed

lemma move_array:
  assumes "ok s h" and "base s h \<le> unat p" and "unat p + n * sz \<le> brk s h"
    and "unat bytes \<le> room s h" and "n * sz \<le> unat bytes" and "unat len = n * sz"
  obtains np s1 s2 where "alloc s h bytes = Inr (np, s1)" and "np \<noteq> 0" and "unat np = brk s h"
    and "memmove s1 np p len = Inr s2" and "ok s2 h" and "regions s2 = regions s"
    and "base s2 h = base s h" and "brk s2 h = brk s h + unat bytes"
    and "room s2 h = room s h - unat bytes"
    and "array_at sz de (mem s2) (unat np) n = array_at sz de (mem s) (unat p) n"
    and "\<forall>x. base s h \<le> x \<and> x < brk s h \<longrightarrow> mem s2 x = mem s x"
    and "\<forall>x. x < start h \<or> brk s h + room s h \<le> x \<longrightarrow> mem s2 x = mem s x"
proof -
  obtain np s1 where s1: "alloc s h bytes = Inr (np, s1)" "np \<noteq> 0" "unat np = brk s h" "ok s1 h"
      "regions s1 = regions s" "base s1 h = base s h" "brk s1 h = brk s h + unat bytes"
      "room s1 h = room s h - unat bytes" "\<forall>x. base s h \<le> x \<and> x < brk s h \<longrightarrow> mem s1 x = mem s x"
      "\<forall>x. x < start h \<or> brk s h + room s h \<le> x \<longrightarrow> mem s1 x = mem s x"
    using fresh_block [OF assms(1,4)] by metis
  define bs where "bs = mem_read (mem s1) (unat p) (n * sz)"
  let ?s = "s1\<lparr>mem := mem_write (unat np) bs (mem s1)\<rparr>"
  have base: "base s h \<le> brk s h" using bounds [OF assms(1)] by simp
  have acc: "accessible s1 (unat p) (n * sz)" "accessible s1 (unat np) (n * sz)"
    using assms(2,3,5) s1(3,6,7) base by (auto intro!: reach [OF s1(4)])
  then have "memmove s1 np p len = Inr ?s"
    using assms(6) by (simp add: memmove_def load_bytes_def memcpy_def bs_def)
  moreover have "ok ?s h \<and> base ?s h = base s1 h \<and> brk ?s h = brk s1 h \<and> room ?s h = room s1 h"
    using s1(3,6,7) base assms(5) by (intro frame [OF s1(4), of "unat np" bs]) (auto simp: bs_def)
  moreover have "array_at sz de (mem ?s) (unat np) n = array_at sz de (mem s) (unat p) n"
  proof -
    have "array_at sz de (mem ?s) (unat np) n = array_at sz de (mem s1) (unat p) n"
      by (simp add: array_at_copy [OF bs_def])
    also have "\<dots> = array_at sz de (mem s) (unat p) n"
      using s1(9) assms(2,3) by (intro array_at_cong) auto
    finally show ?thesis .
  qed
  moreover have "\<forall>x. base s h \<le> x \<and> x < brk s h \<longrightarrow> mem ?s x = mem s x"
    using s1(3,9) by (auto simp: mem_write_def)
  moreover have "length bs \<le> room s h" "start h \<le> brk s h"
    using assms(4,5) bounds [OF assms(1)] by (simp_all add: bs_def)
  then have "\<forall>x. x < start h \<or> brk s h + room s h \<le> x \<longrightarrow> mem ?s x = mem s x"
    using s1(3,10) by (auto simp: mem_write_def)
  ultimately show ?thesis using that [of np s1 ?s] s1 by simp
qed

end

end
