(* ===== verification/Disk.thy ===== *)
theory Disk
  imports Resources Growable Libc
begin

text \<open>
  The disk reader of \<open>libres/resources.cc\<close>: \<open>disk_create\<close>, \<open>disk_push_partition\<close> and
  \<open>disk_read\<close>. The partition array lives in the arena; \<open>disk_parts\<close> is the list it stands for.
  A file is the bytes \<open>fopen\<close> gives access to, or nothing when it cannot be opened. \<open>assert(0)\<close>
  stops the process, so the error returns written after it are never reached.
\<close>

section \<open>Operations\<close>

definition disk_create :: "os \<Rightarrow> u64 \<Rightarrow> (u64 \<times> os) run" where
  "disk_create s m = arena_alloc s m sizeof_sys_disk"

text \<open>The \<open>if\<close> at the start of \<open>disk_push_partition\<close>. Nothing stands for the early return when
  the arena has no memory left.\<close>

definition disk_grow :: "os \<Rightarrow> sys_disk \<Rightarrow> u64 \<Rightarrow> (sys_disk option \<times> os) run" where
  "disk_grow s d a =
     (if part_count d = part_capacity d then
        let new_cap = (if part_capacity d \<noteq> 0 then part_capacity d * 2 else 8) in
        andthen (arena_alloc s a (sizeof_sys_partition * new_cap)) (\<lambda>(np, s1).
        if np = 0 then Inr (None, s1)
        else
          andthen (if partitions d \<noteq> 0 \<and> part_count d > 0
                   then memmove s1 np (partitions d) (part_count d * sizeof_sys_partition)
                   else Inr s1) (\<lambda>s2.
          Inr (Some (d\<lparr>partitions := np, part_capacity := new_cap\<rparr>), s2)))
      else Inr (Some d, s))"

definition disk_push_partition ::
  "os \<Rightarrow> sys_disk \<Rightarrow> sys_partition \<Rightarrow> u64 \<Rightarrow> (sys_disk \<times> os) run" where
  "disk_push_partition s d p a =
     andthen (disk_grow s d a) (\<lambda>(grown, s1). case grown of
        None \<Rightarrow> Inr (d, s1)
      | Some d1 \<Rightarrow>
          andthen (memcpy s1 (partitions d1 + part_count d1 * sizeof_sys_partition) (en_partition p))
            (\<lambda>s2. Inr (d1\<lparr>part_count := part_count d1 + 1\<rparr>, s2)))"

text \<open>\<open>sscanf(buf, "%d %d %lu %255s", ...) == 4\<close>.\<close>

definition scan_partition :: "string \<Rightarrow> (u32 \<times> u32 \<times> u64 \<times> string) option" where
  "scan_partition buf = (case scan_d buf of None \<Rightarrow> None | Some (ma, r1) \<Rightarrow>
     case scan_d r1 of None \<Rightarrow> None | Some (mi, r2) \<Rightarrow>
     case scan_lu r2 of None \<Rightarrow> None | Some (bl, r3) \<Rightarrow>
     case scan_s 255 r3 of None \<Rightarrow> None | Some (nm, r4) \<Rightarrow> Some (ma, mi, bl, nm))"

fun disk_read_lines :: "string list \<Rightarrow> os \<Rightarrow> sys_disk \<Rightarrow> u64 \<Rightarrow> (sys_disk \<times> os) run" where
  "disk_read_lines [] s out a = Inr (out, s)"
| "disk_read_lines (buf # bufs) s out a = (case scan_partition buf of
     None \<Rightarrow> disk_read_lines bufs s out a
   | Some (ma, mi, bl, name) \<Rightarrow>
       let len = (if length name \<ge> 32 then 31 else length name) in
       andthen (buf_copy (replicate 32 NUL) (take len name)) (\<lambda>nm.
       andthen (buf_set nm len NUL) (\<lambda>nm.
       andthen (disk_push_partition s out
                  \<lparr>blocks = bl, major = ma, minor = mi, part_name = nm\<rparr> a) (\<lambda>(out, s).
       disk_read_lines bufs s out a))))"

definition disk_read ::
  "char list option \<Rightarrow> os \<Rightarrow> sys_disk option \<Rightarrow> u64 \<Rightarrow> (err_code \<times> sys_disk \<times> os) run" where
  "disk_read file s out a = (case out of
     None \<Rightarrow> Inl Assertion_failed
   | Some d \<Rightarrow> (case file of
       None \<Rightarrow> Inl Assertion_failed
     | Some f \<Rightarrow>
         andthen (disk_read_lines (fgets_lines BUFF_DEFAULT f) s d a) (\<lambda>(d', s').
         Inr (ERR_OK, d', s'))))"

section \<open>The array and the list it stands for\<close>

definition disk_parts :: "os \<Rightarrow> sys_disk \<Rightarrow> sys_partition list" where
  "disk_parts s d = array_at 48 de_partition (mem s) (unat (partitions d)) (unat (part_count d))"

text \<open>The array is in the allocated part of the arena, above \<open>lo\<close>, and has room for its
  capacity.\<close>

definition disk_ok :: "os \<Rightarrow> u64 \<Rightarrow> nat \<Rightarrow> sys_disk \<Rightarrow> bool" where
  "disk_ok s a lo d \<longleftrightarrow>
     arena_base s a \<le> lo \<and> lo \<le> arena_top s a \<and> part_count d \<le> part_capacity d \<and>
     (part_capacity d \<noteq> 0 \<longrightarrow>
        lo \<le> unat (partitions d) \<and>
        unat (partitions d) + unat (part_capacity d) * 48 \<le> arena_top s a)"

definition new_capacity :: "u64 \<Rightarrow> nat" where
  "new_capacity cap = (if cap \<noteq> 0 then 2 * unat cap else 8)"

interpretation parts: growable arena_alloc arena_ok arena_base arena_top arena_room unat 48
  en_partition de_partition wf_partition ..

lemma unat_new_capacity:
  assumes "new_capacity cap * 48 < 18446744073709551616"
  shows "unat (if cap \<noteq> 0 then cap * 2 else 8) = new_capacity cap"
    "unat (sizeof_sys_partition * (if cap \<noteq> 0 then cap * 2 else 8)) = new_capacity cap * 48"
proof -
  show n: "unat (if cap \<noteq> 0 then cap * 2 else 8) = new_capacity cap"
    using assms by (auto simp: new_capacity_def unat_mult_nowrap)
  then show "unat (sizeof_sys_partition * (if cap \<noteq> 0 then cap * 2 else 8)) = new_capacity cap * 48"
    using assms by (subst unat_mult_nowrap) (simp_all add: sizeof_sys_partition_def)
qed

lemma disk_grow_full:
  assumes ok: "arena_ok s a" "disk_ok s a lo d" and full: "part_count d = part_capacity d"
    and room: "new_capacity (part_capacity d) * 48 \<le> arena_room s a"
  obtains d1 s1 where "disk_grow s d a = Inr (Some d1, s1)" and "arena_ok s1 a"
    and "disk_ok s1 a lo d1" and "regions s1 = regions s"
    and "part_count d1 = part_count d" and "unat (part_capacity d1) = new_capacity (part_capacity d)"
    and "disk_parts s1 d1 = disk_parts s d" and "arena_base s1 a = arena_base s a"
    and "arena_room s1 a = arena_room s a - new_capacity (part_capacity d) * 48"
    and "\<forall>x. arena_base s a \<le> x \<and> x < lo \<longrightarrow> mem s1 x = mem s x"
    and "in_arena_only a s s1"
proof -
  define nc where "nc = (if part_capacity d \<noteq> 0 then part_capacity d * 2 else 8)"
  define bytes where "bytes = sizeof_sys_partition * nc"
  have "arena_room s a < 18446744073709551616" using arena.bounds [OF ok(1)] by simp
  then have u: "unat nc = new_capacity (part_capacity d)" "unat bytes = new_capacity (part_capacity d) * 48"
    using room unat_new_capacity [of "part_capacity d"] by (auto simp: nc_def bytes_def)
  have fit: "unat bytes \<le> arena_room s a" using room u by simp
  have lo: "arena_base s a \<le> lo" "lo \<le> arena_top s a" using ok(2) by (auto simp: disk_ok_def)
  show ?thesis
  proof (cases "part_capacity d = 0")
    case True
    obtain np s1 where s1: "arena_alloc s a bytes = Inr (np, s1)" "np \<noteq> 0" "unat np = arena_top s a"
        "arena_ok s1 a" "regions s1 = regions s" "arena_base s1 a = arena_base s a"
        "arena_top s1 a = arena_top s a + unat bytes" "arena_room s1 a = arena_room s a - unat bytes"
        "\<forall>x. arena_base s a \<le> x \<and> x < arena_top s a \<longrightarrow> mem s1 x = mem s x"
        "\<forall>x. x < unat a \<or> arena_top s a + arena_room s a \<le> x \<longrightarrow> mem s1 x = mem s x"
      using arena.fresh_block [OF ok(1) fit] by metis
    have only: "in_arena_only a s s1" using s1 fit by (simp add: in_arena_only_def)
    let ?d = "d\<lparr>partitions := np, part_capacity := nc\<rparr>"
    have "disk_grow s d a = Inr (Some ?d, s1)"
      using s1(1,2) full True by (simp add: disk_grow_def bytes_def nc_def)
    moreover have "disk_ok s1 a lo ?d" "disk_parts s1 ?d = disk_parts s d"
      using s1 u lo full True by (auto simp: disk_ok_def disk_parts_def)
    ultimately show ?thesis using that [of ?d s1] s1 u lo only by auto
  next
    case False
    have p: "lo \<le> unat (partitions d)" "unat (partitions d) + unat (part_count d) * 48 \<le> arena_top s a"
      using ok(2) False full by (auto simp: disk_ok_def)
    have len: "unat (part_count d * sizeof_sys_partition) = unat (part_count d) * 48"
      using p(2) arena.bounds [OF ok(1)] by (subst unat_mult_nowrap) (auto simp: sizeof_sys_partition_def)
    have le: "unat (part_count d) * 48 \<le> unat bytes" using u full False by (simp add: new_capacity_def)
    obtain np s1 s2 where s2: "arena_alloc s a bytes = Inr (np, s1)" "np \<noteq> 0" "unat np = arena_top s a"
        "memmove s1 np (partitions d) (part_count d * sizeof_sys_partition) = Inr s2"
        "arena_ok s2 a" "regions s2 = regions s" "arena_base s2 a = arena_base s a"
        "arena_top s2 a = arena_top s a + unat bytes" "arena_room s2 a = arena_room s a - unat bytes"
        "array_at 48 de_partition (mem s2) (unat np) (unat (part_count d)) =
         array_at 48 de_partition (mem s) (unat (partitions d)) (unat (part_count d))"
        "\<forall>x. arena_base s a \<le> x \<and> x < arena_top s a \<longrightarrow> mem s2 x = mem s x"
        "\<forall>x. x < unat a \<or> arena_top s a + arena_room s a \<le> x \<longrightarrow> mem s2 x = mem s x"
      using parts.move_array [OF ok(1) order_trans [OF lo(1) p(1)] p(2) fit le len] by metis
    have only: "in_arena_only a s s2" using s2 fit by (simp add: in_arena_only_def)
    let ?d = "d\<lparr>partitions := np, part_capacity := nc\<rparr>"
    have "partitions d \<noteq> 0" using p(1) lo(1) arena.bounds [OF ok(1)] by auto
    moreover have "0 < part_count d" using full False by (simp add: word_gt_0)
    ultimately have "disk_grow s d a = Inr (Some ?d, s2)"
      using s2(1,2,4) full by (simp add: disk_grow_def flip: nc_def bytes_def)
    moreover have "disk_ok s2 a lo ?d" "disk_parts s2 ?d = disk_parts s d"
      using s2 u lo full False
      by (auto simp: disk_ok_def disk_parts_def new_capacity_def word_le_nat_alt)
    ultimately show ?thesis using that [of ?d s2] s2 u lo only by auto
  qed
qed

text \<open>The state of a disk after a push: the abstract list grows by one element.\<close>

definition push_room :: "sys_disk \<Rightarrow> nat" where
  "push_room d = (if part_count d = part_capacity d then new_capacity (part_capacity d) * 48 else 0)"

definition pushed_capacity :: "sys_disk \<Rightarrow> nat" where
  "pushed_capacity d =
     (if part_count d = part_capacity d then new_capacity (part_capacity d)
      else unat (part_capacity d))"

lemma disk_append:
  assumes ok: "arena_ok s a" "disk_ok s a lo d" and lt: "part_count d < part_capacity d"
    and wf: "wf_partition p"
  obtains s' where "memcpy s (partitions d + part_count d * sizeof_sys_partition) (en_partition p) = Inr s'"
    and "arena_ok s' a" and "disk_ok s' a lo (d\<lparr>part_count := part_count d + 1\<rparr>)"
    and "regions s' = regions s" and "arena_base s' a = arena_base s a"
    and "arena_room s' a = arena_room s a"
    and "disk_parts s' (d\<lparr>part_count := part_count d + 1\<rparr>) = disk_parts s d @ [p]"
    and "\<forall>x. arena_base s a \<le> x \<and> x < lo \<longrightarrow> mem s' x = mem s x"
    and "in_arena_only a s s'"
proof -
  let ?d = "d\<lparr>part_count := part_count d + 1\<rparr>"
  let ?q = "partitions d + part_count d * sizeof_sys_partition"
  have c: "unat (part_count d) < unat (part_capacity d)" using lt by (simp add: word_less_nat_alt)
  then have "part_capacity d \<noteq> 0" by auto
  then have p: "arena_base s a \<le> lo" "lo \<le> arena_top s a" "lo \<le> unat (partitions d)"
      "unat (partitions d) + unat (part_capacity d) * 48 \<le> arena_top s a"
    using ok(2) by (auto simp: disk_ok_def)
  have count: "unat (part_count d + 1) = Suc (unat (part_count d))"
    using c unat_less_2_64 [of "part_capacity d"] by (simp add: unat_add_nowrap)
  have top: "unat (partitions d) + Suc (unat (part_count d)) * 48 \<le> arena_top s a" using c p(4) by simp
  then have bound: "unat (partitions d) + unat (part_count d) * 48 < 18446744073709551616"
    using arena.bounds [OF ok(1)] by simp
  then have "unat (part_count d * sizeof_sys_partition) = unat (part_count d) * 48"
    by (subst unat_mult_nowrap) (auto simp: sizeof_sys_partition_def)
  then have q: "unat ?q = unat (partitions d) + unat (part_count d) * 48"
    using bound by (simp add: unat_add_nowrap)
  obtain s' where s': "memcpy s ?q (en_partition p) = Inr s'" "arena_ok s' a" "regions s' = regions s"
      "arena_base s' a = arena_base s a" "arena_top s' a = arena_top s a"
      "arena_room s' a = arena_room s a"
      "array_at 48 de_partition (mem s') (unat (partitions d)) (Suc (unat (part_count d))) =
       array_at 48 de_partition (mem s) (unat (partitions d)) (unat (part_count d)) @ [p]"
      "\<forall>y. y < unat (partitions d) + unat (part_count d) * 48 \<or>
           unat (partitions d) + Suc (unat (part_count d)) * 48 \<le> y \<longrightarrow> mem s' y = mem s y"
    using parts.append_elem [OF ok(1) order_trans [OF p(1,3)] top wf q] by metis
  have "disk_ok s' a lo ?d" using s' p c count ok(2) by (auto simp: disk_ok_def word_le_nat_alt)
  moreover have "disk_parts s' ?d = disk_parts s d @ [p]" using s'(7) count by (simp add: disk_parts_def)
  moreover have "\<forall>x. arena_base s a \<le> x \<and> x < lo \<longrightarrow> mem s' x = mem s x" using s'(8) p(3) by auto
  moreover have "in_arena_only a s s'"
    using s' p(1,3) top arena.bounds [OF ok(1)] by (auto simp: in_arena_only_def)
  ultimately show ?thesis using that s' by blast
qed

lemma disk_push_fits:
  assumes ok: "arena_ok s a" "disk_ok s a lo d" and wf: "wf_partition p"
    and room: "push_room d \<le> arena_room s a"
  obtains d' s' where "disk_push_partition s d p a = Inr (d', s')"
    and "arena_ok s' a" and "disk_ok s' a lo d'" and "regions s' = regions s"
    and "arena_base s' a = arena_base s a" and "arena_room s' a = arena_room s a - push_room d"
    and "disk_parts s' d' = disk_parts s d @ [p]"
    and "unat (part_count d') = Suc (unat (part_count d))"
    and "unat (part_capacity d') = pushed_capacity d"
    and "\<forall>x. arena_base s a \<le> x \<and> x < lo \<longrightarrow> mem s' x = mem s x"
    and "in_arena_only a s s'"
proof -
  obtain d1 s1 where s1: "disk_grow s d a = Inr (Some d1, s1)" "arena_ok s1 a" "disk_ok s1 a lo d1"
      "regions s1 = regions s" "part_count d1 = part_count d"
      "unat (part_capacity d1) = pushed_capacity d" "disk_parts s1 d1 = disk_parts s d"
      "arena_base s1 a = arena_base s a" "arena_room s1 a = arena_room s a - push_room d"
      "\<forall>x. arena_base s a \<le> x \<and> x < lo \<longrightarrow> mem s1 x = mem s x" "in_arena_only a s s1"
  proof (cases "part_count d = part_capacity d")
    case True
    then show ?thesis
      using that disk_grow_full [OF ok True] room by (auto simp: push_room_def pushed_capacity_def)
  next
    case False
    then show ?thesis using that [of d s] ok in_arena_only_refl [OF ok(1)]
      by (simp add: disk_grow_def push_room_def pushed_capacity_def)
  qed
  have lt: "unat (part_count d) < pushed_capacity d"
  proof (cases "part_count d = part_capacity d")
    case False
    then have "part_count d < part_capacity d" using ok(2) by (auto simp: disk_ok_def)
    then show ?thesis using False by (simp add: pushed_capacity_def word_less_nat_alt)
  qed (simp add: pushed_capacity_def new_capacity_def unat_gt_0)
  then have lt1: "part_count d1 < part_capacity d1" using s1(5,6) by (simp add: word_less_nat_alt)
  have count: "unat (part_count d1 + 1) = Suc (unat (part_count d))"
    using lt s1(5,6) unat_less_2_64 [of "part_capacity d1"] by (simp add: unat_add_nowrap)
  let ?d = "d1\<lparr>part_count := part_count d1 + 1\<rparr>"
  obtain s' where s': "memcpy s1 (partitions d1 + part_count d1 * sizeof_sys_partition) (en_partition p) = Inr s'"
      "arena_ok s' a" "disk_ok s' a lo ?d" "regions s' = regions s1" "arena_base s' a = arena_base s1 a"
      "arena_room s' a = arena_room s1 a" "disk_parts s' ?d = disk_parts s1 d1 @ [p]"
      "\<forall>x. arena_base s1 a \<le> x \<and> x < lo \<longrightarrow> mem s' x = mem s1 x" "in_arena_only a s1 s'"
    using disk_append [OF s1(2,3) lt1 wf] by metis
  have "disk_push_partition s d p a = Inr (?d, s')"
    using s1(1) s'(1) by (simp add: disk_push_partition_def)
  then show ?thesis using that [of ?d s'] s1 s' count in_arena_only_trans [OF s1(11) s'(9)] by simp
qed

text \<open>A full array and no memory for a larger one: the partition is dropped, nothing changes.\<close>

lemma disk_push_no_memory:
  assumes "arena_ok s a" and "part_count d = part_capacity d"
    and "arena_room s a < new_capacity (part_capacity d) * 48"
    and "unat (current_position (arena_at s a)) + new_capacity (part_capacity d) * 48 < 18446744073709551616"
  shows "disk_push_partition s d p a = Inr (d, s)"
proof -
  let ?n = "sizeof_sys_partition * (if part_capacity d \<noteq> 0 then part_capacity d * 2 else 8)"
  have "unat ?n = new_capacity (part_capacity d) * 48"
    using unat_new_capacity [of "part_capacity d"] assms(4) by simp
  then have "arena_alloc s a ?n = Inr (0, s)"
    using assms by (intro arena_alloc_full) simp_all
  then show ?thesis using assms(2) by (simp add: disk_push_partition_def disk_grow_def Let_def)
qed

text \<open>An arena of at most \<open>2 ^ 61\<close> bytes, the range in which doubling an array cannot wrap.\<close>

definition moderate :: "os \<Rightarrow> u64 \<Rightarrow> bool" where
  "moderate s a \<longleftrightarrow> list_all (\<lambda>(b, l). b = unat a \<longrightarrow> l \<le> 2305843009213693952) (regions s)"

lemma moderate_capacity:
  "arena_ok s a \<Longrightarrow> moderate s a \<Longrightarrow> unat (capacity (arena_at s a)) \<le> 2305843009213693952"
  by (auto simp: arena_ok_def moderate_def list_all_iff)

lemma moderate_regions: "regions s' = regions s \<Longrightarrow> moderate s' a = moderate s a"
  by (simp add: moderate_def)

text \<open>The array is full and the arena has no memory for a larger one.\<close>

definition disk_full :: "os \<Rightarrow> u64 \<Rightarrow> sys_disk \<Rightarrow> bool" where
  "disk_full s a d \<longleftrightarrow> part_count d = part_capacity d \<and> arena_room s a < new_capacity (part_capacity d) * 48"

lemma disk_full_iff: "disk_full s a d \<longleftrightarrow> arena_room s a < push_room d"
  by (auto simp: disk_full_def push_room_def)

lemma disk_push_full:
  assumes ok: "arena_ok s a" "disk_ok s a lo d" and small: "moderate s a" and full: "disk_full s a d"
  shows "disk_push_partition s d p a = Inr (d, s)"
proof -
  have cap: "unat (capacity (arena_at s a)) \<le> 2305843009213693952"
    by (rule moderate_capacity [OF ok(1) small])
  have "unat (part_capacity d) * 48 \<le> unat (capacity (arena_at s a))"
    using ok(2) arena_capacity [OF ok(1)] arena.bounds [OF ok(1)] by (auto simp: disk_ok_def)
  then have "new_capacity (part_capacity d) * 48 \<le> 4611686018427387904" using cap by (simp add: new_capacity_def)
  then show ?thesis
    using arena_cur_le [OF ok(1)] cap full unfolding disk_full_def
    by (intro disk_push_no_memory [OF ok(1)]) simp_all
qed

text \<open>So a push returns in every case: the element is appended, or the array is full and it is dropped.\<close>

lemma disk_push_returns:
  assumes ok: "arena_ok s a" "disk_ok s a lo d" and wf: "wf_partition p" and small: "moderate s a"
    and room: "\<not> disk_full s a d"
  obtains d' s' where "disk_push_partition s d p a = Inr (d', s')" and "arena_ok s' a"
    and "disk_ok s' a lo d'" and "regions s' = regions s" and "arena_base s' a = arena_base s a"
    and "disk_parts s' d' = disk_parts s d @ [p]"
    and "\<forall>x. arena_base s a \<le> x \<and> x < lo \<longrightarrow> mem s' x = mem s x"
    and "in_arena_only a s s'"
proof -
  have "push_room d \<le> arena_room s a" using room by (simp add: disk_full_iff)
  from disk_push_fits [OF ok wf this] that show ?thesis by metis
qed

end
