(* ===== verification/Disk_Read.thy ===== *)
theory Disk_Read
  imports Disk Arena_Life
begin

text \<open>
  What \<open>disk_read\<close> makes of a file. \<open>line_partition\<close> is the partition a line describes;
  \<open>disk_read\<close> appends the partitions of all lines that describe one, in order, and on the text the
  kernel writes to \<open>/proc/partitions\<close> these are the kernel's partitions.
\<close>

section \<open>Lines\<close>

definition fixed_name :: "nat \<Rightarrow> string \<Rightarrow> char list" where
  "fixed_name n s = take (n - 1) s @ replicate (n - length (take (n - 1) s)) NUL"

definition line_partition :: "string \<Rightarrow> sys_partition option" where
  "line_partition buf = map_option (\<lambda>(ma, mi, bl, nm).
     \<lparr>blocks = bl, major = ma, minor = mi, part_name = fixed_name 32 nm\<rparr>) (scan_partition buf)"

definition file_partitions :: "char list \<Rightarrow> sys_partition list" where
  "file_partitions f = List.map_filter line_partition (fgets_lines BUFF_DEFAULT f)"

lemma length_fixed_name: "0 < n \<Longrightarrow> length (fixed_name n s) = n"
  by (simp add: fixed_name_def)

lemma wf_line_partition: "line_partition buf = Some p \<Longrightarrow> wf_partition p"
  by (auto simp: line_partition_def wf_partition_def length_fixed_name)

lemma copy_name:
  assumes "len = (if length nm \<ge> 32 then 31 else length nm)"
  shows "andthen (buf_copy (replicate 32 NUL) (take len nm)) (\<lambda>b. buf_set b len NUL) =
    Inr (fixed_name 32 nm)"
proof -
  have len: "length (take len nm) = len" "take len nm = take 31 nm" "len < 32"
    using assms by auto
  have "NUL # replicate (31 - len) NUL = replicate (32 - len) NUL"
    using len(3) by (simp flip: replicate_Suc add: Suc_diff_le)
  then show ?thesis
    using buf_copy_terminated [of "take len nm" "replicate 32 NUL"] len
    by (simp add: fixed_name_def)
qed

lemma disk_read_lines_Cons:
  "disk_read_lines (buf # bufs) s d a = (case line_partition buf of
     None \<Rightarrow> disk_read_lines bufs s d a
   | Some p \<Rightarrow> andthen (disk_push_partition s d p a) (\<lambda>(d, s). disk_read_lines bufs s d a))"
proof (cases "scan_partition buf")
  case (Some q)
  obtain ma mi bl nm where q: "q = (ma, mi, bl, nm)" by (cases q)
  show ?thesis
    using Some copy_name [OF refl, of nm]
    by (simp add: q line_partition_def Let_def flip: andthen_assoc)
qed (simp add: line_partition_def)

declare disk_read_lines.simps(2) [simp del]

text \<open>The potential that pays for the moves: each doubling spends as much room as the larger
  array adds.\<close>

lemma disk_read_lines_run:
  assumes "arena_ok s a" and "disk_ok s a lo d"
    and "192 * (unat (part_count d) + length (List.map_filter line_partition bufs)) + 384
         \<le> arena_room s a + 96 * unat (part_capacity d)"
  shows "\<exists>d' s'. disk_read_lines bufs s d a = Inr (d', s') \<and> arena_ok s' a \<and> disk_ok s' a lo d' \<and>
    regions s' = regions s \<and> arena_base s' a = arena_base s a \<and>
    disk_parts s' d' = disk_parts s d @ List.map_filter line_partition bufs \<and>
    (\<forall>x. arena_base s a \<le> x \<and> x < lo \<longrightarrow> mem s' x = mem s x)"
  using assms
proof (induction bufs arbitrary: s d)
  case Nil
  then show ?case by (auto simp: map_filter_simps)
next
  case (Cons buf bufs)
  show ?case
  proof (cases "line_partition buf")
    case None
    then show ?thesis using Cons by (simp add: disk_read_lines_Cons map_filter_simps)
  next
    case (Some p)
    let ?n = "length (List.map_filter line_partition bufs)"
    have need: "192 * (unat (part_count d) + Suc ?n) + 384 \<le> arena_room s a + 96 * unat (part_capacity d)"
      using Cons.prems(3) Some by (simp add: map_filter_simps)
    have room: "push_room d \<le> arena_room s a"
      using need by (auto simp: push_room_def new_capacity_def)
    obtain d1 s1 where s1: "disk_push_partition s d p a = Inr (d1, s1)" "arena_ok s1 a"
        "disk_ok s1 a lo d1" "regions s1 = regions s" "arena_base s1 a = arena_base s a"
        "arena_room s1 a = arena_room s a - push_room d" "disk_parts s1 d1 = disk_parts s d @ [p]"
        "unat (part_count d1) = Suc (unat (part_count d))" "unat (part_capacity d1) = pushed_capacity d"
        "\<forall>x. arena_base s a \<le> x \<and> x < lo \<longrightarrow> mem s1 x = mem s x"
      using disk_push_fits [OF Cons.prems(1,2) wf_line_partition [OF Some] room] by metis
    have "192 * (unat (part_count d1) + ?n) + 384 \<le> arena_room s1 a + 96 * unat (part_capacity d1)"
      using need room s1(6,8,9) by (auto simp: push_room_def pushed_capacity_def new_capacity_def)
    from Cons.IH [OF s1(2,3) this] s1 Some show ?thesis
      by (auto simp: disk_read_lines_Cons map_filter_simps)
  qed
qed

text \<open>Without any promise about room the reader still returns, with a well-formed array: once the array is
  full, every further partition is dropped.\<close>

lemma disk_read_lines_full:
  assumes "arena_ok s a" and "disk_ok s a lo d" and "moderate s a" and "disk_full s a d"
  shows "disk_read_lines bufs s d a = Inr (d, s)"
  by (induction bufs)
    (auto simp: disk_read_lines_Cons disk_push_full [OF assms] split: option.splits)

lemma disk_read_lines_returns:
  assumes "arena_ok s a" and "disk_ok s a lo d" and "moderate s a"
  obtains d' s' n where "disk_read_lines bufs s d a = Inr (d', s')" and "arena_ok s' a"
    and "disk_ok s' a lo d'" and "regions s' = regions s" and "arena_base s' a = arena_base s a"
    and "\<forall>x. arena_base s a \<le> x \<and> x < lo \<longrightarrow> mem s' x = mem s x"
    and "disk_parts s' d' = disk_parts s d @ take n (List.map_filter line_partition bufs)"
    and "length (List.map_filter line_partition bufs) \<le> n \<or> disk_full s' a d'"
    and "in_arena_only a s s'"
  using assms
proof (induction bufs arbitrary: s d thesis)
  case Nil
  show ?case by (rule Nil.prems(1) [of d s 0]) (use Nil.prems in_arena_only_refl in \<open>simp_all add: map_filter_simps\<close>)
next
  case (Cons buf bufs)
  show ?case
  proof (cases "line_partition buf")
    case None
    show ?thesis
      by (rule Cons.IH [OF _ Cons.prems(2-4)])
        (rule Cons.prems(1), simp_all add: disk_read_lines_Cons None map_filter_simps)
  next
    case (Some p)
    show ?thesis
    proof (cases "disk_full s a d")
      case True
      show ?thesis
        by (rule Cons.prems(1) [of d s 0])
          (use Cons.prems True disk_read_lines_full [OF Cons.prems(2-4) True] in_arena_only_refl in simp_all)
    next
      case False
      obtain d1 s1 where s1: "disk_push_partition s d p a = Inr (d1, s1)" "arena_ok s1 a"
          "disk_ok s1 a lo d1" "regions s1 = regions s" "arena_base s1 a = arena_base s a"
          "disk_parts s1 d1 = disk_parts s d @ [p]"
          "\<forall>x. arena_base s a \<le> x \<and> x < lo \<longrightarrow> mem s1 x = mem s x" "in_arena_only a s s1"
        by (rule disk_push_returns [OF Cons.prems(2,3) wf_line_partition [OF Some] Cons.prems(4) False])
      have m: "moderate s1 a" using Cons.prems(4) moderate_regions [OF s1(4)] by simp
      obtain d2 s2 n where s2: "disk_read_lines bufs s1 d1 a = Inr (d2, s2)" "arena_ok s2 a"
          "disk_ok s2 a lo d2" "regions s2 = regions s1" "arena_base s2 a = arena_base s1 a"
          "\<forall>x. arena_base s1 a \<le> x \<and> x < lo \<longrightarrow> mem s2 x = mem s1 x"
          "disk_parts s2 d2 = disk_parts s1 d1 @ take n (List.map_filter line_partition bufs)"
          "length (List.map_filter line_partition bufs) \<le> n \<or> disk_full s2 a d2" "in_arena_only a s1 s2"
        by (rule Cons.IH [OF _ s1(2,3) m])
      show ?thesis
        by (rule Cons.prems(1) [of d2 s2 "Suc n", OF _ s2(2,3)])
          (use s1 s2 Some in_arena_only_trans [OF s1(8) s2(9)] in
            \<open>simp_all add: disk_read_lines_Cons map_filter_simps\<close>)
    qed
  qed
qed

section \<open>The kernel's text\<close>

definition pad_left :: "nat \<Rightarrow> string \<Rightarrow> string" where
  "pad_left w s = replicate (w - length s) (CHR '' '') @ s"

text \<open>The format of \<open>/proc/partitions\<close> in the kernel: a header, an empty line, and a line
  \<open>"%4d  %7d %10llu %s"\<close> per partition.\<close>

definition partition_text :: "sys_partition \<Rightarrow> string" where
  "partition_text p =
     pad_left 4 (show_nat (unat (major p))) @ ''  '' @ pad_left 7 (show_nat (unat (minor p))) @ '' '' @
     pad_left 10 (show_nat (unat (blocks p))) @ '' '' @ c_str (part_name p)"

definition partitions_header :: "string list" where
  "partitions_header = [''major minor  #blocks  name'', '''']"

text \<open>A device name: at most 31 characters, none of them blank, padded with zero bytes.\<close>

definition named_partition :: "sys_partition \<Rightarrow> bool" where
  "named_partition p \<longleftrightarrow>
     c_str (part_name p) \<noteq> [] \<and> length (c_str (part_name p)) < 32 \<and>
     list_all (\<lambda>c. \<not> c_isspace c) (c_str (part_name p)) \<and>
     part_name p = fixed_name 32 (c_str (part_name p))"

lemma named_partitionD:
  assumes "named_partition p"
  shows "c_str (part_name p) \<noteq> []" "length (c_str (part_name p)) < 32"
    "\<forall>c \<in> set (c_str (part_name p)). \<not> c_isspace c"
    "fixed_name 32 (c_str (part_name p)) = part_name p"
  using assms unfolding named_partition_def list_all_iff by auto

lemma blanks: "list_all c_isspace (replicate n (CHR '' ''))"
  by (simp add: list_all_iff)

lemma scan_partition_text:
  assumes "named_partition p"
  shows "line_partition (partition_text p @ [NL]) = Some p"
proof -
  let ?nm = "c_str (part_name p)"
  let ?b = "\<lambda>n. replicate n (CHR '' '')"
  let ?r4 = "[NL]"
  let ?r3 = "'' '' @ ?nm @ ?r4"
  let ?r2 = "('' '' @ ?b (10 - length (show_nat (unat (blocks p))))) @ show_nat (unat (blocks p)) @ ?r3"
  let ?r1 = "(''  '' @ ?b (7 - length (show_nat (unat (minor p))))) @ show_nat (unat (minor p)) @ ?r2"
  have nm: "?nm \<noteq> []" "length ?nm \<le> 255" "\<forall>c \<in> set ?nm. \<not> c_isspace c"
    using named_partitionD(1,2,3) [OF assms] by simp_all
  have line: "partition_text p @ [NL] =
      ?b (4 - length (show_nat (unat (major p)))) @ show_nat (unat (major p)) @ ?r1"
    by (simp add: partition_text_def pad_left_def)
  have "scan_d (partition_text p @ [NL]) = Some (major p, ?r1)"
    unfolding line by (rule scan_d_show) (auto simp: blanks)
  moreover have "scan_d ?r1 = Some (minor p, ?r2)"
    by (rule scan_d_show) (auto simp: blanks)
  moreover have "scan_lu ?r2 = Some (blocks p, ?r3)"
    by (rule scan_lu_show) (auto simp: blanks)
  moreover have "scan_s 255 ?r3 = Some (?nm, ?r4)"
    using nm by (intro scan_s_word) auto
  ultimately have "scan_partition (partition_text p @ [NL]) = Some (major p, minor p, blocks p, ?nm)"
    by (simp add: scan_partition_def)
  then show ?thesis by (simp add: line_partition_def named_partitionD(4) [OF assms])
qed

lemma partition_text_line:
  assumes "named_partition p"
  shows "NL \<notin> set (partition_text p)" and "NUL \<notin> set (partition_text p)"
    and "length (partition_text p) + 2 \<le> 256"
proof -
  have nm: "length (c_str (part_name p)) < 32" "NL \<notin> set (c_str (part_name p))"
    using named_partitionD(2,3) [OF assms] c_isspace_chars(1) by blast+
  show "NL \<notin> set (partition_text p)" "NUL \<notin> set (partition_text p)"
    using nm(2) by (auto simp: partition_text_def pad_left_def not_in_show)
  show "length (partition_text p) + 2 \<le> 256"
    using nm(1) length_show_u32 [of "major p"] length_show_u32 [of "minor p"]
      length_show_u64 [of "blocks p"] by (simp add: partition_text_def pad_left_def)
qed

lemma header_no_partition: "line_partition (''major minor  #blocks  name'' @ [NL]) = None"
    "line_partition [NL] = None"
proof -
  have "scan_d (''major minor  #blocks  name'' @ [NL]) = None"
    unfolding append_Cons by (rule scan_d_None) (simp_all add: c_isspace_def is_digit_def)
  then show "line_partition (''major minor  #blocks  name'' @ [NL]) = None"
    by (simp add: line_partition_def scan_partition_def)
  have "scan_d [NL] = None" by (simp add: scan_d_def scan_ld_def skip_space_def scan_sign_def c_isspace_def)
  then show "line_partition [NL] = None" by (simp add: line_partition_def scan_partition_def)
qed

lemma file_partitions_kernel:
  assumes "list_all named_partition ps"
  shows "file_partitions (lines_text (partitions_header @ map partition_text ps)) = ps"
proof -
  have "list_all (\<lambda>u. NL \<notin> set u \<and> NUL \<notin> set u \<and> length u + 2 \<le> BUFF_DEFAULT)
      (partitions_header @ map partition_text ps)"
    using assms partition_text_line
    by (auto simp: list_all_iff partitions_header_def BUFF_DEFAULT_def)
  then have lines: "fgets_lines BUFF_DEFAULT (lines_text (partitions_header @ map partition_text ps)) =
      map (\<lambda>u. u @ [NL]) (partitions_header @ map partition_text ps)"
    by (rule fgets_lines_text)
  have "List.map_filter line_partition (map (\<lambda>p. partition_text p @ [NL]) ps) = ps"
    using assms by (induction ps) (simp_all add: map_filter_simps scan_partition_text)
  then show ?thesis
    unfolding file_partitions_def lines using header_no_partition
    by (simp add: partitions_header_def map_filter_simps o_def)
qed

section \<open>Properties\<close>

definition demo_partition :: sys_partition where
  "demo_partition = \<lparr>blocks = 500107608, major = 259, minor = 1,
     part_name = fixed_name 32 ''nvme0n1p1''\<rparr>"

definition zero_disk :: sys_disk where
  "zero_disk = \<lparr>partitions = 0, part_count = 0, part_capacity = 0\<rparr>"

text \<open>C10: \<open>disk_push_partition\<close> is an append: on a well-formed disk with memory left for a
  possible move, the array afterwards stands for the old list with the partition at its end, the
  disk and the arena are well formed again, and memory allocated below the array is untouched,
  whether the array had to be moved or not.\<close>

theorem disk_push_appends:
  assumes "arena_ok s a" and "disk_ok s a lo d" and "wf_partition p" and "push_room d \<le> arena_room s a"
  shows "\<exists>d' s'. disk_push_partition s d p a = Inr (d', s') \<and>
    disk_parts s' d' = disk_parts s d @ [p] \<and> disk_ok s' a lo d' \<and> arena_ok s' a \<and>
    regions s' = regions s \<and> unat (part_capacity d') = pushed_capacity d \<and>
    (\<forall>x. arena_base s a \<le> x \<and> x < lo \<longrightarrow> mem s' x = mem s x)"
  by (rule disk_push_fits [OF assms]) blast

lemma c_str_fixed_name:
  assumes "NUL \<notin> set s" and "length s < n"
  shows "c_str (fixed_name n s) = s"
proof -
  have "replicate (n - length s) NUL = NUL # replicate (n - length s - 1) NUL"
    using assms(2) by (cases "n - length s") simp_all
  then show ?thesis using assms by (simp add: fixed_name_def c_str_append_NUL)
qed

lemma demo_named: "named_partition demo_partition"
proof -
  have "c_str (part_name demo_partition) = ''nvme0n1p1''"
    unfolding demo_partition_def by (simp add: c_str_fixed_name)
  then show ?thesis by (simp add: named_partition_def) (simp add: demo_partition_def c_isspace_def)
qed

lemma demo_wf: "wf_partition demo_partition"
  by (simp add: wf_partition_def demo_partition_def length_fixed_name)

lemma disk_parts_zero [simp]: "disk_parts s zero_disk = []"
  by (simp add: disk_parts_def zero_disk_def)

lemma zero_disk_ok: "arena_ok s a \<Longrightarrow> disk_ok s a (arena_top s a) zero_disk"
  using arena.bounds [of s a] by (simp add: disk_ok_def zero_disk_def)

theorem disk_push_appends_witness:
  "\<exists>s d' s'. arena_ok s 4096 \<and> disk_push_partition s zero_disk demo_partition 4096 = Inr (d', s') \<and>
     disk_parts s' d' = [demo_partition] \<and> part_capacity d' = 8"
proof -
  obtain s where s: "arena_ok s 4096" "arena_room s 4096 = 1024"
    using page_arena [of 1024] by auto
  have room: "push_room zero_disk \<le> arena_room s 4096"
    using s(2) by (simp add: push_room_def zero_disk_def new_capacity_def)
  obtain d' s' where "disk_push_partition s zero_disk demo_partition 4096 = Inr (d', s')"
      "disk_parts s' d' = disk_parts s zero_disk @ [demo_partition]"
      "unat (part_capacity d') = pushed_capacity zero_disk"
    using disk_push_appends [OF s(1) zero_disk_ok [OF s(1)] demo_wf room] by blast
  moreover have "pushed_capacity zero_disk = unat (8 :: u64)"
    by (simp add: pushed_capacity_def zero_disk_def new_capacity_def)
  ultimately show ?thesis using s(1) by (auto simp: word_unat_eq_iff)
qed

text \<open>\<open>disk_read\<close> appends to the disk exactly the partitions described by the lines of the
  file, in order, and skips every other line, whatever the file holds; the array needs at most
  192 bytes of arena per partition and 384 more.\<close>

theorem disk_read_appends:
  assumes "arena_ok s a" and "disk_ok s a lo d"
    and "192 * (unat (part_count d) + length (file_partitions f)) + 384
         \<le> arena_room s a + 96 * unat (part_capacity d)"
  shows "\<exists>d' s'. disk_read (Some f) s (Some d) a = Inr (ERR_OK, d', s') \<and>
    disk_parts s' d' = disk_parts s d @ file_partitions f \<and> disk_ok s' a lo d' \<and> arena_ok s' a \<and>
    regions s' = regions s \<and> (\<forall>x. arena_base s a \<le> x \<and> x < lo \<longrightarrow> mem s' x = mem s x)"
  using disk_read_lines_run [OF assms(1,2), of "fgets_lines BUFF_DEFAULT f"] assms(3)
  by (fastforce simp: disk_read_def file_partitions_def)

text \<open>C12: \<open>disk_read\<close> returns for every file, in any arena of at most \<open>2 ^ 61\<close> bytes, however little room
  is left: it answers ERR_OK having appended the first partitions of the file, all of them unless
  the array became full and the arena could not hold a larger one; what lies below the array is
  untouched.\<close>

theorem disk_read_prefix:
  assumes "arena_ok s a" and "disk_ok s a lo d" and "moderate s a"
  shows "\<exists>d' s' n. disk_read (Some f) s (Some d) a = Inr (ERR_OK, d', s') \<and>
    disk_parts s' d' = disk_parts s d @ take n (file_partitions f) \<and>
    (length (file_partitions f) \<le> n \<or> disk_full s' a d') \<and>
    disk_ok s' a lo d' \<and> arena_ok s' a \<and> regions s' = regions s \<and>
    (\<forall>x. arena_base s a \<le> x \<and> x < lo \<longrightarrow> mem s' x = mem s x)"
proof -
  obtain d' s' n where
    "disk_read_lines (fgets_lines BUFF_DEFAULT f) s d a = Inr (d', s')" "arena_ok s' a" "disk_ok s' a lo d'"
    "regions s' = regions s" "\<forall>x. arena_base s a \<le> x \<and> x < lo \<longrightarrow> mem s' x = mem s x"
    "disk_parts s' d' = disk_parts s d @ take n (file_partitions f)"
    "length (file_partitions f) \<le> n \<or> disk_full s' a d'"
    by (rule disk_read_lines_returns [OF assms, of "fgets_lines BUFF_DEFAULT f", folded file_partitions_def])
      (rule that)
  then show ?thesis by (intro exI [of _ d'] exI [of _ s'] exI [of _ n]) (simp add: disk_read_def)
qed

text \<open>An arena of 256 bytes has no room for the first array of 384: the partition is lost.\<close>

theorem disk_read_prefix_witness:
  "\<exists>s d' s'. arena_ok s 4096 \<and>
     disk_read (Some (lines_text (partitions_header @ map partition_text [demo_partition]))) s
       (Some zero_disk) 4096 = Inr (ERR_OK, d', s') \<and> disk_parts s' d' = [] \<and> disk_full s' 4096 d'"
proof -
  have "unat (256 :: u64) < 18446744073709547488" by simp
  from page_arena [OF this] obtain s where s: "arena_ok s 4096" "arena_room s 4096 = 256"
      "regions s = [(4096, 256 + 32)]" by auto
  have m: "moderate s 4096" by (simp add: moderate_def s(3))
  have full: "disk_full s 4096 zero_disk" by (simp add: disk_full_def s(2) zero_disk_def new_capacity_def)
  let ?f = "lines_text (partitions_header @ map partition_text [demo_partition])"
  have f: "file_partitions ?f = [demo_partition]" by (rule file_partitions_kernel) (simp add: demo_named)
  obtain d' s' n where r: "disk_read (Some ?f) s (Some zero_disk) 4096 = Inr (ERR_OK, d', s')"
      "disk_parts s' d' = disk_parts s zero_disk @ take n (file_partitions ?f)"
      "length (file_partitions ?f) \<le> n \<or> disk_full s' 4096 d'"
    using disk_read_prefix [OF s(1) zero_disk_ok [OF s(1)] m, of ?f] by blast
  have "d' = zero_disk" using r(1) disk_read_lines_full [OF s(1) zero_disk_ok [OF s(1)] m full]
    by (simp add: disk_read_def)
  then show ?thesis using r s(1) f by auto
qed

text \<open>C11: reading what the kernel writes to \<open>/proc/partitions\<close> gives back the kernel's
  partitions: numbers, names and order, with the header and the empty line skipped.\<close>

theorem disk_read_kernel_partitions:
  assumes "arena_ok s a" and "list_all named_partition ps"
    and "192 * length ps + 384 \<le> arena_room s a"
  shows "\<exists>d' s'. disk_read (Some (lines_text (partitions_header @ map partition_text ps))) s
      (Some zero_disk) a = Inr (ERR_OK, d', s') \<and> disk_parts s' d' = ps"
proof -
  let ?f = "lines_text (partitions_header @ map partition_text ps)"
  have "192 * (unat (part_count zero_disk) + length (file_partitions ?f)) + 384
      \<le> arena_room s a + 96 * unat (part_capacity zero_disk)"
    using assms(3) by (simp add: file_partitions_kernel [OF assms(2)] zero_disk_def)
  with disk_read_lines_run [OF assms(1) zero_disk_ok [OF assms(1)], of "fgets_lines BUFF_DEFAULT ?f"]
  show ?thesis
    using file_partitions_kernel [OF assms(2)] by (fastforce simp: disk_read_def file_partitions_def)
qed

theorem disk_read_kernel_partitions_witness:
  "\<exists>s d' s'. arena_ok s 4096 \<and>
     disk_read (Some (lines_text (partitions_header @ map partition_text [demo_partition, demo_partition])))
       s (Some zero_disk) 4096 = Inr (ERR_OK, d', s') \<and>
     disk_parts s' d' = [demo_partition, demo_partition]"
proof -
  obtain s where s: "arena_ok s 4096" "arena_room s 4096 = 1024"
    using page_arena [of 1024] by auto
  show ?thesis
    using disk_read_kernel_partitions [OF s(1), of "[demo_partition, demo_partition]"] demo_named s
    by auto
qed

text \<open>When the array is full and the arena has no memory for a larger one,
  \<open>disk_push_partition\<close> drops the partition without a sign: disk and memory stay as they are.\<close>

theorem disk_push_drops:
  assumes "arena_ok s a" and "part_count d = part_capacity d"
    and "arena_room s a < new_capacity (part_capacity d) * 48"
    and "unat (current_position (arena_at s a)) + new_capacity (part_capacity d) * 48 < 18446744073709551616"
  shows "disk_push_partition s d p a = Inr (d, s)"
  by (rule disk_push_no_memory [OF assms])

end
