(* ===== verification/Cpu.thy ===== *)
theory Cpu
  imports Resources Arena Parse
begin

text \<open>
  The CPU readers of \<open>libres/resources.cc\<close>. The structure is passed by value, a NULL pointer is
  \<^const>\<open>None\<close>; the file system gives the contents of each path. Loops of the AArch64 reader may
  not end, so its operations return an option, with \<^const>\<open>None\<close> for a run that does not return.
\<close>

section \<open>Operations\<close>



datatype arch = AArch64 | X86_64

definition cpu_create :: "os \<Rightarrow> u64 \<Rightarrow> (u64 \<times> os) run" where
  "cpu_create s m = arena_alloc s m sizeof_sys_cpu"

subsection \<open>AArch64\<close>

definition scaling_path :: "i8 \<Rightarrow> string" where
  "scaling_path i = take (PATH_MAX_LEN - 1)
     (''/sys/devices/system/cpu/cpu'' @ show_int (sint i) @ ''/cpufreq/scaling_cur_freq'')"

text \<open>\<open>for (i8 i = 0; i <= enabled_cpu_count; i++)\<close>: the counter is a signed byte that wraps.\<close>

partial_function (option) core_paths :: "i32 \<Rightarrow> i8 \<Rightarrow> string option \<Rightarrow> string option option" where
  "core_paths enabled i path =
     (if sint i \<le> sint enabled then core_paths enabled (i + 1) (Some (scaling_path i))
      else Some path)"

definition cpu_read_enabled_core_cpu_frequency ::
  "files \<Rightarrow> sys_cpu option \<Rightarrow> i32 \<Rightarrow> (err_code \<times> sys_cpu option) run option" where
  "cpu_read_enabled_core_cpu_frequency fs out enabled = (case out of
     None \<Rightarrow> Some (Inr (ERR_INVALID, None))
   | Some c \<Rightarrow> map_option (\<lambda>path. case path of
         None \<Rightarrow> Inl Uninitialised
       | Some p \<Rightarrow> (case fs p of
           None \<Rightarrow> Inl Assertion_failed
         | Some f \<Rightarrow> (case scan_lu f of
             None \<Rightarrow> Inl Assertion_failed
           | Some (freq, _) \<Rightarrow>
               let t = take 15 (show_nat (unat freq)) in
               andthen (buf_copy (frequency c) (t @ [NUL])) (\<lambda>b.
               Inr (ERR_OK, Some (c\<lparr>frequency := b\<rparr>))))))
       (core_paths enabled 0 None))"

definition cpu_read_cpu_model_name_arm64 :: "files \<Rightarrow> sys_cpu option \<Rightarrow> (err_code \<times> sys_cpu) run" where
  "cpu_read_cpu_model_name_arm64 fs out = (case fs ''/proc/device-tree/model'' of
     None \<Rightarrow> Inl Assertion_failed
   | Some f \<Rightarrow>
       let buffer = take BUFF_DEFAULT f; n = length buffer in
       if n = 0 then Inl Assertion_failed
       else let len = length (takeWhile (\<lambda>c. c \<noteq> NUL) buffer) in
         (case out of None \<Rightarrow> Inl Segfault
          | Some c \<Rightarrow>
              andthen (buf_copy (model c) (take len buffer)) (\<lambda>b.
              andthen (buf_set b len NUL) (\<lambda>b.
              Inr (ERR_OK, c\<lparr>model := b\<rparr>)))))"

text \<open>The inner loop, \<open>v = v * 10 + (*p++ - '0')\<close> on an \<open>int\<close>.\<close>

fun read_int :: "string \<Rightarrow> int \<Rightarrow> int run" where
  "read_int [] v = Inr v"
| "read_int (c # cs) v =
     (if \<not> is_digit c then Inr v
      else let v' = v * 10 + int (digit_value c) in
        if v' > 2147483647 then Inl Signed_overflow else read_int cs v')"

function max_number :: "string \<Rightarrow> int \<Rightarrow> int run" where
  "max_number [] m = Inr m"
| "max_number (c # cs) m =
     (if is_digit c
      then andthen (read_int (c # cs) 0) (\<lambda>v.
        max_number (dropWhile is_digit (c # cs)) (if v > m then v else m))
      else max_number cs m)"
  by pat_completeness auto
termination
  by (relation "measure (\<lambda>(p, m). length p)") (auto simp: le_imp_less_Suc length_dropWhile_le)

definition cpu_get_cores_enabled_arm :: "files \<Rightarrow> sys_cpu option \<Rightarrow> (err_code \<times> sys_cpu) run" where
  "cpu_get_cores_enabled_arm fs out = (case out of
     None \<Rightarrow> Inl Assertion_failed
   | Some c \<Rightarrow> (case fs ''/sys/devices/system/cpu/enabled'' of
       None \<Rightarrow> Inl Assertion_failed
     | Some f \<Rightarrow> (case fgets BUFF_DEFAULT f of
         None \<Rightarrow> Inl Assertion_failed
       | Some (buf, _) \<Rightarrow>
           andthen (max_number buf 0) (\<lambda>m. Inr (ERR_OK, c\<lparr>cores := word_of_int m\<rparr>)))))"

definition cpu_read_arm64 :: "files \<Rightarrow> sys_cpu option \<Rightarrow> (err_code \<times> sys_cpu) run option" where
  "cpu_read_arm64 fs out = (case out of
     None \<Rightarrow> Some (Inl Assertion_failed)
   | Some c \<Rightarrow> (case andthen (cpu_get_cores_enabled_arm fs (Some c)) (\<lambda>(_, c1).
                   cpu_read_cpu_model_name_arm64 fs (Some c1)) of
       Inl e \<Rightarrow> Some (Inl e)
     | Inr (_, c2) \<Rightarrow>
         map_option (\<lambda>r. andthen r (\<lambda>(_, c3). case c3 of
             None \<Rightarrow> Inr (ERR_OK, c2) | Some c3 \<Rightarrow> Inr (ERR_OK, c3)))
           (cpu_read_enabled_core_cpu_frequency fs (Some c2) (cores c2))))"

subsection \<open>x86-64\<close>

text \<open>The text after the colon and the blanks that follow it, up to the end of the line.\<close>

definition line_value :: "string \<Rightarrow> string option" where
  "line_value buf = (case strchr buf (CHR '':'') of
     None \<Rightarrow> None
   | Some colon \<Rightarrow>
       let val = dropWhile (\<lambda>c. c = CHR '' '') (tl colon) in Some (take (strcspn val [NL]) val))"

definition cpuinfo_line :: "sys_cpu \<Rightarrow> string \<Rightarrow> sys_cpu run" where
  "cpuinfo_line c buf = (case line_value buf of
     None \<Rightarrow> Inr c
   | Some val \<Rightarrow>
       andthen (if strn_eq buf ''vendor_id'' 9
                then andthen (buf_copy (vendor c) val) (\<lambda>b. Inr (c\<lparr>vendor := b\<rparr>)) else Inr c) (\<lambda>c.
       andthen (if strn_eq buf ''model name'' 10
                then andthen (buf_copy (model c) val) (\<lambda>b. Inr (c\<lparr>model := b\<rparr>)) else Inr c) (\<lambda>c.
       andthen (if strn_eq buf ''cpu MHz'' 7
                then andthen (buf_copy (frequency c) val) (\<lambda>b. Inr (c\<lparr>frequency := b\<rparr>)) else Inr c) (\<lambda>c.
       if strn_eq buf ''cpu cores'' 9
       then andthen (parse_u64 (buf @ [NUL]) (of_nat BUFF_LARGE)) (\<lambda>v. Inr (c\<lparr>cores := ucast v\<rparr>))
       else Inr c))))"

fun cpuinfo_lines :: "string list \<Rightarrow> sys_cpu \<Rightarrow> sys_cpu run" where
  "cpuinfo_lines [] c = Inr c"
| "cpuinfo_lines (buf # bufs) c = andthen (cpuinfo_line c buf) (cpuinfo_lines bufs)"

definition cpu_read_amd64 :: "files \<Rightarrow> sys_cpu option \<Rightarrow> (err_code \<times> sys_cpu) run" where
  "cpu_read_amd64 fs out = (case out of
     None \<Rightarrow> Inl Assertion_failed
   | Some c \<Rightarrow> (case fs ''/proc/cpuinfo'' of
       None \<Rightarrow> Inl Assertion_failed
     | Some f \<Rightarrow>
         andthen (cpuinfo_lines (fgets_lines BUFF_LARGE f) c) (\<lambda>c'. Inr (ERR_OK, c'))))"

definition cpu_read :: "arch \<Rightarrow> files \<Rightarrow> sys_cpu option \<Rightarrow> (err_code \<times> sys_cpu) run option" where
  "cpu_read ar fs out = (case out of
     None \<Rightarrow> Some (Inl Assertion_failed)
   | Some c \<Rightarrow>
       map_option (\<lambda>r. andthen r (\<lambda>(e, c').
           andthen (c_assert (e = ERR_OK)) (\<lambda>_. Inr (ERR_OK, c'))))
         (case ar of
            AArch64 \<Rightarrow> cpu_read_arm64 fs (Some c)
          | X86_64 \<Rightarrow> Some (cpu_read_amd64 fs (Some c))))"

subsection \<open>Usage\<close>

text \<open>\<open>sscanf\<close> with \<open>n\<close> conversions \<open>%lu\<close>, all of which must succeed.\<close>

fun scan_lus :: "nat \<Rightarrow> string \<Rightarrow> u64 list option" where
  "scan_lus 0 s = Some []"
| "scan_lus (Suc n) s = (case scan_lu s of
     None \<Rightarrow> None
   | Some (v, r) \<Rightarrow> map_option (\<lambda>vs. v # vs) (scan_lus n r))"

fun stat_lines :: "string list \<Rightarrow> sys_cpu \<Rightarrow> sys_cpu" where
  "stat_lines [] c = c"
| "stat_lines (buf # bufs) c =
     (if strn_eq buf ''cpu '' 4 then
        (case scan_lus 8 (drop 4 buf) of
           Some [user, nice, system, idle, iowait, irq, softirq, steal] \<Rightarrow>
             c\<lparr>idle_time := idle + iowait,
               total_time := user + nice + system + idle + iowait + irq + softirq + steal\<rparr>
         | _ \<Rightarrow> stat_lines bufs c)
      else stat_lines bufs c)"

definition cpu_read_usage :: "files \<Rightarrow> sys_cpu option \<Rightarrow> (err_code \<times> sys_cpu) run" where
  "cpu_read_usage fs out = (case out of
     None \<Rightarrow> Inl Assertion_failed
   | Some c \<Rightarrow> (case fs ''/proc/stat'' of
       None \<Rightarrow> Inl Assertion_failed
     | Some f \<Rightarrow> Inr (ERR_OK, stat_lines (fgets_lines BUFF_LARGE f) c)))"

end
