(* ===== verification/Cpu_Read.thy ===== *)
theory Cpu_Read
  imports Cpu
begin

text \<open>
  What the CPU readers compute. \<open>cpuinfo_result\<close> is the structure after a whole
  \<open>/proc/cpuinfo\<close>: every value of a key is copied over the one before it.
\<close>

section \<open>x86-64\<close>

definition overlay :: "char list \<Rightarrow> char list \<Rightarrow> char list" where
  "overlay dst v = v @ drop (length v) dst"

definition key_values :: "string \<Rightarrow> string list \<Rightarrow> string list" where
  "key_values key bufs =
     List.map_filter (\<lambda>buf. if strn_eq buf key (length key) then line_value buf else None) bufs"

definition cpuinfo_fits :: "string list \<Rightarrow> bool" where
  "cpuinfo_fits bufs \<longleftrightarrow>
     list_all (\<lambda>v. length v \<le> 16) (key_values ''vendor_id'' bufs) \<and>
     list_all (\<lambda>v. length v \<le> 64) (key_values ''model name'' bufs) \<and>
     list_all (\<lambda>v. length v \<le> 16) (key_values ''cpu MHz'' bufs)"

definition cpuinfo_result :: "string list \<Rightarrow> sys_cpu \<Rightarrow> sys_cpu" where
  "cpuinfo_result bufs c = c
     \<lparr>vendor := foldl overlay (vendor c) (key_values ''vendor_id'' bufs),
      model := foldl overlay (model c) (key_values ''model name'' bufs),
      frequency := foldl overlay (frequency c) (key_values ''cpu MHz'' bufs),
      cores := if key_values ''cpu cores'' bufs = [] then cores c else 0\<rparr>"

definition zero_terminated :: "nat \<Rightarrow> string \<Rightarrow> char list" where
  "zero_terminated n s = s @ replicate (n - length s) NUL"

section \<open>AArch64\<close>

text \<open>The files the AArch64 reader looks at, for a machine whose last enabled core has number
  \<open>hi\<close> and runs at \<open>freq\<close>.\<close>

definition arm_files :: "nat \<Rightarrow> nat \<Rightarrow> string \<Rightarrow> u64 \<Rightarrow> files" where
  "arm_files lo hi board freq = (\<lambda>path.
     if path = ''/sys/devices/system/cpu/enabled'' then Some (show_nat lo @ ''-'' @ show_nat hi @ [NL])
     else if path = ''/proc/device-tree/model'' then Some (board @ [NUL])
     else if path = scaling_path (of_nat hi) then Some (show_nat (unat freq) @ [NL])
     else None)"

definition stat_text :: "u64 list \<Rightarrow> string" where
  "stat_text vs = ''cpu '' @ concat (map (\<lambda>v. '' '' @ show_nat (unat v)) vs)"

definition demo_mhz :: "string \<Rightarrow> string" where
  "demo_mhz v = (''cpu MHz'' @ [TAB]) @ '': '' @ v @ [NL]"

lemma key_values_Nil [simp]: "key_values key [] = []"
  by (simp add: key_values_def map_filter_simps)

lemma key_values_Cons:
  "key_values key (buf # bufs) = key_values key [buf] @ key_values key bufs"
  by (simp add: key_values_def map_filter_simps split: option.splits)

lemma key_values_single:
  "key_values key [buf] = (case line_value buf of
     Some v \<Rightarrow> if strn_eq buf key (length key) then [v] else [] | None \<Rightarrow> [])"
  by (simp add: key_values_def map_filter_simps split: option.splits)

lemma length_overlay [simp]: "length v \<le> length dst \<Longrightarrow> length (overlay dst v) = length dst"
  by (simp add: overlay_def)

lemma buf_copy_overlay: "length v \<le> length dst \<Longrightarrow> buf_copy dst v = Inr (overlay dst v)"
  by (simp add: buf_copy_def overlay_def)

lemma length_foldl_overlay:
  "list_all (\<lambda>v. length v \<le> length dst) vs \<Longrightarrow> length (foldl overlay dst vs) = length dst"
  by (induction vs arbitrary: dst) auto

lemma parse_cores_line: "strn_eq buf ''cpu cores'' 9 \<Longrightarrow> parse_u64 (buf @ [NUL]) n = Inr 0"
  by (cases buf; cases "unat n") (auto simp: strn_eq_def parse_u64_def is_digit_def)

lemma cpuinfo_line_run:
  assumes "wf_cpu c"
  shows "cpuinfo_line c buf =
    (if cpuinfo_fits [buf] then Inr (cpuinfo_result [buf] c) else Inl Buffer_overflow)"
proof (cases "line_value buf")
  case None
  then show ?thesis
    by (simp add: cpuinfo_line_def cpuinfo_fits_def cpuinfo_result_def key_values_single)
next
  case (Some val)
  define V M F C where "V = strn_eq buf ''vendor_id'' 9" and "M = strn_eq buf ''model name'' 10"
    and "F = strn_eq buf ''cpu MHz'' 7" and "C = strn_eq buf ''cpu cores'' 9"
  note keys = V_def [symmetric] M_def [symmetric] F_def [symmetric] C_def [symmetric]
  have len: "length ''vendor_id'' = 9" "length ''model name'' = 10" "length ''cpu MHz'' = 7"
      "length ''cpu cores'' = 9" by simp_all
  have C: "C \<Longrightarrow> parse_u64 (buf @ [NUL]) (of_nat BUFF_LARGE) = Inr 0"
    by (simp add: C_def parse_cores_line)
  show ?thesis
    unfolding cpuinfo_line_def cpuinfo_fits_def cpuinfo_result_def key_values_single Some
      option.case len keys
    using assms C
    by (cases c; cases V; cases M; cases F; cases C) (simp_all add: buf_copy_def overlay_def wf_cpu_def)
qed

lemma cpuinfo_fits_Cons: "cpuinfo_fits (buf # bufs) \<longleftrightarrow> cpuinfo_fits [buf] \<and> cpuinfo_fits bufs"
  by (subst (1) cpuinfo_fits_def) (auto simp: key_values_Cons [of _ buf bufs] cpuinfo_fits_def)

lemma cpuinfo_result_Cons:
  "cpuinfo_result (buf # bufs) c = cpuinfo_result bufs (cpuinfo_result [buf] c)"
  by (simp add: cpuinfo_result_def key_values_Cons [of _ buf bufs])

lemma wf_cpuinfo_result: "wf_cpu c \<Longrightarrow> cpuinfo_fits bufs \<Longrightarrow> wf_cpu (cpuinfo_result bufs c)"
  by (simp add: wf_cpu_def cpuinfo_result_def cpuinfo_fits_def length_foldl_overlay)

lemma cpuinfo_lines_run:
  "wf_cpu c \<Longrightarrow> cpuinfo_lines bufs c =
     (if cpuinfo_fits bufs then Inr (cpuinfo_result bufs c) else Inl Buffer_overflow)"
proof (induction bufs arbitrary: c)
  case Nil
  then show ?case by (simp add: cpuinfo_fits_def cpuinfo_result_def)
next
  case (Cons buf bufs)
  show ?case
  proof (cases "cpuinfo_fits [buf]")
    case True
    then show ?thesis
      using Cons wf_cpuinfo_result [OF Cons.prems True]
      by (simp add: cpuinfo_line_run cpuinfo_fits_Cons [of buf bufs] cpuinfo_result_Cons [of buf bufs])
  next
    case False
    then show ?thesis using Cons.prems
      by (simp add: cpuinfo_line_run cpuinfo_fits_Cons [of buf bufs])
  qed
qed

lemma line_value_format:
  assumes "CHR '':'' \<notin> set key" and "NL \<notin> set v" and "v \<noteq> []" and "hd v \<noteq> CHR '' ''"
  shows "line_value (key @ '': '' @ v @ [NL]) = Some v"
proof -
  have "strchr (key @ '': '' @ v @ [NL]) (CHR '':'') = Some ('': '' @ v @ [NL])"
    using strchr_append [OF assms(1)] by simp
  moreover have "dropWhile (\<lambda>c. c = CHR '' '') ('' '' @ v @ [NL]) = v @ [NL]"
    using assms(3,4) by (cases v) auto
  moreover have "take (strcspn (v @ [NL]) [NL]) (v @ [NL]) = v"
    unfolding strcspn_take using assms(2) by (auto simp: takeWhile_tail takeWhile_eq_all_conv)
  ultimately show ?thesis by (simp add: line_value_def Let_def)
qed

lemma c_str_zero_terminated:
  "NUL \<notin> set s \<Longrightarrow> length s < n \<Longrightarrow> c_str (zero_terminated n s) = s"
  by (cases "n - length s") (auto simp: zero_terminated_def c_str_append_NUL)

lemma sint_i8_nat: "k \<le> 127 \<Longrightarrow> sint (of_nat k :: i8) = int k"
  by (simp add: signed_of_nat signed_take_bit_int_eq_self)

lemma core_paths_run:
  assumes "sint enabled = int n" and "n \<le> 126" and "k \<le> n"
  shows "core_paths enabled (of_nat k) path = Some (Some (scaling_path (of_nat n)))"
  using assms(3)
proof (induction "n - k" arbitrary: k path)
  case 0
  then have "k = n" by simp
  moreover have "sint (1 + of_nat n :: i8) = int n + 1"
    using sint_i8_nat [of "Suc n"] assms(2) by simp
  ultimately show ?case
    using assms(1,2) sint_i8_nat [of n]
    by (subst core_paths.simps) (subst core_paths.simps, simp add: add.commute)
next
  case (Suc m)
  then have "core_paths enabled (of_nat (Suc k)) (Some (scaling_path (of_nat k))) =
      Some (Some (scaling_path (of_nat n)))" by (intro Suc.hyps(1)) auto
  then show ?case
    using assms(1,2) Suc sint_i8_nat [of k] by (subst core_paths.simps) (simp add: add.commute)
qed

lemma core_paths_returns:
  assumes "core_paths enabled i path = Some r"
  shows "sint enabled < 127"
proof (rule core_paths.raw_induct [where P = "\<lambda>enabled i path r. sint enabled < 127", OF _ assms])
  fix f :: "i32 \<Rightarrow> i8 \<Rightarrow> string option \<Rightarrow> string option option" and enabled :: i32 and i :: i8
    and path r
  assume "\<And>enabled i path r. f enabled i path = Some r \<Longrightarrow> sint enabled < 127"
    and "(if sint i \<le> sint enabled then f enabled (i + 1) (Some (scaling_path i)) else Some path) = Some r"
  moreover have "sint i \<le> 127" using sint_lt [of i] by simp
  ultimately show "sint enabled < 127" by (cases "sint i \<le> sint enabled") auto
qed

lemma read_int_value:
  "v * 10 ^ length (takeWhile is_digit s) + digits_value (takeWhile is_digit s) \<le> 2147483647 \<Longrightarrow>
   read_int s (int v) =
     Inr (int (v * 10 ^ length (takeWhile is_digit s) + digits_value (takeWhile is_digit s)))"
proof (induction s arbitrary: v)
  case (Cons c s)
  show ?case
  proof (cases "is_digit c")
    case True
    let ?d = "takeWhile is_digit s" and ?v = "v * 10 + digit_value c"
    have eq: "v * 10 ^ length (takeWhile is_digit (c # s)) + digits_value (takeWhile is_digit (c # s)) =
        ?v * 10 ^ length ?d + digits_value ?d"
      using True by (simp add: digits_value_Cons algebra_simps)
    have "?v * 10 ^ length ?d \<le> 2147483647" using Cons.prems unfolding eq by simp
    moreover have "?v * 1 \<le> ?v * 10 ^ length ?d" by (intro mult_le_mono2) simp
    ultimately have le: "?v \<le> 2147483647" unfolding mult_1_right by (rule order_trans [rotated])
    have iv: "int v * 10 + int (digit_value c) = int ?v" by simp
    have step: "read_int (c # s) (int v) = read_int s (int ?v)"
      using True le unfolding read_int.simps iv Let_def by simp
    show ?thesis using Cons.IH [of ?v] Cons.prems unfolding eq step by simp
  qed simp
qed simp

lemma max_number_show:
  assumes "n \<le> 2147483647" and "r = [] \<or> \<not> is_digit (hd r)"
  shows "max_number (show_nat n @ r) m = max_number r (max (int n) m)"
proof -
  obtain c cs where s: "show_nat n = c # cs" by (cases "show_nat n") auto
  have td: "takeWhile is_digit (show_nat n @ r) = show_nat n" "dropWhile is_digit (show_nat n @ r) = r"
    using takeWhile_digits [OF show_nat_digits assms(2), of n] by auto
  have "is_digit c" using show_nat_digits [of n] s by simp
  moreover have "read_int (show_nat n @ r) 0 = Inr (int n)"
    using read_int_value [of 0 "show_nat n @ r"] assms(1) td by simp
  ultimately show ?thesis using td s by (auto simp: max_def)
qed

lemma max_number_range:
  assumes "lo \<le> hi" and "hi \<le> 2147483647"
  shows "max_number (show_nat lo @ ''-'' @ show_nat hi @ [NL]) 0 = Inr (int hi)"
  using assms max_number_show [of lo "''-'' @ show_nat hi @ [NL]" 0] max_number_show [of hi "[NL]" "int lo"]
  by (simp add: is_digit_def)

lemma scaling_path_prefix: "take 27 (scaling_path i) = ''/sys/devices/system/cpu/cpu''"
  by (simp add: scaling_path_def PATH_MAX_LEN_def)

lemma scaling_path_neq:
  "scaling_path i \<noteq> ''/sys/devices/system/cpu/enabled''" "scaling_path i \<noteq> ''/proc/device-tree/model''"
proof -
  have "take 27 (scaling_path i) \<noteq> take 27 ''/sys/devices/system/cpu/enabled''"
      "take 27 (scaling_path i) \<noteq> take 27 ''/proc/device-tree/model''"
    unfolding scaling_path_prefix by simp_all
  then show "scaling_path i \<noteq> ''/sys/devices/system/cpu/enabled''"
      "scaling_path i \<noteq> ''/proc/device-tree/model''" by metis+
qed

lemma scan_lus_text:
  assumes "r = [] \<or> \<not> is_digit (hd r)"
  shows "scan_lus (length vs) (concat (map (\<lambda>v. '' '' @ show_nat (unat v)) vs) @ r) = Some vs"
proof (induction vs)
  case (Cons v vs)
  let ?r = "concat (map (\<lambda>v. '' '' @ show_nat (unat v)) vs) @ r"
  have "?r = [] \<or> \<not> is_digit (hd ?r)" using assms by (cases vs) auto
  then have "scan_lu ('' '' @ show_nat (unat v) @ ?r) = Some (v, ?r)"
    by (intro scan_lu_show) simp_all
  then show ?case using Cons.IH by simp
qed simp

lemma arm_model:
  assumes "NUL \<notin> set board" and "board \<noteq> []" and "length board < 64" and "wf_cpu c"
    and "fs ''/proc/device-tree/model'' = Some (board @ [NUL])"
  shows "cpu_read_cpu_model_name_arm64 fs (Some c) =
    Inr (ERR_OK, c\<lparr>model := board @ NUL # drop (Suc (length board)) (model c)\<rparr>)"
proof -
  have "take BUFF_DEFAULT (board @ [NUL]) = board @ [NUL]"
    using assms(3) by (simp add: BUFF_DEFAULT_def)
  moreover have "takeWhile (\<lambda>c. c \<noteq> NUL) (board @ [NUL]) = board"
    using assms(1) by (auto simp: takeWhile_tail takeWhile_eq_all_conv)
  ultimately show ?thesis
    using assms(3,4) buf_copy_terminated [of board "model c"]
    by (simp add: cpu_read_cpu_model_name_arm64_def assms(5) wf_cpu_def Let_def flip: andthen_assoc)
qed

lemma arm_cores:
  assumes "lo \<le> hi" and "hi \<le> 2147483647"
    and "fs ''/sys/devices/system/cpu/enabled'' = Some (show_nat lo @ ''-'' @ show_nat hi @ [NL])"
  shows "cpu_get_cores_enabled_arm fs (Some c) = Inr (ERR_OK, c\<lparr>cores := of_nat hi\<rparr>)"
proof -
  let ?u = "show_nat lo @ ''-'' @ show_nat hi"
  have "length (show_nat lo) \<le> 10" "length (show_nat hi) \<le> 10"
    using assms by (auto intro: length_show_nat)
  then have "fgets BUFF_DEFAULT (?u @ NL # []) = Some (?u @ [NL], [])"
    by (intro fgets_line) (auto simp: not_in_show BUFF_DEFAULT_def)
  then show ?thesis
    using max_number_range [OF assms(1,2)] by (simp add: cpu_get_cores_enabled_arm_def assms(3))
qed

text \<open>Every reader keeps the sizes of the arrays and answers success when it returns.\<close>

lemma cpu_frequency_result:
  assumes "cpu_read_enabled_core_cpu_frequency fs (Some c) n = Some (Inr (e, c'))"
  shows "\<exists>b. c' = Some (c\<lparr>frequency := b\<rparr>) \<and> length b = length (frequency c)"
proof -
  obtain path where "core_paths n 0 None = Some path"
    using assms by (auto simp: cpu_read_enabled_core_cpu_frequency_def)
  then obtain p f v b where "path = Some p" "fs p = Some f" "scan_lu f = Some v"
      and b: "buf_copy (frequency c) (take 15 (show_nat (unat (fst v))) @ [NUL]) = Inr b"
      "c' = Some (c\<lparr>frequency := b\<rparr>)"
    using assms
    by (auto simp: cpu_read_enabled_core_cpu_frequency_def andthen_eq_Inr Let_def split: option.splits prod.splits)
  then show ?thesis using buf_copy_run [OF b(1)] by blast
qed

lemma cpu_read_arm64_wf:
  assumes "wf_cpu c" and "cpu_read_arm64 fs (Some c) = Some (Inr (e, c'))"
  shows "wf_cpu c'"
proof -
  obtain e1 c1 e2 c2 where c: "cpu_get_cores_enabled_arm fs (Some c) = Inr (e1, c1)"
      "cpu_read_cpu_model_name_arm64 fs (Some c1) = Inr (e2, c2)"
    using assms(2) by (auto simp: cpu_read_arm64_def andthen_eq_Inr split: sum.splits prod.splits)
  have "wf_cpu c1"
    using c(1) assms(1)
    by (auto simp: cpu_get_cores_enabled_arm_def andthen_eq_Inr wf_cpu_def split: option.splits)
  then have "wf_cpu c2"
    using c(2) by (auto simp: cpu_read_cpu_model_name_arm64_def andthen_eq_Inr Let_def wf_cpu_def
        dest!: buf_copy_run buf_set_run split: option.splits if_splits)
  moreover obtain e3 c3 where
      r: "cpu_read_enabled_core_cpu_frequency fs (Some c2) (cores c2) = Some (Inr (e3, c3))"
      "c' = (case c3 of None \<Rightarrow> c2 | Some c3 \<Rightarrow> c3)"
    using assms(2) c by (auto simp: cpu_read_arm64_def andthen_eq_Inr split: option.splits)
  ultimately show ?thesis using cpu_frequency_result [OF r(1)] by (auto simp: wf_cpu_def)
qed

lemma cpu_read_wf:
  assumes "wf_cpu c" and "cpu_read ar fs (Some c) = Some (Inr (e, c'))"
  shows "wf_cpu c' \<and> e = ERR_OK"
proof (cases ar)
  case AArch64
  then show ?thesis
    using assms cpu_read_arm64_wf [OF assms(1)]
    by (auto simp: cpu_read_def andthen_eq_Inr split: prod.splits)
next
  case X86_64
  then show ?thesis
    using assms cpuinfo_lines_run [OF assms(1)] wf_cpuinfo_result [OF assms(1)]
    by (auto simp: cpu_read_def cpu_read_amd64_def andthen_eq_Inr split: option.splits if_splits)
qed


lemma stat_lines_wf: "wf_cpu c \<Longrightarrow> wf_cpu (stat_lines bufs c)"
  by (induction bufs) (auto simp: wf_cpu_def split: option.splits list.splits)

lemma cpu_read_usage_wf:
  assumes "wf_cpu c" and "cpu_read_usage fs (Some c) = Inr (e, c')"
  shows "wf_cpu c'"
  using assms stat_lines_wf by (auto simp: cpu_read_usage_def split: option.splits)
lemma cpu_read_arm64_times:
  assumes "cpu_read_arm64 fs (Some c) = Some (Inr (e, c'))"
  shows "total_time c' = total_time c \<and> idle_time c' = idle_time c"
proof -
  obtain e1 c1 e2 c2 where c: "cpu_get_cores_enabled_arm fs (Some c) = Inr (e1, c1)"
      "cpu_read_cpu_model_name_arm64 fs (Some c1) = Inr (e2, c2)"
    using assms by (auto simp: cpu_read_arm64_def andthen_eq_Inr split: sum.splits prod.splits)
  have "total_time c1 = total_time c" "idle_time c1 = idle_time c"
    using c(1) by (auto simp: cpu_get_cores_enabled_arm_def andthen_eq_Inr split: option.splits)
  moreover have "total_time c2 = total_time c1" "idle_time c2 = idle_time c1"
    using c(2) by (auto simp: cpu_read_cpu_model_name_arm64_def andthen_eq_Inr Let_def
        split: option.splits if_splits)
  moreover obtain e3 c3 where
      r: "cpu_read_enabled_core_cpu_frequency fs (Some c2) (cores c2) = Some (Inr (e3, c3))"
      "c' = (case c3 of None \<Rightarrow> c2 | Some c3 \<Rightarrow> c3)"
    using assms c by (auto simp: cpu_read_arm64_def andthen_eq_Inr split: option.splits)
  ultimately show ?thesis using cpu_frequency_result [OF r(1)] by auto
qed

lemma cpu_read_times:
  assumes "wf_cpu c" and "cpu_read ar fs (Some c) = Some (Inr (e, c'))"
  shows "total_time c' = total_time c \<and> idle_time c' = idle_time c"
proof (cases ar)
  case AArch64
  then show ?thesis
    using assms(2) cpu_read_arm64_times by (auto simp: cpu_read_def andthen_eq_Inr split: prod.splits)
next
  case X86_64
  then show ?thesis
    using assms cpuinfo_lines_run [OF assms(1)]
    by (auto simp: cpu_read_def cpu_read_amd64_def andthen_eq_Inr cpuinfo_result_def
        split: option.splits if_splits)
qed

section \<open>Properties\<close>

text \<open>C15: the x86 reader, on any \<open>/proc/cpuinfo\<close>: if every vendor, model and frequency value
  fits its array the call succeeds and each array holds the values of its key copied over one
  another in file order (so the last one counts, not the first), and the core count is 0 as soon
  as a \<open>cpu cores\<close> line exists, because the key is parsed instead of the value; if one value is
  too long, the copy overruns the structure member.\<close>

theorem cpu_read_x86_result:
  assumes "wf_cpu c" and "fs ''/proc/cpuinfo'' = Some f"
  shows "cpu_read X86_64 fs (Some c) = Some (
    if cpuinfo_fits (fgets_lines BUFF_LARGE f)
    then Inr (ERR_OK, cpuinfo_result (fgets_lines BUFF_LARGE f) c)
    else Inl Buffer_overflow)"
  using cpuinfo_lines_run [OF assms(1)]
  by (simp add: cpu_read_def cpu_read_amd64_def assms(2) c_assert_def)

lemma cpuinfo_line_values:
  assumes "CHR '':'' \<notin> set key" and "NL \<notin> set v" and "v \<noteq> []" and "hd v \<noteq> CHR '' ''"
  shows "key_values k [(key @ [TAB]) @ '': '' @ v @ [NL]] =
    (if strn_eq ((key @ [TAB]) @ '': '' @ v @ [NL]) k (length k) then [v] else [])"
  using line_value_format [of "key @ [TAB]" v] assms by (simp add: key_values_single)

lemma demo_cpuinfo_lines:
  "fgets_lines BUFF_LARGE (lines_text [''cpu cores'' @ TAB # '': 8''])
   = [(''cpu cores'' @ [TAB]) @ '': '' @ ''8'' @ [NL]]"
  by (subst fgets_lines_text) (simp_all add: BUFF_LARGE_def)

theorem cpu_read_x86_result_witness:
  "map_option (map_sum id (cores \<circ> snd)) (cpu_read X86_64
     (\<lambda>_. Some (lines_text [''cpu cores'' @ TAB # '': 8''])) (Some (zero_cpu\<lparr>cores := 3\<rparr>)))
   = Some (Inr 0)"
proof -
  let ?bufs = "fgets_lines BUFF_LARGE (lines_text [''cpu cores'' @ TAB # '': 8''])"
  have kv: "key_values k ?bufs =
      (if strn_eq ((''cpu cores'' @ [TAB]) @ '': '' @ ''8'' @ [NL]) k (length k) then [''8''] else [])" for k
    unfolding demo_cpuinfo_lines by (rule cpuinfo_line_values) simp_all
  have "cpuinfo_fits ?bufs" "cores (cpuinfo_result ?bufs (zero_cpu\<lparr>cores := 3\<rparr>)) = 0"
    unfolding cpuinfo_fits_def cpuinfo_result_def kv by (simp_all add: strn_eq_def)
  moreover have "wf_cpu (zero_cpu\<lparr>cores := 3\<rparr>)" by (simp add: wf_cpu_def zero_cpu_def)
  ultimately show ?thesis
    using cpu_read_x86_result [of "zero_cpu\<lparr>cores := 3\<rparr>"
        "\<lambda>_. Some (lines_text [''cpu cores'' @ TAB # '': 8''])", OF _ refl] by simp
qed

text \<open>No x86 machine gets a core count: whatever \<open>/proc/cpuinfo\<close> holds, a successful read
  leaves the field as it was or sets it to 0.\<close>

theorem cpu_read_x86_no_cores:
  assumes "wf_cpu c" and "cpu_read X86_64 fs (Some c) = Some (Inr (e, c'))"
  shows "e = ERR_OK \<and> cores c' \<in> {cores c, 0}"
proof -
  obtain f where "fs ''/proc/cpuinfo'' = Some f"
    using assms(2) by (cases "fs ''/proc/cpuinfo''") (simp_all add: cpu_read_def cpu_read_amd64_def)
  then show ?thesis
    using assms(2) cpuinfo_lines_run [OF assms(1)]
    by (auto simp: cpu_read_def cpu_read_amd64_def c_assert_def cpuinfo_result_def split: if_splits)
qed

text \<open>A shorter value leaves the tail of a longer one behind: when two processors report
  frequencies \<open>v1\<close> and then a shorter \<open>v2\<close>, the field of a zeroed structure reads as \<open>v2\<close>
  followed by the last characters of \<open>v1\<close>.\<close>

theorem cpu_frequency_stale_tail:
  assumes "cpuinfo_fits bufs" and "key_values ''cpu MHz'' bufs = [v1, v2]"
    and "length v2 < length v1" and "length v1 < 16" and "NUL \<notin> set v1" and "NUL \<notin> set v2"
  shows "\<exists>c'. cpuinfo_lines bufs zero_cpu = Inr c' \<and>
    c_str (frequency c') = v2 @ drop (length v2) v1"
proof -
  have "overlay (overlay (replicate 16 NUL) v1) v2 = zero_terminated 16 (v2 @ drop (length v2) v1)"
    using assms(3,4) by (simp add: overlay_def zero_terminated_def)
  then have "frequency (cpuinfo_result bufs zero_cpu) = zero_terminated 16 (v2 @ drop (length v2) v1)"
    by (simp add: cpuinfo_result_def assms(2) zero_cpu_def)
  moreover have "c_str (zero_terminated 16 (v2 @ drop (length v2) v1)) = v2 @ drop (length v2) v1"
    using assms(3-6) by (intro c_str_zero_terminated) (auto dest: in_set_dropD)
  ultimately show ?thesis using assms(1) by (simp add: cpuinfo_lines_run)
qed

text \<open>C24: the AArch64 reader on a machine whose enabled cores are numbered from \<open>lo\<close> to \<open>hi\<close>
  reports \<open>hi\<close> cores, the number of the last core instead of how many there are, the board's model
  name and the frequency of core \<open>hi\<close>, for every \<open>hi\<close> up to 126.\<close>

theorem cpu_read_arm_result:
  assumes "wf_cpu c" and "lo \<le> hi" and "hi \<le> 126"
    and "NUL \<notin> set board" and "board \<noteq> []" and "length board < 64" and "unat freq < 10 ^ 15"
  shows "\<exists>c'. cpu_read AArch64 (arm_files lo hi board freq) (Some c) = Some (Inr (ERR_OK, c')) \<and>
    cores c' = of_nat hi \<and> c_str (model c') = board \<and> c_str (frequency c') = show_nat (unat freq)"
proof -
  let ?fs = "arm_files lo hi board freq"
  let ?c1 = "c\<lparr>cores := of_nat hi\<rparr>"
  let ?c2 = "?c1\<lparr>model := board @ NUL # drop (Suc (length board)) (model c)\<rparr>"
  have f: "?fs ''/sys/devices/system/cpu/enabled'' = Some (show_nat lo @ ''-'' @ show_nat hi @ [NL])"
      "?fs ''/proc/device-tree/model'' = Some (board @ [NUL])"
      "?fs (scaling_path (of_nat hi)) = Some (show_nat (unat freq) @ [NL])"
    using scaling_path_neq by (simp_all add: arm_files_def)
  have wf: "wf_cpu ?c1" using assms(1) by (simp add: wf_cpu_def)
  have "length (show_nat (unat freq)) \<le> 15" using assms(7) by (intro length_show_nat) simp_all
  then have copy: "buf_copy (frequency c) (take 15 (show_nat (unat freq)) @ [NUL]) =
      Inr (show_nat (unat freq) @ NUL # drop (Suc (length (show_nat (unat freq)))) (frequency c))"
    using assms(1) by (simp add: buf_copy_def wf_cpu_def)
  have sint: "sint (of_nat hi :: i32) = int hi"
    using assms(3) by (simp add: signed_of_nat signed_take_bit_int_eq_self)
  have "scan_lu ([] @ show_nat (unat freq) @ [NL]) = Some (freq, [NL])"
    by (rule scan_lu_show) simp_all
  then have freq: "scan_lu (show_nat (unat freq) @ [NL]) = Some (freq, [NL])" by simp
  have core: "core_paths (of_nat hi) 0 None = Some (Some (scaling_path (of_nat hi)))"
    using core_paths_run [OF sint assms(3), of 0] by simp
  have "cpu_read_arm64 ?fs (Some c) = Some (Inr (ERR_OK, ?c2\<lparr>frequency :=
      show_nat (unat freq) @ NUL # drop (Suc (length (show_nat (unat freq)))) (frequency c)\<rparr>))"
    using arm_cores [of lo hi ?fs c] assms(2,3) f(1) arm_model [OF assms(4-6) wf, of ?fs] f(2) copy
    by (simp add: cpu_read_arm64_def cpu_read_enabled_core_cpu_frequency_def core f(3) freq)
  then show ?thesis
    using assms(4) by (simp add: cpu_read_def c_assert_def c_str_append_NUL not_in_show)
qed

theorem cpu_read_arm_result_witness:
  "\<exists>c'. cpu_read AArch64 (arm_files 0 3 ''Raspberry Pi 5'' 2400000) (Some zero_cpu) =
     Some (Inr (ERR_OK, c')) \<and> cores c' = 3"
  using cpu_read_arm_result [of zero_cpu 0 3 "''Raspberry Pi 5''" 2400000] by auto

text \<open>C32: with 127 or guest as the last core number, the signed byte that counts the cores wraps
  and the AArch64 reader does not return.\<close>

theorem cpu_read_arm_diverges:
  assumes "wf_cpu c" and "lo \<le> hi" and "127 \<le> hi" and "hi \<le> 2147483647"
    and "NUL \<notin> set board" and "board \<noteq> []" and "length board < 64"
  shows "cpu_read AArch64 (arm_files lo hi board freq) (Some c) = None"
proof -
  let ?fs = "arm_files lo hi board freq"
  have f: "?fs ''/sys/devices/system/cpu/enabled'' = Some (show_nat lo @ ''-'' @ show_nat hi @ [NL])"
      "?fs ''/proc/device-tree/model'' = Some (board @ [NUL])"
    by (simp_all add: arm_files_def)
  have wf: "wf_cpu (c\<lparr>cores := of_nat hi\<rparr>)" using assms(1) by (simp add: wf_cpu_def)
  have "sint (of_nat hi :: i32) = int hi"
    using assms(4) by (simp add: signed_of_nat signed_take_bit_int_eq_self)
  then have "core_paths (of_nat hi) 0 None = None"
    using core_paths_returns [of "of_nat hi" 0 None] assms(3) by (cases "core_paths (of_nat hi) 0 None") auto
  then show ?thesis
    using arm_cores [of lo hi ?fs c] assms(2,4) f(1) arm_model [OF assms(5-7) wf, of ?fs] f(2)
    by (simp add: cpu_read_def cpu_read_arm64_def cpu_read_enabled_core_cpu_frequency_def)
qed

theorem cpu_read_arm_diverges_witness:
  "cpu_read AArch64 (arm_files 0 127 ''Altra'' 3000000) (Some zero_cpu) = None"
  by (rule cpu_read_arm_diverges) simp_all

text \<open>C28: the usage counters of the kernel's first \<open>cpu\<close> line: idle time is idle plus iowait,
  total time the sum of the first eight counters, both modulo \<open>2 ^ 64\<close>; what follows in the file
  does not matter.\<close>

theorem cpu_read_usage_sums:
  assumes "fs ''/proc/stat'' =
      Some (stat_text ([user, nice, system, idle, iowait, irq, softirq, steal] @ guest) @ NL # rest)"
    and "length guest \<le> 2"
  shows "cpu_read_usage fs (Some c) = Inr (ERR_OK, c\<lparr>idle_time := idle + iowait,
    total_time := user + nice + system + idle + iowait + irq + softirq + steal\<rparr>)"
proof -
  let ?vs = "[user, nice, system, idle, iowait, irq, softirq, steal]"
  let ?t = "\<lambda>vs. concat (map (\<lambda>v. '' '' @ show_nat (unat v)) vs)"
  have len: "length (?t vs) \<le> 21 * length vs" for vs :: "u64 list"
  proof (induction vs)
    case (Cons v vs)
    then show ?case using length_show_u64 [of v] by simp
  qed simp
  have "length (stat_text (?vs @ guest)) + 2 \<le> BUFF_LARGE"
    using len [of "?vs @ guest"] assms(2) unfolding stat_text_def BUFF_LARGE_def by simp
  moreover have "NL \<notin> set (stat_text (?vs @ guest))" "NUL \<notin> set (stat_text (?vs @ guest))"
    by (auto simp: stat_text_def not_in_show)
  ultimately have lines: "fgets_lines BUFF_LARGE (stat_text (?vs @ guest) @ NL # rest) =
      (stat_text (?vs @ guest) @ [NL]) # fgets_lines BUFF_LARGE rest"
    by (intro fgets_lines_Cons)
  have d: "drop 4 (stat_text (?vs @ guest) @ [NL]) = ?t ?vs @ ?t guest @ [NL]"
      "strn_eq (stat_text (?vs @ guest) @ [NL]) ''cpu '' 4"
    by (simp_all add: stat_text_def strn_eq_def)
  have "\<not> is_digit (hd (?t guest @ [NL]))" by (cases guest) simp_all
  then have "scan_lus (length ?vs) (?t ?vs @ ?t guest @ [NL]) = Some ?vs"
    by (intro scan_lus_text disjI2)
  moreover have "length ?vs = 8" by simp
  ultimately have "stat_lines (fgets_lines BUFF_LARGE (stat_text (?vs @ guest) @ NL # rest)) c =
      c\<lparr>idle_time := idle + iowait,
        total_time := user + nice + system + idle + iowait + irq + softirq + steal\<rparr>"
    unfolding lines stat_lines.simps d(1) using d(2) by (simp only: option.case list.case if_True)
  then show ?thesis using assms(1) by (simp add: cpu_read_usage_def)
qed

theorem cpu_read_usage_sums_witness:
  "\<exists>c'. cpu_read_usage (\<lambda>_. Some (stat_text [10, 1, 5, 100, 7, 0, 2, 0, 0, 0] @ NL # []))
     (Some zero_cpu) = Inr (ERR_OK, c') \<and> idle_time c' = 107 \<and> total_time c' = 125"
  using cpu_read_usage_sums [of "\<lambda>_. Some (stat_text [10, 1, 5, 100, 7, 0, 2, 0, 0, 0] @ NL # [])"
      10 1 5 100 7 0 2 0 "[0, 0]" "[]" zero_cpu] by simp

end
