(* ===== verification/Ram.thy ===== *)
theory Ram
  imports Resources Arena Parse
begin

text \<open>
  The memory reader of \<open>libres/resources.cc\<close>: \<open>ram_create\<close> and \<open>sys_ram_read\<close>. The values are
  copied into an arena of their own, which is created and destroyed by the call; a local pointer
  that was never assigned is \<^const>\<open>None\<close>.
\<close>

section \<open>Operations\<close>

definition ram_create :: "os \<Rightarrow> u64 \<Rightarrow> (u64 \<times> os) run" where
  "ram_create s m = arena_alloc s m sizeof_sys_memory"

text \<open>The text after the colon and its blanks, up to \<open>k\<close> or the end of the line.\<close>

definition meminfo_value :: "string \<Rightarrow> string option" where
  "meminfo_value buf = (case strchr buf (CHR '':'') of
     None \<Rightarrow> None
   | Some colon \<Rightarrow>
       let val = dropWhile (\<lambda>c. c = CHR '' '') (tl colon) in
       Some (take (strcspn val [CHR ''k'', NL]) val))"

type_synonym slice = "(u64 \<times> nat) option"

definition meminfo_line ::
  "os \<Rightarrow> u64 \<Rightarrow> slice \<Rightarrow> slice \<Rightarrow> string \<Rightarrow> (slice \<times> slice \<times> os) run" where
  "meminfo_line s t tot fre buf = (case meminfo_value buf of
     None \<Rightarrow> Inr (tot, fre, s)
   | Some val \<Rightarrow>
       andthen (if strn_eq buf ''MemTotal'' 8
                then andthen (arena_alloc s t (of_nat (length val))) (\<lambda>(p, s).
                     andthen (memcpy s p val) (\<lambda>s. Inr (Some (p, length val), s)))
                else Inr (tot, s)) (\<lambda>(tot, s).
       andthen (if strn_eq buf ''MemFree'' 7
                then andthen (arena_alloc s t (of_nat (length val))) (\<lambda>(p, s).
                     andthen (memcpy s p val) (\<lambda>s. Inr (Some (p, length val), s)))
                else Inr (fre, s)) (\<lambda>(fre, s).
       Inr (tot, fre, s))))"

fun meminfo_lines ::
  "string list \<Rightarrow> os \<Rightarrow> u64 \<Rightarrow> slice \<Rightarrow> slice \<Rightarrow> (slice \<times> slice \<times> os) run" where
  "meminfo_lines [] s t tot fre = Inr (tot, fre, s)"
| "meminfo_lines (buf # bufs) s t tot fre =
     andthen (meminfo_line s t tot fre buf) (\<lambda>(tot, fre, s).
     meminfo_lines bufs s t tot fre)"

text \<open>\<open>parse_u64(buffer, len)\<close> on the bytes of a buffer in memory.\<close>

definition parse_slice :: "os \<Rightarrow> slice \<Rightarrow> u64 run" where
  "parse_slice s b = (case b of
     None \<Rightarrow> Inl Uninitialised
   | Some (p, len) \<Rightarrow> andthen (load_bytes s p len) (\<lambda>bs. parse_u64 bs (of_nat len)))"

definition sys_ram_read ::
  "kernel \<Rightarrow> files \<Rightarrow> os \<Rightarrow> sys_memory option \<Rightarrow> (err_code \<times> sys_memory \<times> os) run" where
  "sys_ram_read k fs s out = (case out of
     None \<Rightarrow> Inl Assertion_failed
   | Some m \<Rightarrow> (case fs ''/proc/meminfo'' of
       None \<Rightarrow> Inl Assertion_failed
     | Some f \<Rightarrow>
         andthen (arena_create k s (KiB 8)) (\<lambda>(t, s).
         andthen (meminfo_lines (fgets_lines BUFF_SMALL f) s t None None) (\<lambda>(tot, fre, s).
         andthen (parse_slice s tot) (\<lambda>tv.
         andthen (parse_slice s fre) (\<lambda>fv.
         andthen (arena_destroy s t) (\<lambda>s.
         Inr (ERR_OK, m\<lparr>mem_total := tv, mem_free := fv\<rparr>, s))))))))"

section \<open>What it computes\<close>

definition mem_values :: "string \<Rightarrow> string list \<Rightarrow> string list" where
  "mem_values key bufs =
     List.map_filter (\<lambda>buf. if strn_eq buf key (length key) then meminfo_value buf else None) bufs"

definition total_length :: "string list \<Rightarrow> nat" where
  "total_length vs = sum_list (map length vs)"

definition leading_number :: "string \<Rightarrow> u64" where
  "leading_number v = of_nat (digits_value (takeWhile is_digit v))"

text \<open>A slice holds a value: it is in the allocated part of the arena and these are its bytes.\<close>

definition holds :: "os \<Rightarrow> u64 \<Rightarrow> slice \<Rightarrow> string \<Rightarrow> bool" where
  "holds s t b v \<longleftrightarrow> (case b of
     None \<Rightarrow> False
   | Some (p, len) \<Rightarrow> len = length v \<and> arena_base s t \<le> unat p \<and> unat p + len \<le> arena_top s t \<and>
       mem_read (mem s) (unat p) len = v)"

text \<open>The last value of a key, or what the slice held before when there is none.\<close>

definition holds_last :: "os \<Rightarrow> u64 \<Rightarrow> slice \<Rightarrow> string list \<Rightarrow> bool" where
  "holds_last s t b vs \<longleftrightarrow> (if vs = [] then b = None else holds s t b (last vs))"

text \<open>The lines the kernel writes to \<open>/proc/meminfo\<close>: a number of KiB stands right-justified in a field of eight
  characters, longer numbers in one of their own length.\<close>

definition show_kb :: "nat \<Rightarrow> string" where
  "show_kb n = replicate (8 - length (show_nat n)) (CHR '' '') @ show_nat n"

definition meminfo_text :: "nat \<Rightarrow> nat \<Rightarrow> string list \<Rightarrow> string list" where
  "meminfo_text tot fre others =
     [''MemTotal:       '' @ show_kb tot @ '' kB'', ''MemFree:        '' @ show_kb fre @ '' kB''] @ others"

lemma mem_values_Nil [simp]: "mem_values key [] = []"
  by (simp add: mem_values_def map_filter_simps)

lemma mem_values_Cons:
  "mem_values key (buf # bufs) = (case meminfo_value buf of
     Some v \<Rightarrow> if strn_eq buf key (length key) then v # mem_values key bufs else mem_values key bufs
   | None \<Rightarrow> mem_values key bufs)"
  by (simp add: mem_values_def map_filter_simps split: option.splits)

lemma meminfo_value_length: "meminfo_value buf = Some v \<Longrightarrow> length v \<le> length buf"
proof -
  assume "meminfo_value buf = Some v"
  then obtain colon where c: "strchr buf (CHR '':'') = Some colon"
      "v = take (strcspn (dropWhile (\<lambda>c. c = CHR '' '') (tl colon)) [CHR ''k'', NL])
             (dropWhile (\<lambda>c. c = CHR '' '') (tl colon))"
    by (auto simp: meminfo_value_def Let_def split: option.splits)
  have "length v \<le> length (dropWhile (\<lambda>c. c = CHR '' '') (tl colon))" using c(2) by simp
  also have "\<dots> \<le> length (tl colon)" by (rule length_dropWhile_le)
  also have "\<dots> \<le> length buf" using strchr_Some [OF c(1)] by (auto simp: le_diff_conv)
  finally show "length v \<le> length buf" .
qed

lemma holds_frame:
  assumes "holds s t b v" and "arena_base s' t = arena_base s t" and "arena_top s t \<le> arena_top s' t"
    and "\<forall>x. arena_base s t \<le> x \<and> x < arena_top s t \<longrightarrow> mem s' x = mem s x"
  shows "holds s' t b v"
proof -
  obtain p where b: "b = Some (p, length v)" "arena_base s t \<le> unat p"
      "unat p + length v \<le> arena_top s t" "mem_read (mem s) (unat p) (length v) = v"
    using assms(1) by (auto simp: holds_def split: option.splits)
  have "mem_read (mem s') (unat p) (length v) = mem_read (mem s) (unat p) (length v)"
    using assms(4) b(2,3) by (intro mem_read_cong) auto
  then show ?thesis using b assms(2,3) by (simp add: holds_def)
qed

lemma parse_slice_holds:
  assumes "arena_ok s t" and "holds s t b v" and "length v < 18446744073709551616"
  shows "parse_slice s b = Inr (leading_number v)"
proof -
  obtain p where b: "b = Some (p, length v)" "arena_base s t \<le> unat p"
      "unat p + length v \<le> arena_top s t" "mem_read (mem s) (unat p) (length v) = v"
    using assms(2) by (auto simp: holds_def split: option.splits)
  have "accessible s (unat p) (length v)" by (rule arena.reach [OF assms(1) b(2,3)])
  moreover have "parse_u64 v (of_nat (length v)) = Inr (leading_number v)"
    using parse_u64_value [of "of_nat (length v)" v] assms(3)
    by (simp add: unat_of_nat_u64 leading_number_def)
  ultimately show ?thesis using b by (simp add: parse_slice_def load_bytes_def)
qed

lemma holds_last_frame:
  assumes "holds_last s t b vs" and "arena_base s' t = arena_base s t"
    and "arena_top s t \<le> arena_top s' t"
    and "\<forall>x. arena_base s t \<le> x \<and> x < arena_top s t \<longrightarrow> mem s' x = mem s x"
  shows "holds_last s' t b vs"
  using assms holds_frame by (auto simp: holds_last_def split: if_splits)

lemma push_slice:
  assumes "arena_ok s t" and "length v \<le> arena_room s t"
  obtains b s' where "andthen (arena_alloc s t (of_nat (length v))) (\<lambda>(p, s).
      andthen (memcpy s p v) (\<lambda>s. Inr (Some (p, length v), s))) = Inr (b, s')"
    and "arena_ok s' t" and "holds s' t b v" and "regions s' = regions s"
    and "arena_base s' t = arena_base s t" and "arena_top s' t = arena_top s t + length v"
    and "arena_room s' t = arena_room s t - length v"
    and "\<forall>x. arena_base s t \<le> x \<and> x < arena_top s t \<longrightarrow> mem s' x = mem s x"
    and "\<forall>x. x < unat t \<or> arena_top s t + arena_room s t \<le> x \<longrightarrow> mem s' x = mem s x"
proof -
  note b = arena.bounds [OF assms(1)]
  have n: "unat (of_nat (length v) :: u64) = length v" using assms(2) b by (intro unat_of_nat_u64) simp
  obtain p s1 s2 where s2: "arena_alloc s t (of_nat (length v)) = Inr (p, s1)" "memcpy s1 p v = Inr s2"
      "unat p = arena_top s t" "arena_ok s2 t" "regions s2 = regions s" "arena_base s2 t = arena_base s t"
      "arena_top s2 t = arena_top s t + length v" "arena_room s2 t = arena_room s t - length v"
      "mem_read (mem s2) (unat p) (length v) = v"
      "\<forall>x. arena_base s t \<le> x \<and> x < arena_top s t \<longrightarrow> mem s2 x = mem s x"
      "\<forall>x. x < unat t \<or> arena_top s t + arena_room s t \<le> x \<longrightarrow> mem s2 x = mem s x"
    using arena.push_bytes [OF assms n] by metis
  have "holds s2 t (Some (p, length v)) v" using s2 b by (simp add: holds_def)
  then show ?thesis using that [of "Some (p, length v)" s2] s2 by simp
qed

text \<open>The two slices after reading some lines: the last value of each key.\<close>

definition meminfo_inv :: "os \<Rightarrow> u64 \<Rightarrow> slice \<Rightarrow> slice \<Rightarrow> string list \<Rightarrow> bool" where
  "meminfo_inv s t tot fre bufs \<longleftrightarrow> arena_ok s t \<and>
     holds_last s t tot (mem_values ''MemTotal'' bufs) \<and> holds_last s t fre (mem_values ''MemFree'' bufs)"

definition values_length :: "string list \<Rightarrow> nat" where
  "values_length bufs = total_length (mem_values ''MemTotal'' bufs) + total_length (mem_values ''MemFree'' bufs)"

lemma mem_values_append: "mem_values key (xs @ ys) = mem_values key xs @ mem_values key ys"
  by (induction xs) (auto simp: mem_values_Cons split: option.splits)

lemma values_length_Cons: "values_length (buf # bufs) = values_length [buf] + values_length bufs"
  by (auto simp: values_length_def total_length_def mem_values_Cons split: option.splits)

lemma meminfo_keys: "\<not> (strn_eq buf ''MemTotal'' 8 \<and> strn_eq buf ''MemFree'' 7)"
proof
  assume "strn_eq buf ''MemTotal'' 8 \<and> strn_eq buf ''MemFree'' 7"
  then have "take 7 (take 8 buf) = take 7 ''MemTotal''" "take 7 buf = ''MemFree''"
    by (simp_all add: strn_eq_def)
  then show False by simp
qed

lemma meminfo_line_run:
  assumes inv: "meminfo_inv s t tot fre done" and room: "values_length [buf] \<le> arena_room s t"
  obtains tot' fre' s' where "meminfo_line s t tot fre buf = Inr (tot', fre', s')"
    and "meminfo_inv s' t tot' fre' (done @ [buf])" and "regions s' = regions s"
    and "arena_top s' t = arena_top s t + values_length [buf]"
    and "arena_room s' t = arena_room s t - values_length [buf]"
    and "\<forall>x. x < unat t \<or> arena_top s t + arena_room s t \<le> x \<longrightarrow> mem s' x = mem s x"
proof -
  have ok: "arena_ok s t" and tot: "holds_last s t tot (mem_values ''MemTotal'' done)"
    and fre: "holds_last s t fre (mem_values ''MemFree'' done)"
    using inv by (auto simp: meminfo_inv_def)
  have len: "length ''MemTotal'' = 8" "length ''MemFree'' = 7" by simp_all
  define T F where "T = strn_eq buf ''MemTotal'' 8" and "F = strn_eq buf ''MemFree'' 7"
  note keys = T_def [symmetric] F_def [symmetric]
  have TF: "\<not> (T \<and> F)" unfolding T_def F_def by (rule meminfo_keys)
  note defs = meminfo_inv_def meminfo_line_def values_length_def total_length_def mem_values_append
    mem_values_Cons len keys
  show ?thesis
  proof (cases "\<exists>v. meminfo_value buf = Some v \<and> (T \<or> F)")
    case False
    then have "meminfo_value buf = None \<or> (\<not> T \<and> \<not> F)" by auto
    then show ?thesis
      using that [of tot fre s] ok tot fre unfolding defs by (auto split: option.splits)
  next
    case True
    then obtain v where v: "meminfo_value buf = Some v" "T \<or> F" by auto
    have n: "values_length [buf] = length v"
      unfolding values_length_def total_length_def mem_values_Cons v(1) option.case len keys
      using v(2) TF by (cases T) simp_all
    then have fit: "length v \<le> arena_room s t" using room by simp
    obtain b s' where s': "andthen (arena_alloc s t (of_nat (length v))) (\<lambda>(p, s).
          andthen (memcpy s p v) (\<lambda>s. Inr (Some (p, length v), s))) = Inr (b, s')"
        "arena_ok s' t" "holds s' t b v" "regions s' = regions s" "arena_base s' t = arena_base s t"
        "arena_top s' t = arena_top s t + length v" "arena_room s' t = arena_room s t - length v"
        "\<forall>x. arena_base s t \<le> x \<and> x < arena_top s t \<longrightarrow> mem s' x = mem s x"
        "\<forall>x. x < unat t \<or> arena_top s t + arena_room s t \<le> x \<longrightarrow> mem s' x = mem s x"
      by (rule push_slice [OF ok fit])
    have le: "arena_top s t \<le> arena_top s' t" using s'(6) by simp
    note frames = holds_last_frame [OF tot s'(5) le s'(8)] holds_last_frame [OF fre s'(5) le s'(8)]
    consider "T" "\<not> F" | "F" "\<not> T" using v(2) TF by auto
    then show ?thesis
    proof cases
      case 1
      have "meminfo_line s t tot fre buf = Inr (b, fre, s')"
        using s'(1) v 1 unfolding meminfo_line_def keys by simp
      moreover have "meminfo_inv s' t b fre (done @ [buf])"
        using s'(2,3) frames v 1 unfolding defs by (simp add: holds_last_def)
      ultimately show ?thesis using that s' n by simp
    next
      case 2
      have "meminfo_line s t tot fre buf = Inr (tot, b, s')"
        using s'(1) v 2 unfolding meminfo_line_def keys by simp
      moreover have "meminfo_inv s' t tot b (done @ [buf])"
        using s'(2,3) frames v 2 unfolding defs by (simp add: holds_last_def)
      ultimately show ?thesis using that s' n by simp
    qed
  qed
qed

lemma meminfo_lines_run:
  assumes "meminfo_inv s t tot fre done" and "values_length bufs \<le> arena_room s t"
  shows "\<exists>tot' fre' s'. meminfo_lines bufs s t tot fre = Inr (tot', fre', s') \<and>
    meminfo_inv s' t tot' fre' (done @ bufs) \<and> regions s' = regions s \<and>
    arena_top s' t + arena_room s' t = arena_top s t + arena_room s t \<and>
    (\<forall>x. x < unat t \<or> arena_top s t + arena_room s t \<le> x \<longrightarrow> mem s' x = mem s x)"
  using assms
proof (induction bufs arbitrary: s tot fre "done")
  case (Cons buf bufs)
  have room: "values_length [buf] \<le> arena_room s t"
    using Cons.prems(2) values_length_Cons [of buf bufs] by simp
  obtain tot1 fre1 s1 where s1: "meminfo_line s t tot fre buf = Inr (tot1, fre1, s1)"
      "meminfo_inv s1 t tot1 fre1 (done @ [buf])" "regions s1 = regions s"
      "arena_top s1 t = arena_top s t + values_length [buf]"
      "arena_room s1 t = arena_room s t - values_length [buf]"
      "\<forall>x. x < unat t \<or> arena_top s t + arena_room s t \<le> x \<longrightarrow> mem s1 x = mem s x"
    using meminfo_line_run [OF Cons.prems(1) room] by metis
  have sum: "arena_top s1 t + arena_room s1 t = arena_top s t + arena_room s t" using s1(4,5) room by simp
  have "values_length bufs \<le> arena_room s1 t"
    using Cons.prems(2) s1(5) values_length_Cons [of buf bufs] by simp
  from Cons.IH [OF s1(2) this] obtain tot2 fre2 s2 where
    s2: "meminfo_lines bufs s1 t tot1 fre1 = Inr (tot2, fre2, s2)"
      "meminfo_inv s2 t tot2 fre2 (done @ buf # bufs)" "regions s2 = regions s1"
      "arena_top s2 t + arena_room s2 t = arena_top s1 t + arena_room s1 t"
      "\<forall>x. x < unat t \<or> arena_top s1 t + arena_room s1 t \<le> x \<longrightarrow> mem s2 x = mem s1 x"
    by auto
  then show ?case using s1 sum by auto
qed auto

text \<open>The whole call up to the parsing, on a fresh arena.\<close>

lemma sys_ram_read_scope:
  assumes k: "kernel_ok k" "k s 8224 = Some t" and f: "fs ''/proc/meminfo'' = Some f"
    and bufs: "bufs = fgets_lines BUFF_SMALL f" "values_length bufs \<le> 8192"
  obtains tot fre s1 s2 where "sys_ram_read k fs s (Some m) =
      andthen (parse_slice s1 tot) (\<lambda>tv. andthen (parse_slice s1 fre) (\<lambda>fv.
      Inr (ERR_OK, m\<lparr>mem_total := tv, mem_free := fv\<rparr>, s2)))"
    and "meminfo_inv s1 t tot fre bufs" and "regions s2 = regions s"
    and "\<forall>x. x < unat t \<or> unat t + 8224 \<le> x \<longrightarrow> mem s2 x = mem s x"
proof -
  obtain s0 where s0: "arena_create k s 8192 = Inr (t, s0)" "arena_ok s0 t"
      "regions s0 = (unat t, 8224) # regions s"
      "arena_at s0 t = \<lparr>current_position = 0, previous_position = 0, capacity = 8192, base_position = t + 32\<rparr>"
      "\<forall>x. x < unat t \<or> unat t + 32 + 8192 \<le> x \<longrightarrow> mem s0 x = mem s x"
    using arena_create_run [OF k(1), of s 8192 t] k(2) by auto
  have top: "arena_top s0 t = unat t + 32" "arena_room s0 t = 8192"
    using s0(4) by (simp_all add: arena_top_def arena_room_def)
  have inv: "meminfo_inv s0 t None None []" using s0(2) by (simp add: meminfo_inv_def holds_last_def)
  obtain tot fre s1 where s1: "meminfo_lines bufs s0 t None None = Inr (tot, fre, s1)"
      "meminfo_inv s1 t tot fre bufs" "regions s1 = regions s0"
      "arena_top s1 t + arena_room s1 t = unat t + 8224"
      "\<forall>x. x < unat t \<or> unat t + 8224 \<le> x \<longrightarrow> mem s1 x = mem s0 x"
    using meminfo_lines_run [OF inv, of bufs] bufs(2) top by auto
  have ok: "arena_ok s1 t" using s1(2) by (simp add: meminfo_inv_def)
  have ap: "\<forall>(b, l) \<in> set (regions s). apart (unat t) 8224 b l" using kernel_okD(4) [OF k] by simp
  have rs: "regions s1 = (unat t, 8224) # regions s" using s1(3) s0(3) by simp
  obtain s2 where s2: "arena_destroy s1 t = Inr s2" "regions s2 = regions s" "mem s2 = mem s1"
    by (rule arena_destroy_last [OF ok rs s1(4) ap])
  have "sys_ram_read k fs s (Some m) =
      andthen (parse_slice s1 tot) (\<lambda>tv. andthen (parse_slice s1 fre) (\<lambda>fv.
      Inr (ERR_OK, m\<lparr>mem_total := tv, mem_free := fv\<rparr>, s2)))"
    using s0(1) s1(1) s2(1) f by (simp add: sys_ram_read_def bufs(1) [symmetric])
  then show ?thesis using that s1(2,5) s0(5) s2 by auto
qed

lemma mem_values_short:
  assumes "bufs = fgets_lines BUFF_SMALL f" and "v \<in> set (mem_values key bufs)"
  shows "length v < 18446744073709551616"
proof -
  obtain buf where "buf \<in> set bufs" "meminfo_value buf = Some v"
    using assms(2) by (auto simp: mem_values_def List.map_filter_def split: if_splits)
  then show ?thesis
    using meminfo_value_length [of buf v] fgets_lines_length [of buf BUFF_SMALL f] assms(1)
    by (simp add: BUFF_SMALL_def)
qed

lemma sys_ram_read_run:
  assumes k: "kernel_ok k" "k s 8224 = Some t" and f: "fs ''/proc/meminfo'' = Some f"
    and bufs: "bufs = fgets_lines BUFF_SMALL f" "values_length bufs \<le> 8192"
    and vs: "mem_values ''MemTotal'' bufs \<noteq> []" "mem_values ''MemFree'' bufs \<noteq> []"
  obtains s' where "sys_ram_read k fs s (Some m) = Inr (ERR_OK,
      \<lparr>mem_total = leading_number (last (mem_values ''MemTotal'' bufs)),
       mem_free = leading_number (last (mem_values ''MemFree'' bufs))\<rparr>, s')"
    and "regions s' = regions s"
    and "\<forall>x. x < unat t \<or> unat t + 8224 \<le> x \<longrightarrow> mem s' x = mem s x"
proof -
  obtain tot fre s1 s2 where r: "sys_ram_read k fs s (Some m) =
      andthen (parse_slice s1 tot) (\<lambda>tv. andthen (parse_slice s1 fre) (\<lambda>fv.
      Inr (ERR_OK, m\<lparr>mem_total := tv, mem_free := fv\<rparr>, s2)))"
      "meminfo_inv s1 t tot fre bufs" "regions s2 = regions s"
      "\<forall>x. x < unat t \<or> unat t + 8224 \<le> x \<longrightarrow> mem s2 x = mem s x"
    by (rule sys_ram_read_scope [where fs = fs and m = m, OF k f bufs])
  have ok: "arena_ok s1 t" and h: "holds s1 t tot (last (mem_values ''MemTotal'' bufs))"
      "holds s1 t fre (last (mem_values ''MemFree'' bufs))"
    using r(2) vs by (simp_all add: meminfo_inv_def holds_last_def)
  have "parse_slice s1 tot = Inr (leading_number (last (mem_values ''MemTotal'' bufs)))"
      "parse_slice s1 fre = Inr (leading_number (last (mem_values ''MemFree'' bufs)))"
    using parse_slice_holds [OF ok h(1)] parse_slice_holds [OF ok h(2)]
      mem_values_short [OF bufs(1) last_in_set [OF vs(1)]]
      mem_values_short [OF bufs(1) last_in_set [OF vs(2)]] by simp_all
  then show ?thesis using that [of s2] r by (cases m) simp
qed

section \<open>Properties\<close>

text \<open>C16: \<open>sys_ram_read\<close>, on any \<open>/proc/meminfo\<close> that has a \<open>MemTotal\<close> and a \<open>MemFree\<close> line (and
  values of at most 8 KiB together): it succeeds, stores the numbers of the last such lines, and
  returns the address space as it was: its own arena is unmapped and no byte outside it changed.\<close>

theorem sys_ram_read_values:
  assumes "kernel_ok k" and "k s 8224 = Some t" and "fs ''/proc/meminfo'' = Some f"
    and "bufs = fgets_lines BUFF_SMALL f" and "values_length bufs \<le> 8192"
    and "mem_values ''MemTotal'' bufs \<noteq> []" and "mem_values ''MemFree'' bufs \<noteq> []"
  shows "\<exists>s'. sys_ram_read k fs s (Some m) = Inr (ERR_OK,
      \<lparr>mem_total = leading_number (last (mem_values ''MemTotal'' bufs)),
       mem_free = leading_number (last (mem_values ''MemFree'' bufs))\<rparr>, s') \<and>
    regions s' = regions s \<and> (\<forall>x. x < unat t \<or> unat t + 8224 \<le> x \<longrightarrow> mem s' x = mem s x)"
  by (rule sys_ram_read_run [where fs = fs and m = m, OF assms]) blast

lemma meminfo_value_text:
  assumes "CHR '':'' \<notin> set key"
  shows "meminfo_value (key @ '':'' @ replicate n (CHR '' '') @ show_nat v @ '' kB'' @ [NL]) =
    Some (show_nat v @ '' '')"
proof -
  have hd: "is_digit (hd (show_nat v))" "show_nat v \<noteq> []"
    using show_nat_digits [of v] by (auto simp: list_all_iff)
  have drop: "dropWhile (\<lambda>c. c = CHR '' '') (replicate n (CHR '' '') @ show_nat v @ '' kB'' @ [NL]) =
      show_nat v @ '' kB'' @ [NL]"
    using hd by (induction n) (cases "show_nat v"; auto simp: is_digit_def)+
  have strchr: "strchr (key @ '':'' @ replicate n (CHR '' '') @ show_nat v @ '' kB'' @ [NL]) (CHR '':'') =
      Some ('':'' @ replicate n (CHR '' '') @ show_nat v @ '' kB'' @ [NL])"
    using strchr_append [OF assms] by simp
  have kv: "CHR ''k'' \<notin> set (show_nat v @ '' '')" "NL \<notin> set (show_nat v @ '' '')"
    using not_in_show [of "CHR ''k''" v] not_in_show [of NL v] by (simp_all add: is_digit_def)
  have "takeWhile (\<lambda>c. c \<notin> set [CHR ''k'', NL]) ((show_nat v @ '' '') @ CHR ''k'' # ''B'' @ [NL]) =
      show_nat v @ '' ''"
    using kv by (subst takeWhile_tail) (auto simp: takeWhile_eq_all_conv)
  then have "take (strcspn (show_nat v @ '' kB'' @ [NL]) [CHR ''k'', NL]) (show_nat v @ '' kB'' @ [NL]) =
      show_nat v @ '' ''"
    unfolding strcspn_take by simp
  moreover have "tl ('':'' @ u) = u" for u by simp
  ultimately show ?thesis
    unfolding meminfo_value_def strchr option.case Let_def by (simp only: drop)
qed

lemma leading_number_show: "leading_number (show_nat v @ '' '') = of_nat v"
  using takeWhile_digits [OF show_nat_digits, of "'' ''" v] by (simp add: leading_number_def is_digit_def)

lemma meminfo_text_values:
  assumes "tot < 18446744073709551616" and "fre < 18446744073709551616"
    and "list_all (\<lambda>u. NL \<notin> set u \<and> NUL \<notin> set u \<and> length u + 2 \<le> BUFF_SMALL \<and>
      \<not> strn_eq u ''MemTotal'' 8 \<and> \<not> strn_eq u ''MemFree'' 7) others"
    and "bufs = fgets_lines BUFF_SMALL (lines_text (meminfo_text tot fre others))"
  shows "mem_values ''MemTotal'' bufs = [show_nat tot @ '' '']"
    "mem_values ''MemFree'' bufs = [show_nat fre @ '' '']"
proof -
  let ?t = "''MemTotal'' @ '':'' @ replicate (7 + (8 - length (show_nat tot))) (CHR '' '') @ show_nat tot @ '' kB'' @ [NL]"
  let ?f = "''MemFree'' @ '':'' @ replicate (8 + (8 - length (show_nat fre))) (CHR '' '') @ show_nat fre @ '' kB'' @ [NL]"
  have len: "length (show_nat tot) \<le> 20" "length (show_nat fre) \<le> 20"
    using assms(1,2) by (auto intro: length_show_nat)
  have lines: "bufs = ?t # ?f # map (\<lambda>u. u @ [NL]) others"
    unfolding assms(4) using assms(3) len not_in_show [of NL] not_in_show [of NUL]
    by (subst fgets_lines_text)
      (auto simp: meminfo_text_def show_kb_def BUFF_SMALL_def list_all_iff numeral_eq_Suc)
  have others: "mem_values key (map (\<lambda>u. u @ [NL]) others) = []"
    if "\<forall>u \<in> set others. \<not> strn_eq (u @ [NL]) key (length key)" for key
    using that by (induction others) (auto simp: mem_values_Cons split: option.splits)
  have "\<not> strn_eq (u @ [NL]) ''MemTotal'' 8" "\<not> strn_eq (u @ [NL]) ''MemFree'' 7" if "u \<in> set others" for u
    using that assms(3) by (intro strn_eq_snoc; auto simp: list_all_iff)+
  then have "mem_values ''MemTotal'' (map (\<lambda>u. u @ [NL]) others) = []"
      "mem_values ''MemFree'' (map (\<lambda>u. u @ [NL]) others) = []"
    by (intro others ballI; simp add: numeral_eq_Suc)+
  moreover have "strn_eq ?t ''MemTotal'' (length ''MemTotal'')" "\<not> strn_eq ?t ''MemFree'' (length ''MemFree'')"
      "strn_eq ?f ''MemFree'' (length ''MemFree'')" "\<not> strn_eq ?f ''MemTotal'' (length ''MemTotal'')"
    by (simp_all add: strn_eq_def)
  moreover have "meminfo_value ?t = Some (show_nat tot @ '' '')"
      "meminfo_value ?f = Some (show_nat fre @ '' '')"
    by (rule meminfo_value_text; simp)+
  ultimately show "mem_values ''MemTotal'' bufs = [show_nat tot @ '' '']"
      "mem_values ''MemFree'' bufs = [show_nat fre @ '' '']"
    unfolding lines mem_values_Cons by (simp_all only: option.case if_True if_False)
qed

lemma sys_ram_read_missing_run:
  assumes k: "kernel_ok k" "k s 8224 = Some t" and f: "fs ''/proc/meminfo'' = Some f"
    and bufs: "bufs = fgets_lines BUFF_SMALL f" "values_length bufs \<le> 8192"
    and none: "mem_values ''MemTotal'' bufs = []"
  shows "sys_ram_read k fs s (Some m) = Inl Uninitialised"
proof -
  obtain tot fre s1 s2 where r: "sys_ram_read k fs s (Some m) =
      andthen (parse_slice s1 tot) (\<lambda>tv. andthen (parse_slice s1 fre) (\<lambda>fv.
      Inr (ERR_OK, m\<lparr>mem_total := tv, mem_free := fv\<rparr>, s2)))"
      "meminfo_inv s1 t tot fre bufs"
    by (rule sys_ram_read_scope [where fs = fs and m = m, OF k f bufs])
  have "tot = None" using r(2) none by (simp add: meminfo_inv_def holds_last_def)
  then show ?thesis using r(1) by (simp add: parse_slice_def)
qed

text \<open>An 8 KiB arena on the empty address space.\<close>

lemma page_kernel_8k: "page_kernel empty_os 8224 = Some 4096"
  by (rule page_kernel_empty) simp_all

definition demo_meminfo :: files where
  "demo_meminfo = (\<lambda>_. Some (lines_text (meminfo_text 16318480 512000 [''Buffers:          1024 kB''])))"

lemma demo_meminfo_values:
  assumes "bufs = fgets_lines BUFF_SMALL (lines_text (meminfo_text 16318480 512000 [''Buffers:          1024 kB'']))"
  shows "mem_values ''MemTotal'' bufs = [show_nat 16318480 @ '' '']"
    "mem_values ''MemFree'' bufs = [show_nat 512000 @ '' '']"
  by (rule meminfo_text_values [OF _ _ _ assms]; simp add: strn_eq_def BUFF_SMALL_def)+

theorem sys_ram_read_values_witness:
  "\<exists>s'. sys_ram_read page_kernel demo_meminfo empty_os (Some \<lparr>mem_total = 0, mem_free = 0\<rparr>) =
     Inr (ERR_OK, \<lparr>mem_total = 16318480, mem_free = 512000\<rparr>, s') \<and> regions s' = []"
proof -
  let ?f = "lines_text (meminfo_text 16318480 512000 [''Buffers:          1024 kB''])"
  let ?bufs = "fgets_lines BUFF_SMALL ?f"
  note vs = demo_meminfo_values [OF refl]
  have "length (show_nat 16318480) \<le> 8" "length (show_nat 512000) \<le> 6"
    by (intro length_show_nat; simp)+
  then have "values_length ?bufs \<le> 8192"
    unfolding values_length_def total_length_def vs by simp
  moreover have "demo_meminfo ''/proc/meminfo'' = Some ?f" by (simp add: demo_meminfo_def)
  moreover have "leading_number (last (mem_values ''MemTotal'' ?bufs)) = 16318480"
      "leading_number (last (mem_values ''MemFree'' ?bufs)) = 512000"
    unfolding vs by (simp_all add: leading_number_show)
  ultimately show ?thesis
    using sys_ram_read_values [of page_kernel empty_os 4096 demo_meminfo ?f ?bufs
        "\<lparr>mem_total = 0, mem_free = 0\<rparr>", OF page_kernel_ok page_kernel_8k] vs
    by (auto simp: empty_os_def)
qed

text \<open>On the text the kernel writes to \<open>/proc/meminfo\<close>, with any further lines, \<open>sys_ram_read\<close>
  stores the kernel's two numbers as they are, in KiB; the message of the API documents bytes.\<close>

theorem sys_ram_read_kernel_text:
  assumes "kernel_ok k" and "k s 8224 = Some t"
    and "fs ''/proc/meminfo'' = Some (lines_text (meminfo_text (unat tv) (unat fv) others))"
    and "list_all (\<lambda>u. NL \<notin> set u \<and> NUL \<notin> set u \<and> length u + 2 \<le> BUFF_SMALL \<and>
      \<not> strn_eq u ''MemTotal'' 8 \<and> \<not> strn_eq u ''MemFree'' 7) others"
  shows "\<exists>s'. sys_ram_read k fs s (Some m) = Inr (ERR_OK, \<lparr>mem_total = tv, mem_free = fv\<rparr>, s') \<and>
    regions s' = regions s"
proof -
  define bufs where "bufs = fgets_lines BUFF_SMALL (lines_text (meminfo_text (unat tv) (unat fv) others))"
  note vs = meminfo_text_values [OF unat_less_2_64 unat_less_2_64 assms(4) bufs_def]
  have "values_length bufs \<le> 8192"
    unfolding values_length_def total_length_def vs
    using length_show_u64 [of tv] length_show_u64 [of fv] by simp
  moreover have "leading_number (last (mem_values ''MemTotal'' bufs)) = tv"
      "leading_number (last (mem_values ''MemFree'' bufs)) = fv"
    unfolding vs by (simp_all add: leading_number_show)
  moreover have "mem_values ''MemTotal'' bufs \<noteq> []" "mem_values ''MemFree'' bufs \<noteq> []"
    unfolding vs by simp_all
  ultimately show ?thesis
    using sys_ram_read_run [where fs = fs and m = m, OF assms(1,2,3) bufs_def] by metis
qed

text \<open>Without a \<open>MemTotal\<close> line the call parses through a pointer it never assigned.\<close>

theorem sys_ram_read_missing:
  assumes "kernel_ok k" and "k s 8224 = Some t" and "fs ''/proc/meminfo'' = Some f"
    and "bufs = fgets_lines BUFF_SMALL f" and "values_length bufs \<le> 8192"
    and "mem_values ''MemTotal'' bufs = []"
  shows "sys_ram_read k fs s (Some m) = Inl Uninitialised"
  by (rule sys_ram_read_missing_run [where fs = fs, OF assms])

end
