(* ===== verification/Device.thy ===== *)
theory Device
  imports Resources Arena Libc "HOL-Library.Signed_Division"
begin

text \<open>
  The file system and device readers of \<open>libres/resources.cc\<close>: \<open>fs_create\<close>, \<open>fs_read\<close>,
  \<open>device_create\<close>, \<open>device_up_time\<close> and \<open>device_read\<close>. The system call \<open>statfs\<close> is a parameter.
\<close>

section \<open>File systems\<close>

record statfs_buf =
  f_bsize :: "64 word"
  f_blocks :: u64
  f_bfree :: u64
  f_bavail :: u64

definition fs_create :: "os \<Rightarrow> u64 \<Rightarrow> (u64 \<times> os) run" where
  "fs_create s a = arena_alloc s a sizeof_sys_fs"

definition fs_read :: "(string \<Rightarrow> statfs_buf option) \<Rightarrow> string \<Rightarrow> sys_fs \<Rightarrow> err_code \<times> sys_fs" where
  "fs_read statfs path fs = (case statfs path of
     None \<Rightarrow> (ERR_IO, fs)
   | Some b \<Rightarrow>
       let bsize = f_bsize b in
       (ERR_OK, fs\<lparr>fs_total := f_blocks b * bsize, fs_free := f_bfree b * bsize,
                   fs_available := f_bavail b * bsize,
                   fs_used := (f_blocks b - f_bfree b) * bsize\<rparr>))"

section \<open>Devices\<close>

definition device_create :: "os \<Rightarrow> u64 \<Rightarrow> (u64 \<times> os) run" where
  "device_create s m = arena_alloc s m sizeof_sys_device"

text \<open>\<open>sprintf(out->uptime, "%ldd %ldh %ldm", day, hour, min)\<close>; the divisions are C's, which round
  to zero.\<close>

definition uptime_text :: "int \<Rightarrow> string" where
  "uptime_text s =
     show_int (s sdiv 86400) @ ''d '' @ show_int (s smod 86400 sdiv 3600) @ ''h '' @
     show_int (s smod 3600 sdiv 60) @ ''m''"

definition device_up_time :: "files \<Rightarrow> sys_device option \<Rightarrow> (err_code \<times> sys_device) run" where
  "device_up_time fs out = (case out of
     None \<Rightarrow> Inl Assertion_failed
   | Some d \<Rightarrow> (case fs ''/proc/uptime'' of
       None \<Rightarrow> Inl Assertion_failed
     | Some f \<Rightarrow> (case scan_ld f of
         None \<Rightarrow> Inl Assertion_failed
       | Some (s, _) \<Rightarrow>
           andthen (buf_copy (uptime d) (uptime_text s @ [NUL])) (\<lambda>b.
           Inr (ERR_OK, d\<lparr>uptime := b\<rparr>)))))"

text \<open>The text between the first two quotes of a line that starts with \<open>NAME=\<close>.\<close>

definition os_name :: "string \<Rightarrow> string option" where
  "os_name buf =
     (if strn_eq buf ''NAME='' 5 then
        (case strchr buf (CHR 0x22) of
           None \<Rightarrow> None
         | Some start \<Rightarrow> (case strchr (tl start) (CHR 0x22) of
             None \<Rightarrow> None
           | Some stop \<Rightarrow> Some (take (length (tl start) - length stop) (tl start))))
      else None)"

fun os_release_lines :: "string list \<Rightarrow> sys_device \<Rightarrow> sys_device run" where
  "os_release_lines [] d = Inr d"
| "os_release_lines (buf # bufs) d = (case os_name buf of
     None \<Rightarrow> os_release_lines bufs d
   | Some nm \<Rightarrow>
       if length nm < 256 then
         andthen (buf_copy (os_version d) nm) (\<lambda>b.
         andthen (buf_set b (length nm) NUL) (\<lambda>b.
         os_release_lines bufs (d\<lparr>os_version := b\<rparr>)))
       else os_release_lines bufs d)"

definition device_read :: "files \<Rightarrow> sys_device option \<Rightarrow> (err_code \<times> sys_device option) run" where
  "device_read fs out = (case out of
     None \<Rightarrow> Inl Assertion_failed
   | Some d \<Rightarrow> (case fs ''/etc/os-release'' of
       None \<Rightarrow> Inr (ERR_IO, Some d)
     | Some f \<Rightarrow>
         andthen (os_release_lines (fgets_lines 256 f) d) (\<lambda>d1.
         andthen (device_up_time fs (Some d1)) (\<lambda>(_, d2).
         Inr (ERR_OK, Some d2)))))"

section \<open>What they compute\<close>

definition os_names :: "string list \<Rightarrow> string list" where
  "os_names bufs = List.map_filter os_name bufs"

lemma set_strchr: "strchr s c = Some u \<Longrightarrow> set u \<subseteq> set s \<and> length u \<le> length s"
  using strchr_Some [of s c u] by auto

lemma os_name_sub:
  assumes "os_name buf = Some nm"
  shows "set nm \<subseteq> set buf" and "length nm < length buf"
proof -
  obtain start stop where s: "strchr buf (CHR 0x22) = Some start" "strchr (tl start) (CHR 0x22) = Some stop"
      "nm = take (length (tl start) - length stop) (tl start)"
    using assms by (auto simp: os_name_def split: if_splits option.splits)
  have ne: "start \<noteq> []" "length start \<le> length buf" "set start \<subseteq> set buf"
    using strchr_Some [OF s(1)] by auto
  have "set (tl start) \<subseteq> set start" by (cases start) auto
  then show "set nm \<subseteq> set buf" using s(3) ne(3) set_take_subset by fast
  show "length nm < length buf" using s(3) ne(1,2) by (cases start) auto
qed

lemma os_release_run:
  assumes "wf_device d" and "\<forall>buf \<in> set bufs. length buf \<le> 255 \<and> NUL \<notin> set buf"
  shows "\<exists>v. os_release_lines bufs d = Inr (d\<lparr>os_version := v\<rparr>) \<and> length v = 256 \<and>
    c_str v = (if os_names bufs = [] then c_str (os_version d) else last (os_names bufs))"
  using assms
proof (induction bufs arbitrary: d)
  case Nil
  then show ?case by (intro exI [of _ "os_version d"]) (simp add: os_names_def map_filter_simps wf_device_def)
next
  case (Cons buf bufs)
  show ?case
  proof (cases "os_name buf")
    case None
    then have eqs: "os_names (buf # bufs) = os_names bufs"
        "os_release_lines (buf # bufs) d = os_release_lines bufs d"
      by (simp_all add: os_names_def map_filter_simps)
    show ?thesis unfolding eqs using Cons.prems by (intro Cons.IH) simp_all
  next
    case (Some nm)
    have nm: "NUL \<notin> set nm" "length nm < 256" using os_name_sub [OF Some] Cons.prems(2) by auto
    let ?d = "d\<lparr>os_version := terminated (os_version d) nm\<rparr>"
    have wf: "wf_device ?d" using Cons.prems(1) nm(2) by (simp add: wf_device_def length_terminated)
    have step: "os_release_lines (buf # bufs) d = os_release_lines bufs ?d"
      using Some nm(2) Cons.prems(1) buf_copy_terminated [of nm "os_version d"]
      by (simp add: wf_device_def terminated_def flip: andthen_assoc)
    obtain v where v: "os_release_lines bufs ?d = Inr (?d\<lparr>os_version := v\<rparr>)" "length v = 256"
        "c_str v = (if os_names bufs = [] then c_str (os_version ?d) else last (os_names bufs))"
      using Cons.IH [OF wf] Cons.prems(2) by auto
    have "os_names (buf # bufs) = nm # os_names bufs" using Some by (simp add: os_names_def map_filter_simps)
    then show ?thesis
      using step v c_str_terminated [OF nm(1)] by (intro exI [of _ v]) simp
  qed
qed

lemma length_show_int: "- (10 ^ k) < i \<Longrightarrow> i < 10 ^ k \<Longrightarrow> 0 < k \<Longrightarrow> length (show_int i) \<le> Suc k"
  using length_show_nat [of "nat i" k] length_show_nat [of "nat (- i)" k]
  by (auto simp: show_int_def nat_less_iff)

lemma length_show_i64: "\<bar>i\<bar> \<le> 9223372036854775808 \<Longrightarrow> length (show_int i) \<le> 20"
  using length_show_int [of 19 i] by simp

lemma NUL_notin_show_int: "NUL \<notin> set (show_int i)"
  by (simp add: show_int_def not_in_show)

lemma scan_ld_range: "scan_ld f = Some (s, r) \<Longrightarrow> - 9223372036854775808 \<le> s \<and> s \<le> 9223372036854775807"
  by (auto simp: scan_ld_def Let_def split: prod.splits if_splits)

lemma abs_sdiv_le:
  fixes a b :: int
  assumes "0 < b"
  shows "\<bar>a sdiv b\<bar> \<le> \<bar>a\<bar>" and "\<bar>a smod b\<bar> \<le> \<bar>a\<bar>"
proof -
  have le: "\<bar>a\<bar> div b \<le> \<bar>a\<bar>" "0 \<le> \<bar>a\<bar> div b" "0 \<le> \<bar>a\<bar> mod b" "\<bar>a\<bar> mod b \<le> \<bar>a\<bar>"
    using assms zdiv_mono2 [of "\<bar>a\<bar>" 1 b]
    by (auto simp: pos_imp_zdiv_nonneg_iff zmod_le_nonneg_dividend)
  show "\<bar>a sdiv b\<bar> \<le> \<bar>a\<bar>"
    using le(1,2) assms by (auto simp: signed_divide_int_def abs_mult sgn_if)
  have "a smod b = sgn a * (\<bar>a\<bar> mod b)"
    using assms minus_mult_div_eq_mod [of "\<bar>a\<bar>" b]
    by (auto simp: signed_modulo_int_def sgn_if algebra_simps)
  then show "\<bar>a smod b\<bar> \<le> \<bar>a\<bar>" using le(3,4) by (auto simp: abs_mult sgn_if)
qed

lemma length_uptime_text:
  assumes "- 9223372036854775808 \<le> s" and "s \<le> 9223372036854775807"
  shows "length (uptime_text s) < 255"
proof -
  let ?a = "s sdiv 86400" and ?b = "s smod 86400 sdiv 3600" and ?c = "s smod 3600 sdiv 60"
  have abs: "\<bar>s\<bar> \<le> 9223372036854775808" using assms by linarith
  have "\<bar>?a\<bar> \<le> 9223372036854775808" "\<bar>?b\<bar> \<le> 9223372036854775808" "\<bar>?c\<bar> \<le> 9223372036854775808"
    using abs abs_sdiv_le(1) [of 86400 s] abs_sdiv_le(1) [of 3600 "s smod 86400"] abs_sdiv_le(2) [of 86400 s]
      abs_sdiv_le(1) [of 60 "s smod 3600"] abs_sdiv_le(2) [of 3600 s] by linarith+
  then have "length (show_int ?a) \<le> 20" "length (show_int ?b) \<le> 20" "length (show_int ?c) \<le> 20"
    by (intro length_show_i64; simp)+
  then show ?thesis by (simp add: uptime_text_def)
qed

lemma device_up_time_run:
  assumes "wf_device d" and "fs ''/proc/uptime'' = Some f" and "scan_ld f = Some (s, r)"
  shows "device_up_time fs (Some d) = Inr (ERR_OK, d\<lparr>uptime := terminated (uptime d) (uptime_text s)\<rparr>)"
  using assms length_uptime_text [of s] scan_ld_range [OF assms(3)]
  by (simp add: device_up_time_def buf_copy_def wf_device_def terminated_def)

lemma NUL_notin_uptime: "NUL \<notin> set (uptime_text s)"
  by (simp add: uptime_text_def NUL_notin_show_int)

lemma uptime_text_nat:
  "uptime_text (int n) = show_nat (n div 86400) @ ''d '' @ show_nat (n mod 86400 div 3600) @ ''h '' @
     show_nat (n mod 3600 div 60) @ ''m''"
proof -
  have "int a sdiv int b = int (a div b)" "int a smod int b = int (a mod b)" for a b
    by (simp_all add: signed_divide_int_def signed_modulo_int_def sgn_if zdiv_int zmod_int
        minus_div_mult_eq_mod)
  from this [of n 86400] this [of n 3600] this [of "n mod 86400" 3600] this [of "n mod 3600" 60]
  show ?thesis by (simp add: uptime_text_def show_int_def)
qed

lemma os_release_wf: "os_release_lines bufs d = Inr d' \<Longrightarrow> wf_device d \<Longrightarrow> wf_device d'"
proof (induction bufs arbitrary: d)
  case (Cons buf bufs)
  show ?case
  proof (cases "os_name buf")
    case (Some nm)
    show ?thesis
    proof (cases "length nm < 256")
      case True
      then obtain b1 b2 where b: "buf_copy (os_version d) nm = Inr b1" "buf_set b1 (length nm) NUL = Inr b2"
          "os_release_lines bufs (d\<lparr>os_version := b2\<rparr>) = Inr d'"
        using Cons.prems(1) Some by (auto simp: andthen_eq_Inr)
      have "wf_device (d\<lparr>os_version := b2\<rparr>)"
        using Cons.prems(2) buf_copy_run [OF b(1)] buf_set_run [OF b(2)] by (simp add: wf_device_def)
      then show ?thesis using Cons.IH b(3) by blast
    qed (use Some Cons in simp)
  qed (use Cons in simp)
qed simp

lemma device_read_wf:
  assumes "device_read fs (Some d) = Inr (e, d')" and "wf_device d"
  shows "\<exists>d1. d' = Some d1 \<and> wf_device d1"
proof (cases "fs ''/etc/os-release''")
  case (Some f)
  then obtain d1 e2 d2 where d: "os_release_lines (fgets_lines 256 f) d = Inr d1"
      "device_up_time fs (Some d1) = Inr (e2, d2)" "d' = Some d2"
    using assms(1) by (auto simp: device_read_def andthen_eq_Inr)
  have "wf_device d2"
    using d(2) os_release_wf [OF d(1) assms(2)]
    by (auto simp: device_up_time_def andthen_eq_Inr wf_device_def dest!: buf_copy_run split: option.splits)
  then show ?thesis using d(3) by simp
qed (use assms in \<open>auto simp: device_read_def\<close>)

lemma device_read_run:
  assumes "wf_device d" and "fs ''/etc/os-release'' = Some f" and "fs ''/proc/uptime'' = Some u"
    and "scan_ld u = Some (secs, r)"
  shows "\<exists>d'. device_read fs (Some d) = Inr (ERR_OK, Some d') \<and> wf_device d' \<and>
    c_str (os_version d') = (if os_names (fgets_lines 256 f) = [] then c_str (os_version d)
                             else last (os_names (fgets_lines 256 f))) \<and>
    c_str (uptime d') = uptime_text secs \<and> processes d' = processes d \<and> port d' = port d"
proof -
  let ?bufs = "fgets_lines 256 f"
  have bufs: "\<forall>buf \<in> set ?bufs. length buf \<le> 255 \<and> NUL \<notin> set buf"
    using fgets_lines_length [of _ 256 f] fgets_lines_NUL [of _ 256 f] by auto
  obtain v where v: "os_release_lines ?bufs d = Inr (d\<lparr>os_version := v\<rparr>)" "length v = 256"
      "c_str v = (if os_names ?bufs = [] then c_str (os_version d) else last (os_names ?bufs))"
    using os_release_run [OF assms(1) bufs] by blast
  have wf: "wf_device (d\<lparr>os_version := v\<rparr>)" using assms(1) v(2) by (simp add: wf_device_def)
  have len: "length (uptime_text secs) < 256"
    using length_uptime_text [of secs] scan_ld_range [OF assms(4)] by simp
  show ?thesis
    using device_up_time_run [of "d\<lparr>os_version := v\<rparr>" fs, OF wf assms(3,4)] v assms(1,2) len
    by (simp add: device_read_def wf_device_def length_terminated c_str_terminated NUL_notin_uptime)
qed

text \<open>A line names the operating system \<open>nm\<close>: after \<open>NAME=\<close> the first text in quotes is \<open>nm\<close>.\<close>

definition names_os :: "string \<Rightarrow> string \<Rightarrow> bool" where
  "names_os line nm \<longleftrightarrow> (\<exists>pre post. line = ''NAME='' @ pre @ [CHR 0x22] @ nm @ [CHR 0x22] @ post \<and>
     CHR 0x22 \<notin> set pre \<and> CHR 0x22 \<notin> set nm)"

lemma strchr_eq_Some: "strchr s c = Some u \<longleftrightarrow> (\<exists>pre r. s = pre @ u \<and> u = c # r \<and> c \<notin> set pre)"
  using strchr_Some [of s c u] strchr_append by (cases u) fastforce+

lemma os_name_names: "os_name line = Some nm \<longleftrightarrow> names_os line nm"
proof
  let ?q = "CHR 0x22"
  assume "os_name line = Some nm"
  then obtain start stop where o: "strn_eq line ''NAME='' 5" "strchr line ?q = Some start"
      "strchr (tl start) ?q = Some stop" "nm = take (length (tl start) - length stop) (tl start)"
    by (auto simp: os_name_def split: if_splits option.splits)
  obtain u r where u: "line = u @ ?q # r" "start = ?q # r" "?q \<notin> set u" using o(2) by (auto simp: strchr_eq_Some)
  obtain v post where v: "r = v @ ?q # post" "stop = ?q # post" "?q \<notin> set v"
    using o(3) u(2) by (auto simp: strchr_eq_Some)
  have nm: "nm = v" using o(4) u(2) v by simp
  obtain rest where rest: "line = ''NAME='' @ rest"
    using o(1) append_take_drop_id [of 5 line] by (simp add: strn_eq_def) metis
  have "\<exists>pre. u = ''NAME='' @ pre"
    using u(1,3) rest by (auto simp: append_eq_append_conv2 append_eq_Cons_conv Cons_eq_append_conv)
  then obtain pre where pre: "u = ''NAME='' @ pre" by blast
  have "line = ''NAME='' @ pre @ [?q] @ v @ [?q] @ post" "?q \<notin> set pre" using u(1,3) v(1) pre by simp_all
  then show "names_os line nm" using v(3) nm unfolding names_os_def by blast
next
  assume "names_os line nm"
  then obtain pre post where l: "line = ''NAME='' @ pre @ CHR 0x22 # nm @ CHR 0x22 # post" "CHR 0x22 \<notin> set pre"
      "CHR 0x22 \<notin> set nm" by (auto simp: names_os_def)
  have "strchr line (CHR 0x22) = Some (CHR 0x22 # nm @ CHR 0x22 # post)"
    using strchr_append [of "CHR 0x22" "''NAME='' @ pre"] l by simp
  moreover have "strchr (nm @ CHR 0x22 # post) (CHR 0x22) = Some (CHR 0x22 # post)" by (rule strchr_append [OF l(3)])
  ultimately show "os_name line = Some nm" by (simp add: os_name_def strn_eq_def l(1))
qed

section \<open>Properties\<close>

definition demo_device_files :: files where
  "demo_device_files path =
     (if path = ''/etc/os-release'' then Some (''NAME='' @ [CHR 0x22] @ ''Arch'' @ [CHR 0x22, NL])
      else Some (show_nat 93784 @ ''.12 5.3'' @ [NL]))"

text \<open>C29: \<open>fs_read\<close> answers \<open>ERR_IO\<close> and leaves the structure alone when \<open>statfs\<close> fails. Otherwise, for a file system
  whose size in bytes is below \<open>2 ^ 64\<close> and that has no more free or available blocks than blocks, all four byte
  counts are exact: total, free and available are the block counts of the kernel times the block size, used is
  that of the blocks that are not free, and used and free add up to the total.\<close>

theorem fs_read_exact:
  assumes "\<forall>b. statfs path = Some b \<longrightarrow> unat (f_blocks b) * unat (f_bsize b) < 18446744073709551616 \<and>
    f_bfree b \<le> f_blocks b \<and> f_bavail b \<le> f_blocks b"
  shows "case statfs path of
      None \<Rightarrow> fs_read statfs path fs = (ERR_IO, fs)
    | Some b \<Rightarrow> \<exists>fs'. fs_read statfs path fs = (ERR_OK, fs') \<and>
        unat (fs_total fs') = unat (f_blocks b) * unat (f_bsize b) \<and>
        unat (fs_free fs') = unat (f_bfree b) * unat (f_bsize b) \<and>
        unat (fs_available fs') = unat (f_bavail b) * unat (f_bsize b) \<and>
        unat (fs_used fs') = (unat (f_blocks b) - unat (f_bfree b)) * unat (f_bsize b) \<and>
        unat (fs_used fs') + unat (fs_free fs') = unat (fs_total fs')"
proof (cases "statfs path")
  case None
  then show ?thesis by (simp add: fs_read_def)
next
  case (Some b)
  let ?n = "unat (f_bsize b)"
  have h: "unat (f_blocks b) * ?n < 18446744073709551616" "f_bfree b \<le> f_blocks b" "f_bavail b \<le> f_blocks b"
    using assms Some by simp_all
  have le: "unat (f_bfree b) \<le> unat (f_blocks b)" "unat (f_bavail b) \<le> unat (f_blocks b)"
    using h(2,3) by (simp_all add: word_le_nat_alt)
  have m: "unat (x * f_bsize b) = unat x * ?n" if "unat x \<le> unat (f_blocks b)" for x
  proof (rule unat_mult_nowrap)
    show "unat x * ?n < 18446744073709551616"
      using h(1) by (rule le_less_trans [OF mult_le_mono1 [OF that]])
  qed
  have used: "unat (f_blocks b - f_bfree b) = unat (f_blocks b) - unat (f_bfree b)" by (rule unat_sub_u64 [OF h(2)])
  have "unat ((f_blocks b - f_bfree b) * f_bsize b) = (unat (f_blocks b) - unat (f_bfree b)) * ?n"
    using m [of "f_blocks b - f_bfree b"] used by simp
  moreover have "(unat (f_blocks b) - unat (f_bfree b)) * ?n + unat (f_bfree b) * ?n = unat (f_blocks b) * ?n"
    using le(1) by (simp flip: distrib_right)
  ultimately show ?thesis
    using Some m [of "f_blocks b"] m [of "f_bfree b"] m [of "f_bavail b"] le by (simp add: fs_read_def Let_def)
qed

definition demo_statfs :: "string \<Rightarrow> statfs_buf option" where
  "demo_statfs = [''/'' \<mapsto> \<lparr>f_bsize = 4096, f_blocks = 1000, f_bfree = 400, f_bavail = 350\<rparr>]"

theorem fs_read_exact_witness:
  "\<exists>fs'. fs_read demo_statfs ''/'' \<lparr>fs_total = 0, fs_free = 0, fs_available = 0, fs_used = 0\<rparr> = (ERR_OK, fs') \<and>
     unat (fs_free fs') = 1638400 \<and> unat (fs_used fs') = 2457600"
  using fs_read_exact [of demo_statfs "''/''" "\<lparr>fs_total = 0, fs_free = 0, fs_available = 0, fs_used = 0\<rparr>"]
  by (auto simp: demo_statfs_def)

text \<open>C20: \<open>device_read\<close> on any files. It never overruns an array: without \<open>/etc/os-release\<close> it answers \<open>ERR_IO\<close> and changes
  nothing; when \<open>/proc/uptime\<close> is missing or does not begin with a number it aborts on an assertion; otherwise it
  succeeds. Then the operating system name is the first text in quotes of the last line that begins with \<open>NAME=\<close> and
  has one, or what it was when no line has; the uptime text is that of the seconds read, when they are not
  negative; process list and port are left alone.\<close>

theorem device_read_result:
  assumes "wf_device d"
  shows "case fs ''/etc/os-release'' of
      None \<Rightarrow> device_read fs (Some d) = Inr (ERR_IO, Some d)
    | Some f \<Rightarrow> (case Option.bind (fs ''/proc/uptime'') scan_ld of
        None \<Rightarrow> device_read fs (Some d) = Inl Assertion_failed
      | Some (secs, r) \<Rightarrow> \<exists>d'. device_read fs (Some d) = Inr (ERR_OK, Some d') \<and>
          (\<forall>bs line bs' nm. fgets_lines 256 f = bs @ line # bs' \<longrightarrow> names_os line nm \<longrightarrow>
             (\<forall>l \<in> set bs'. \<forall>n. \<not> names_os l n) \<longrightarrow> c_str (os_version d') = nm) \<and>
          ((\<forall>l \<in> set (fgets_lines 256 f). \<forall>n. \<not> names_os l n) \<longrightarrow> c_str (os_version d') = c_str (os_version d)) \<and>
          (\<forall>n. secs = int n \<longrightarrow> c_str (uptime d') = show_nat (n div 86400) @ ''d '' @
             show_nat (n mod 86400 div 3600) @ ''h '' @ show_nat (n mod 3600 div 60) @ ''m'') \<and>
          processes d' = processes d \<and> port d' = port d)"
proof (cases "fs ''/etc/os-release''")
  case None
  then show ?thesis by (simp add: device_read_def)
next
  case (Some f)
  note f = Some
  let ?bufs = "fgets_lines 256 f"
  have bufs: "\<forall>buf \<in> set ?bufs. length buf \<le> 255 \<and> NUL \<notin> set buf"
    using fgets_lines_length [of _ 256 f] fgets_lines_NUL [of _ 256 f] by auto
  show ?thesis
  proof (cases "Option.bind (fs ''/proc/uptime'') scan_ld")
    case None
    then have up: "device_up_time fs (Some d1) = Inl Assertion_failed" for d1
      by (auto simp: device_up_time_def bind_eq_None_conv split: option.splits)
    obtain v where "os_release_lines ?bufs d = Inr (d\<lparr>os_version := v\<rparr>)"
      using os_release_run [OF assms bufs] by blast
    then show ?thesis using f None up by (simp add: device_read_def)
  next
    case (Some x)
    then obtain u secs r where u: "fs ''/proc/uptime'' = Some u" "scan_ld u = Some (secs, r)" "x = (secs, r)"
      by (cases x) (auto simp: bind_eq_Some_conv)
    obtain d' where d': "device_read fs (Some d) = Inr (ERR_OK, Some d')"
        "c_str (os_version d') = (if os_names ?bufs = [] then c_str (os_version d) else last (os_names ?bufs))"
        "c_str (uptime d') = uptime_text secs" "processes d' = processes d" "port d' = port d"
      using device_read_run [where fs = fs, OF assms f u(1,2)] by blast
    have none: "os_names bs = []" if "\<forall>l \<in> set bs. \<forall>n. \<not> names_os l n" for bs
      using that by (auto simp: os_names_def map_filter_def filter_empty_conv os_name_names)
    have "c_str (os_version d') = nm"
      if "?bufs = bs @ line # bs'" "names_os line nm" "\<forall>l \<in> set bs'. \<forall>n. \<not> names_os l n" for bs line bs' nm
    proof -
      have "os_name line = Some nm" using that(2) by (simp add: os_name_names)
      then have "os_names ?bufs = os_names bs @ nm # os_names bs'"
        unfolding that(1) by (simp add: os_names_def map_filter_def)
      then show ?thesis using d'(2) none [OF that(3)] by simp
    qed
    then show ?thesis using f Some u(3) d' none uptime_text_nat by auto
  qed
qed

definition demo_os_line :: string where
  "demo_os_line = ''NAME='' @ [CHR 0x22] @ ''Arch'' @ [CHR 0x22, NL]"

lemma demo_os_names:
  "os_names (fgets_lines 256 (''NAME='' @ [CHR 0x22] @ ''Arch'' @ [CHR 0x22, NL])) = [''Arch'']"
proof -
  have "fgets_lines 256 (''NAME='' @ [CHR 0x22] @ ''Arch'' @ [CHR 0x22, NL]) =
      [''NAME='' @ [CHR 0x22] @ ''Arch'' @ [CHR 0x22] @ [NL]]"
    using fgets_lines_Cons [of "''NAME='' @ [CHR 0x22] @ ''Arch'' @ [CHR 0x22]" 256 "[]"] by simp
  then show ?thesis by (simp add: os_names_def os_name_def map_filter_simps strn_eq_def)
qed

lemma demo_os_lines: "fgets_lines 256 (''NAME='' @ [CHR 0x22] @ ''Arch'' @ [CHR 0x22, NL]) = [demo_os_line]"
  using fgets_lines_Cons [of "''NAME='' @ [CHR 0x22] @ ''Arch'' @ [CHR 0x22]" 256 "[]"] by (simp add: demo_os_line_def)

theorem device_read_result_witness:
  "\<exists>d'. device_read demo_device_files (Some zero_device) = Inr (ERR_OK, Some d') \<and>
     c_str (os_version d') = ''Arch'' \<and> c_str (uptime d') = show_nat 1 @ ''d '' @ show_nat 2 @ ''h '' @ show_nat 3 @ ''m''"
proof -
  have "scan_ld ([] @ show_nat 93784 @ ''.12 5.3'' @ [NL]) = Some (int 93784, ''.12 5.3'' @ [NL])"
    by (rule scan_ld_show) (simp_all add: is_digit_def)
  then have scan: "scan_ld (show_nat 93784 @ ''.12 5.3'' @ [NL]) = Some (93784, ''.12 5.3'' @ [NL])" by simp
  have f: "demo_device_files ''/etc/os-release'' = Some (''NAME='' @ [CHR 0x22] @ ''Arch'' @ [CHR 0x22, NL])"
      "demo_device_files ''/proc/uptime'' = Some (show_nat 93784 @ ''.12 5.3'' @ [NL])"
    by (simp_all add: demo_device_files_def)
  from device_read_result [of zero_device demo_device_files, OF wf_zero(2), unfolded f option.case bind.bind_lunit scan
      demo_os_lines prod.case]
  obtain d' where d': "device_read demo_device_files (Some zero_device) = Inr (ERR_OK, Some d')"
      "\<forall>bs line bs' nm. [demo_os_line] = bs @ line # bs' \<longrightarrow> names_os line nm \<longrightarrow>
         (\<forall>l \<in> set bs'. \<forall>n. \<not> names_os l n) \<longrightarrow> c_str (os_version d') = nm"
      "\<forall>n. (93784 :: int) = int n \<longrightarrow> c_str (uptime d') = show_nat (n div 86400) @ ''d '' @
         show_nat (n mod 86400 div 3600) @ ''h '' @ show_nat (n mod 3600 div 60) @ ''m''"
    by blast
  have "names_os demo_os_line ''Arch''"
    unfolding names_os_def demo_os_line_def by (intro exI [of _ "[]"] exI [of _ "[NL]"]) simp
  then have "c_str (os_version d') = ''Arch''" using d'(2) [rule_format, of "[]" demo_os_line "[]"] by simp
  then show ?thesis using d'(1) d'(3) [rule_format, of 93784] by auto
qed

text \<open>C30: the uptime the kernel reports is shown in whole days, hours below 24 and minutes below
  60 that make up the seconds to within a minute.\<close>

theorem device_up_time_text:
  assumes "wf_device d" and "n < 9223372036854775808" and "\<not> is_digit c"
    and "fs ''/proc/uptime'' = Some (show_nat n @ c # r)"
  shows "\<exists>d' day hour minute. device_up_time fs (Some d) = Inr (ERR_OK, d') \<and>
    c_str (uptime d') = show_nat day @ ''d '' @ show_nat hour @ ''h '' @ show_nat minute @ ''m'' \<and>
    hour < 24 \<and> minute < 60 \<and>
    day * 86400 + hour * 3600 + minute * 60 \<le> n \<and> n < day * 86400 + hour * 3600 + minute * 60 + 60"
proof -
  have "scan_ld ([] @ show_nat n @ c # r) = Some (int n, c # r)"
    using assms(2,3) by (intro scan_ld_show) simp_all
  then have scan: "scan_ld (show_nat n @ c # r) = Some (int n, c # r)" by simp
  let ?day = "n div 86400" and ?hour = "n mod 86400 div 3600" and ?min = "n mod 3600 div 60"
  have "n mod 86400 mod 3600 = n mod 3600" by (rule mod_mod_cancel) simp
  then have "?hour * 3600 + n mod 3600 = n mod 86400" using div_mult_mod_eq [of "n mod 86400" 3600] by simp
  moreover have "?min * 60 + n mod 3600 mod 60 = n mod 3600" by (rule div_mult_mod_eq)
  moreover have "?day * 86400 + n mod 86400 = n" by (rule div_mult_mod_eq)
  moreover have "n mod 3600 mod 60 < 60" by simp
  ultimately have sum: "?day * 86400 + ?hour * 3600 + ?min * 60 \<le> n"
      "n < ?day * 86400 + ?hour * 3600 + ?min * 60 + 60" by linarith+
  let ?d = "d\<lparr>uptime := terminated (uptime d) (uptime_text (int n))\<rparr>"
  have "c_str (uptime ?d) = show_nat ?day @ ''d '' @ show_nat ?hour @ ''h '' @ show_nat ?min @ ''m''"
    unfolding uptime_text_nat [symmetric] by (simp add: c_str_terminated NUL_notin_uptime)
  moreover have "device_up_time fs (Some d) = Inr (ERR_OK, ?d)"
    by (rule device_up_time_run [of d fs, OF assms(1,4) scan])
  moreover have "?hour < 24" "?min < 60" by (simp_all add: less_mult_imp_div_less)
  ultimately show ?thesis using sum by blast
qed

theorem device_up_time_text_witness:
  "\<exists>d' day hour minute. device_up_time demo_device_files (Some zero_device) = Inr (ERR_OK, d') \<and>
     c_str (uptime d') = show_nat day @ ''d '' @ show_nat hour @ ''h '' @ show_nat minute @ ''m'' \<and>
     day * 86400 + hour * 3600 + minute * 60 \<le> 93784"
proof -
  have f: "demo_device_files ''/proc/uptime'' = Some (show_nat 93784 @ CHR ''.'' # ''12 5.3'' @ [NL])"
    by (simp add: demo_device_files_def)
  have "\<not> is_digit (CHR ''.'')" by (simp add: is_digit_def)
  then show ?thesis using device_up_time_text [of zero_device 93784 "CHR ''.''" demo_device_files, OF _ _ _ f]
    by auto
qed

end
