(* ===== verification/Process.thy ===== *)
theory Process
  imports Resources Growable Parse
begin

text \<open>
  The process functions of \<open>libres/resources.cc\<close>: \<open>process_list_collect\<close>, \<open>process_read\<close> and
  \<open>process_kill\<close>. The names \<open>readdir\<close> returns for \<open>/proc\<close>, the files, and the system call
  \<open>kill\<close> are parameters.
\<close>

section \<open>Collecting processes\<close>

text \<open>The \<open>if (list->count == list->capacity)\<close> of the loop; nothing stands for its \<open>break\<close>.\<close>

definition process_list_grow :: "os \<Rightarrow> sys_proc_list \<Rightarrow> u64 \<Rightarrow> (sys_proc_list option \<times> os) run" where
  "process_list_grow s l a =
     (if proc_count l = proc_capacity l then
        let new_cap = proc_capacity l * 2 in
        andthen (arena_alloc s a (sizeof_sys_proc * new_cap)) (\<lambda>(np, s1).
        if np = 0 then Inr (None, s1)
        else andthen (memmove s1 np (items l) (sizeof_sys_proc * proc_capacity l)) (\<lambda>s2.
          Inr (Some (l\<lparr>items := np, proc_capacity := new_cap\<rparr>), s2)))
      else Inr (Some l, s))"

text \<open>The assignments to \<open>list->items[list->count++]\<close>; of the name only the first byte is set.\<close>

definition init_proc :: "u64 \<Rightarrow> sys_proc \<Rightarrow> sys_proc" where
  "init_proc v p = p\<lparr>pid := ucast v, state := proc_undefined, utime := 0, stime := 0,
     num_threads := 0, proc_name := (proc_name p)[0 := NUL]\<rparr>"

definition process_list_add :: "os \<Rightarrow> sys_proc_list \<Rightarrow> string \<Rightarrow> (sys_proc_list \<times> os) run" where
  "process_list_add s l d_name =
     (let p = items l + proc_count l * sizeof_sys_proc in
      andthen (parse_u64 (d_name @ [NUL]) 256) (\<lambda>v.
      andthen (load_bytes s p 48) (\<lambda>bs.
      andthen (memcpy s p (en_proc (init_proc v (de_proc bs)))) (\<lambda>s1.
      Inr (l\<lparr>proc_count := proc_count l + 1\<rparr>, s1)))))"

fun process_list_entries ::
  "string list \<Rightarrow> os \<Rightarrow> sys_proc_list \<Rightarrow> u64 \<Rightarrow> (sys_proc_list \<times> os) run" where
  "process_list_entries [] s l a = Inr (l, s)"
| "process_list_entries (d_name # names) s l a =
     andthen (is_numeric (d_name @ [NUL])) (\<lambda>b.
     if b = 0 then process_list_entries names s l a
     else andthen (process_list_grow s l a) (\<lambda>(grown, s1). case grown of
         None \<Rightarrow> Inr (l, s1)
       | Some l1 \<Rightarrow> andthen (process_list_add s1 l1 d_name) (\<lambda>(l2, s2).
           process_list_entries names s2 l2 a)))"

definition process_list_init :: "os \<Rightarrow> sys_proc_list \<Rightarrow> u64 \<Rightarrow> (sys_proc_list \<times> os) run" where
  "process_list_init s l a =
     (if items l = 0 then
        andthen (arena_alloc s a (sizeof_sys_proc * 8)) (\<lambda>(p, s1).
        if p = 0 then Inl Assertion_failed
        else Inr (\<lparr>items = p, proc_count = 0, proc_capacity = 8\<rparr>, s1))
      else Inr (l, s))"

definition process_list_collect ::
  "string list option \<Rightarrow> os \<Rightarrow> sys_proc_list \<Rightarrow> u64 \<Rightarrow> (err_code \<times> sys_proc_list \<times> os) run" where
  "process_list_collect dir s l a = (case dir of
     None \<Rightarrow> Inl Assertion_failed
   | Some names \<Rightarrow>
       andthen (process_list_init s l a) (\<lambda>(l1, s1).
       andthen (process_list_entries names s1 l1 a) (\<lambda>(l2, s2).
       Inr (ERR_OK, l2, s2))))"

section \<open>Reading one process\<close>

definition status_path :: "i32 \<Rightarrow> string" where
  "status_path n = take (PATH_MAX_LEN - 1) (''/proc/'' @ show_int (sint n) @ ''/status'')"

text \<open>\<open>val\<close>: the text after the colon without the blanks and tabs that follow it.\<close>

definition status_val :: "string \<Rightarrow> string option" where
  "status_val buf = (case strchr buf (CHR '':'') of
     None \<Rightarrow> None
   | Some colon \<Rightarrow> Some (dropWhile (\<lambda>c. c = CHR '' '' \<or> c = TAB) (tl colon)))"

definition is_state_char :: "char \<Rightarrow> bool" where
  "is_state_char c \<longleftrightarrow> (65 \<le> (of_char c :: nat) \<and> (of_char c :: nat) \<le> 90) \<or> c = CHR ''t''"

definition state_char :: "string \<Rightarrow> char" where
  "state_char val = (case dropWhile (\<lambda>c. \<not> is_state_char c) val of [] \<Rightarrow> NUL | c # _ \<Rightarrow> c)"

definition state_of_char :: "char \<Rightarrow> sys_proc_state" where
  "state_of_char c =
     (if c = CHR ''R'' then proc_running
      else if c = CHR ''S'' then proc_sleeping
      else if c = CHR ''D'' then proc_disk_sleeping
      else if c = CHR ''T'' then proc_sleeping
      else if c = CHR ''t'' then proc_tracing_stopped
      else if c = CHR ''Z'' then proc_zombie
      else if c = CHR ''X'' then proc_dead
      else if c = CHR ''I'' then proc_idle
      else proc_undefined)"

text \<open>\<open>sizeof(val)\<close> is the size of a pointer.\<close>

definition status_line :: "sys_proc \<Rightarrow> string \<Rightarrow> sys_proc run" where
  "status_line p buf = (case status_val buf of
     None \<Rightarrow> Inr p
   | Some val \<Rightarrow>
       let len = strcspn val [NL] in
       andthen (if strn_eq buf ''Name:'' 5
                then andthen (buf_copy (proc_name p) (take len val)) (\<lambda>b.
                     andthen (buf_set b len NUL) (\<lambda>b. Inr (p\<lparr>proc_name := b\<rparr>)))
                else Inr p) (\<lambda>p.
       andthen (if strn_eq buf ''State:'' 6
                then Inr (p\<lparr>state := state_of_char (state_char val)\<rparr>) else Inr p) (\<lambda>p.
       if strn_eq buf ''Threads:'' 8
       then andthen (parse_u64 (val @ [NUL]) 8) (\<lambda>v. Inr (p\<lparr>num_threads := ucast v\<rparr>))
       else Inr p)))"

fun status_lines :: "string list \<Rightarrow> sys_proc \<Rightarrow> sys_proc run" where
  "status_lines [] p = Inr p"
| "status_lines (buf # bufs) p = andthen (status_line p buf) (status_lines bufs)"

text \<open>\<open>close_ok\<close> is the outcome of \<open>fclose\<close>.\<close>

definition process_read :: "files \<Rightarrow> bool \<Rightarrow> i32 \<Rightarrow> sys_proc \<Rightarrow> (err_code \<times> sys_proc) run" where
  "process_read fs close_ok n out = (case fs (status_path n) of
     None \<Rightarrow> Inr (ERR_IO, out)
   | Some f \<Rightarrow>
       andthen (status_lines (fgets_lines BUFF_LARGE f) (out\<lparr>pid := n\<rparr>)) (\<lambda>p.
       Inr (if close_ok then ERR_OK else ERR_IO, p)))"

section \<open>Signals\<close>

datatype errno = EPERM | ESRCH | EINVAL

text \<open>Each error return of the source follows an \<open>assert(0)\<close>.\<close>

definition process_kill :: "(i32 \<Rightarrow> i32 \<Rightarrow> errno option) \<Rightarrow> i32 \<Rightarrow> i32 \<Rightarrow> err_code run" where
  "process_kill kill n signal =
     (if sint n \<le> 0 then andthen (c_assert False) (\<lambda>_. Inr ERR_INVALID)
      else (case kill n signal of
        None \<Rightarrow> Inr ERR_OK
      | Some EPERM \<Rightarrow> andthen (c_assert False) (\<lambda>_. Inr ERR_PERM)
      | Some ESRCH \<Rightarrow> andthen (c_assert False) (\<lambda>_. Inr ERR_INVALID)
      | Some _ \<Rightarrow> andthen (c_assert False) (\<lambda>_. Inr ERR_IO)))"

section \<open>The list of processes\<close>

definition proc_items :: "os \<Rightarrow> sys_proc_list \<Rightarrow> sys_proc list" where
  "proc_items s l = array_at 48 de_proc (mem s) (unat (items l)) (unat (proc_count l))"

definition proc_list_ok :: "os \<Rightarrow> u64 \<Rightarrow> nat \<Rightarrow> sys_proc_list \<Rightarrow> bool" where
  "proc_list_ok s a lo l \<longleftrightarrow>
     arena_base s a \<le> lo \<and> lo \<le> unat (items l) \<and>
     unat (items l) + unat (proc_capacity l) * 48 \<le> arena_top s a \<and>
     0 < proc_capacity l \<and> proc_count l \<le> proc_capacity l"

text \<open>What a client sees of an entry: its name is a C string.\<close>

definition proc_view :: "sys_proc \<Rightarrow> sys_proc" where
  "proc_view p = p\<lparr>proc_name := c_str (proc_name p)\<rparr>"

definition new_proc :: "string \<Rightarrow> sys_proc" where
  "new_proc d_name = \<lparr>proc_name = [], num_threads = 0, stime = 0, utime = 0,
     pid = of_nat (digits_value d_name), state = proc_undefined\<rparr>"

definition proc_entry_name :: "string \<Rightarrow> bool" where
  "proc_entry_name d_name \<longleftrightarrow> NUL \<notin> set d_name \<and> length d_name < 256"

interpretation procs: growable arena_alloc arena_ok arena_base arena_top arena_room unat 48
  en_proc de_proc wf_proc ..

lemma ucast_of_nat_u64: "(ucast (of_nat n :: u64) :: i32) = of_nat n"
  by (simp add: unsigned_of_nat of_nat_take_bit take_bit_word_eq_self)

end
