(* ===== verification/Process_List.thy ===== *)
theory Process_List
  imports Process
begin

text \<open>
  \<open>process_list_collect\<close> collects every numeric name of \<open>/proc\<close> once and in order. The proof
  follows the two steps of the loop, growing the array and filling an entry.
\<close>

section \<open>Steps\<close>

lemma process_list_grow_full:
  assumes ok: "arena_ok s a" "proc_list_ok s a lo l" and full: "proc_count l = proc_capacity l"
    and room: "96 * unat (proc_capacity l) \<le> arena_room s a"
  obtains l1 s1 where "process_list_grow s l a = Inr (Some l1, s1)" and "arena_ok s1 a"
    and "proc_list_ok s1 a lo l1" and "regions s1 = regions s" and "arena_base s1 a = arena_base s a"
    and "proc_count l1 = proc_count l" and "unat (proc_capacity l1) = 2 * unat (proc_capacity l)"
    and "proc_items s1 l1 = proc_items s l"
    and "arena_room s1 a = arena_room s a - 96 * unat (proc_capacity l)"
    and "\<forall>x. arena_base s a \<le> x \<and> x < lo \<longrightarrow> mem s1 x = mem s x"
proof -
  let ?c = "proc_capacity l"
  define bytes where "bytes = sizeof_sys_proc * (?c * 2)"
  have bound: "96 * unat ?c < 18446744073709551616" using room arena.bounds [OF ok(1)] by simp
  then have nc: "unat (?c * 2) = 2 * unat ?c" by (simp add: unat_mult_nowrap)
  then have b: "unat bytes = 96 * unat ?c"
    unfolding bytes_def using bound by (subst unat_mult_nowrap) (simp_all add: sizeof_sys_proc_def)
  have len: "unat (sizeof_sys_proc * ?c) = unat ?c * 48"
    using bound by (subst unat_mult_nowrap) (simp_all add: sizeof_sys_proc_def)
  have p: "arena_base s a \<le> lo" "lo \<le> unat (items l)" "unat (items l) + unat ?c * 48 \<le> arena_top s a"
    using ok(2) by (auto simp: proc_list_ok_def)
  have fit: "unat bytes \<le> arena_room s a" "unat ?c * 48 \<le> unat bytes" using room b by simp_all
  obtain np s1 s2 where s2: "arena_alloc s a bytes = Inr (np, s1)" "np \<noteq> 0" "unat np = arena_top s a"
      "memmove s1 np (items l) (sizeof_sys_proc * ?c) = Inr s2" "arena_ok s2 a" "regions s2 = regions s"
      "arena_base s2 a = arena_base s a" "arena_top s2 a = arena_top s a + unat bytes"
      "arena_room s2 a = arena_room s a - unat bytes"
      "array_at 48 de_proc (mem s2) (unat np) (unat ?c) = array_at 48 de_proc (mem s) (unat (items l)) (unat ?c)"
      "\<forall>x. arena_base s a \<le> x \<and> x < arena_top s a \<longrightarrow> mem s2 x = mem s x"
    using procs.move_array [OF ok(1) order_trans [OF p(1,2)] p(3) fit len] by metis
  let ?l = "l\<lparr>items := np, proc_capacity := ?c * 2\<rparr>"
  have "process_list_grow s l a = Inr (Some ?l, s2)"
    using s2(1,2,4) full by (simp add: process_list_grow_def bytes_def)
  moreover have "0 < ?c * 2" using nc ok(2) by (simp add: proc_list_ok_def word_less_nat_alt)
  then have "proc_list_ok s2 a lo ?l"
    using s2(3,7,8) p nc b full by (simp add: proc_list_ok_def word_le_nat_alt)
  moreover have "proc_items s2 ?l = proc_items s l" using s2(10) full by (simp add: proc_items_def)
  ultimately show ?thesis using that [of ?l s2] s2 nc b p by auto
qed

lemma proc_view_init:
  assumes "wf_proc p"
  shows "proc_view (init_proc (of_nat (digits_value d)) p) = new_proc d" "wf_proc (init_proc v p)"
proof -
  obtain c cs where "proc_name p = c # cs" using assms by (cases "proc_name p") (auto simp: wf_proc_def)
  then show "proc_view (init_proc (of_nat (digits_value d)) p) = new_proc d"
    by (simp add: proc_view_def init_proc_def new_proc_def c_str_def ucast_of_nat_u64)
  show "wf_proc (init_proc v p)" using assms by (simp add: wf_proc_def init_proc_def)
qed

lemma parse_d_name:
  assumes "list_all is_digit d" and "length d < 256"
  shows "parse_u64 (d @ [NUL]) 256 = Inr (of_nat (digits_value d))"
proof -
  have "takeWhile is_digit (take 256 (d @ [NUL])) = d"
    using assms by (simp add: takeWhile_tail takeWhile_eq_all_conv list_all_iff)
  then show ?thesis using parse_u64_c_string [of d "[]" 256] by simp
qed

lemma process_list_add_run:
  assumes ok: "arena_ok s a" "proc_list_ok s a lo l" and lt: "proc_count l < proc_capacity l"
    and d: "list_all is_digit d" "length d < 256"
  obtains l' s' where "process_list_add s l d = Inr (l', s')" and "arena_ok s' a"
    and "proc_list_ok s' a lo l'" and "regions s' = regions s" and "arena_base s' a = arena_base s a"
    and "arena_room s' a = arena_room s a"
    and "unat (proc_count l') = Suc (unat (proc_count l))" and "proc_capacity l' = proc_capacity l"
    and "map proc_view (proc_items s' l') = map proc_view (proc_items s l) @ [new_proc d]"
    and "\<forall>x. arena_base s a \<le> x \<and> x < lo \<longrightarrow> mem s' x = mem s x"
proof -
  let ?n = "unat (proc_count l)" and ?p = "unat (items l)"
  let ?q = "items l + proc_count l * sizeof_sys_proc"
  let ?l = "l\<lparr>proc_count := proc_count l + 1\<rparr>"
  have c: "?n < unat (proc_capacity l)" using lt by (simp add: word_less_nat_alt)
  have p: "arena_base s a \<le> lo" "lo \<le> ?p" "?p + unat (proc_capacity l) * 48 \<le> arena_top s a"
    using ok(2) by (auto simp: proc_list_ok_def)
  have top: "?p + Suc ?n * 48 \<le> arena_top s a" using c p(3) by simp
  have bound: "?p + ?n * 48 < 18446744073709551616" using top arena.bounds [OF ok(1)] by simp
  then have "unat (proc_count l * sizeof_sys_proc) = ?n * 48"
    by (subst unat_mult_nowrap) (auto simp: sizeof_sys_proc_def)
  then have q: "unat ?q = ?p + ?n * 48" using bound by (simp add: unat_add_nowrap)
  have base: "arena_base s a \<le> ?p" by (rule order_trans [OF p(1,2)])
  have "accessible s (?p + ?n * 48) 48" using base top by (intro arena.reach [OF ok(1)]) simp_all
  then have load: "load_bytes s ?q 48 = Inr (mem_read (mem s) (?p + ?n * 48) 48)"
    by (simp add: load_bytes_def q)
  define e where "e = de_proc (mem_read (mem s) (?p + ?n * 48) 48)"
  have wf: "wf_proc e" by (simp add: e_def proc.wf_de)
  let ?e = "init_proc (of_nat (digits_value d)) e"
  obtain s' where s': "memcpy s ?q (en_proc ?e) = Inr s'" "arena_ok s' a" "regions s' = regions s"
      "arena_base s' a = arena_base s a" "arena_top s' a = arena_top s a" "arena_room s' a = arena_room s a"
      "array_at 48 de_proc (mem s') ?p (Suc ?n) = array_at 48 de_proc (mem s) ?p ?n @ [?e]"
      "\<forall>y. y < ?p + ?n * 48 \<or> ?p + Suc ?n * 48 \<le> y \<longrightarrow> mem s' y = mem s y"
    using procs.append_elem [OF ok(1) base top proc_view_init(2) [OF wf] q] by metis
  have count: "unat (proc_count l + 1) = Suc ?n"
    using c unat_less_2_64 [of "proc_capacity l"] by (simp add: unat_add_nowrap)
  have "process_list_add s l d = Inr (?l, s')"
    using load s'(1) parse_d_name [OF d] by (simp add: process_list_add_def e_def)
  moreover have "proc_list_ok s' a lo ?l"
    using s' ok(2) c count by (simp add: proc_list_ok_def word_le_nat_alt)
  moreover have "map proc_view (proc_items s' ?l) = map proc_view (proc_items s l) @ [new_proc d]"
    using s'(7) count proc_view_init(1) [OF wf] by (simp add: proc_items_def)
  moreover have "\<forall>x. arena_base s a \<le> x \<and> x < lo \<longrightarrow> mem s' x = mem s x" using s'(8) p(2) by auto
  ultimately show ?thesis using that [of ?l s'] s' count by simp
qed

section \<open>The loop\<close>

text \<open>As for disks, the capacity pays for the moves: every doubling adds to it what it spends.\<close>

lemma process_list_entries_run:
  assumes "arena_ok s a" and "proc_list_ok s a lo l" and "list_all proc_entry_name names"
    and "192 * (unat (proc_count l) + length (filter (list_all is_digit) names))
         \<le> arena_room s a + 96 * unat (proc_capacity l)"
  shows "\<exists>l' s'. process_list_entries names s l a = Inr (l', s') \<and> arena_ok s' a \<and>
    proc_list_ok s' a lo l' \<and> regions s' = regions s \<and> arena_base s' a = arena_base s a \<and>
    map proc_view (proc_items s' l') =
      map proc_view (proc_items s l) @ map new_proc (filter (list_all is_digit) names) \<and>
    (\<forall>x. arena_base s a \<le> x \<and> x < lo \<longrightarrow> mem s' x = mem s x)"
  using assms
proof (induction names arbitrary: s l)
  case (Cons d names)
  have d: "NUL \<notin> set d" "length d < 256" using Cons.prems(3) by (auto simp: proc_entry_name_def)
  note num = is_numeric_c_string [OF d(1), of "[]"]
  show ?case
  proof (cases "list_all is_digit d")
    case False
    then show ?thesis using Cons num by simp
  next
    case True
    let ?n = "length (filter (list_all is_digit) names)"
    have need: "192 * (unat (proc_count l) + Suc ?n) \<le> arena_room s a + 96 * unat (proc_capacity l)"
      using Cons.prems(4) True by simp
    have le: "proc_count l \<le> proc_capacity l" using Cons.prems(2) by (simp add: proc_list_ok_def)
    obtain l1 s1 where s1: "process_list_grow s l a = Inr (Some l1, s1)" "arena_ok s1 a"
        "proc_list_ok s1 a lo l1" "regions s1 = regions s" "arena_base s1 a = arena_base s a"
        "proc_count l1 = proc_count l" "proc_count l1 < proc_capacity l1" "proc_items s1 l1 = proc_items s l"
        "arena_room s1 a + 96 * unat (proc_capacity l1) = arena_room s a + 96 * unat (proc_capacity l)"
        "\<forall>x. arena_base s a \<le> x \<and> x < lo \<longrightarrow> mem s1 x = mem s x"
    proof (cases "proc_count l = proc_capacity l")
      case full: True
      have room: "96 * unat (proc_capacity l) \<le> arena_room s a" using need full by simp
      show ?thesis
      proof (rule process_list_grow_full [OF Cons.prems(1,2) full room])
        fix l1 s1
        assume g: "process_list_grow s l a = Inr (Some l1, s1)" "arena_ok s1 a" "proc_list_ok s1 a lo l1"
            "regions s1 = regions s" "arena_base s1 a = arena_base s a" "proc_count l1 = proc_count l"
            "unat (proc_capacity l1) = 2 * unat (proc_capacity l)" "proc_items s1 l1 = proc_items s l"
            "arena_room s1 a = arena_room s a - 96 * unat (proc_capacity l)"
            "\<forall>x. arena_base s a \<le> x \<and> x < lo \<longrightarrow> mem s1 x = mem s x"
        have "0 < unat (proc_capacity l)" using Cons.prems(2) by (simp add: proc_list_ok_def unat_gt_0 word_gt_0)
        then have "proc_count l1 < proc_capacity l1" using g(6,7) full by (simp add: word_less_nat_alt)
        then show thesis using that [of l1 s1] g room by simp
      qed
    next
      case False
      then have "proc_count l < proc_capacity l" using le by auto
      then show ?thesis using that [of l s] Cons.prems(1,2) False by (simp add: process_list_grow_def)
    qed
    obtain l2 s2 where s2: "process_list_add s1 l1 d = Inr (l2, s2)" "arena_ok s2 a"
        "proc_list_ok s2 a lo l2" "regions s2 = regions s1" "arena_base s2 a = arena_base s1 a"
        "arena_room s2 a = arena_room s1 a" "unat (proc_count l2) = Suc (unat (proc_count l1))"
        "proc_capacity l2 = proc_capacity l1"
        "map proc_view (proc_items s2 l2) = map proc_view (proc_items s1 l1) @ [new_proc d]"
        "\<forall>x. arena_base s1 a \<le> x \<and> x < lo \<longrightarrow> mem s2 x = mem s1 x"
      by (rule process_list_add_run [OF s1(2,3,7) True d(2)])
    have "192 * (unat (proc_count l2) + ?n) \<le> arena_room s2 a + 96 * unat (proc_capacity l2)"
      using need s1(6,9) s2(6,7,8) by simp
    from Cons.IH [OF s2(2,3) _ this] Cons.prems(3) show ?thesis
      using s1 s2 num True by auto
  qed
qed auto

section \<open>Properties\<close>

text \<open>C14: \<open>process_list_collect\<close> on an empty list collects exactly the numeric names of \<open>/proc\<close>, in
  order, each as a new entry with that process number and everything else cleared; other names
  are skipped, and memory allocated before is untouched. It needs 384 bytes of arena and 192 more
  per process.\<close>

theorem process_list_collects:
  assumes "arena_ok s a" and "items l = 0" and "list_all proc_entry_name names"
    and "384 + 192 * length (filter (list_all is_digit) names) \<le> arena_room s a"
  shows "\<exists>l' s'. process_list_collect (Some names) s l a = Inr (ERR_OK, l', s') \<and> arena_ok s' a \<and>
    map proc_view (proc_items s' l') = map new_proc (filter (list_all is_digit) names) \<and>
    regions s' = regions s \<and>
    (\<forall>x. arena_base s a \<le> x \<and> x < arena_top s a \<longrightarrow> mem s' x = mem s x)"
proof -
  have fit: "unat (sizeof_sys_proc * 8) \<le> arena_room s a" using assms(4) by (simp add: sizeof_sys_proc_def)
  obtain p s1 where s1: "arena_alloc s a (sizeof_sys_proc * 8) = Inr (p, s1)" "p \<noteq> 0" "unat p = arena_top s a"
      "arena_ok s1 a" "regions s1 = regions s" "arena_base s1 a = arena_base s a"
      "arena_top s1 a = arena_top s a + unat (sizeof_sys_proc * 8)"
      "arena_room s1 a = arena_room s a - unat (sizeof_sys_proc * 8)"
      "\<forall>x. arena_base s a \<le> x \<and> x < arena_top s a \<longrightarrow> mem s1 x = mem s x"
    using arena.fresh_block [OF assms(1) fit] by metis
  let ?l = "\<lparr>items = p, proc_count = 0, proc_capacity = 8\<rparr>"
  have ok: "proc_list_ok s1 a (arena_top s a) ?l"
    using s1 arena.bounds [OF assms(1)] by (simp add: proc_list_ok_def sizeof_sys_proc_def)
  have "192 * (unat (proc_count ?l) + length (filter (list_all is_digit) names))
      \<le> arena_room s1 a + 96 * unat (proc_capacity ?l)"
    using assms(4) s1(8) by (simp add: sizeof_sys_proc_def)
  from process_list_entries_run [OF s1(4) ok assms(3) this] obtain l' s' where
    s': "process_list_entries names s1 ?l a = Inr (l', s')" "arena_ok s' a" "regions s' = regions s1"
      "map proc_view (proc_items s' l') =
        map proc_view (proc_items s1 ?l) @ map new_proc (filter (list_all is_digit) names)"
      "\<forall>x. arena_base s1 a \<le> x \<and> x < arena_top s a \<longrightarrow> mem s' x = mem s1 x"
    by blast
  moreover have "process_list_init s l a = Inr (?l, s1)"
    using assms(2) s1(1,2) by (simp add: process_list_init_def)
  ultimately have "process_list_collect (Some names) s l a = Inr (ERR_OK, l', s')"
    by (simp add: process_list_collect_def)
  moreover have "proc_items s1 ?l = []" by (simp add: proc_items_def)
  ultimately show ?thesis using s' s1 by simp
qed

theorem process_list_collects_witness:
  "\<exists>s l' s'. arena_ok s 4096 \<and>
     process_list_collect (Some [''1'', ''self'', ''4711'']) s
       \<lparr>items = 0, proc_count = 0, proc_capacity = 0\<rparr> 4096 = Inr (ERR_OK, l', s') \<and>
     map pid (map proc_view (proc_items s' l')) = [1, 4711]"
proof -
  obtain s where s: "arena_ok s 4096" "arena_room s 4096 = 1024" using page_arena [of 1024] by auto
  have names: "filter (list_all is_digit) [''1'', ''self'', ''4711''] = [''1'', ''4711'']"
    by (simp add: is_digit_def)
  obtain l' s' where r: "process_list_collect (Some [''1'', ''self'', ''4711'']) s
       \<lparr>items = 0, proc_count = 0, proc_capacity = 0\<rparr> 4096 = Inr (ERR_OK, l', s')"
      "map proc_view (proc_items s' l') = map new_proc [''1'', ''4711'']"
    using process_list_collects [OF s(1), of "\<lparr>items = 0, proc_count = 0, proc_capacity = 0\<rparr>"
        "[''1'', ''self'', ''4711'']", unfolded names] s(2)
    by (auto simp: proc_entry_name_def)
  have "map pid (map proc_view (proc_items s' l')) = [1, 4711]"
    unfolding r(2) by (simp add: new_proc_def digits_value_def digit_value_def)
  with s(1) r(1) show ?thesis by (intro exI conjI)
qed

end
