(* ===== verification/Process_Read.thy ===== *)
theory Process_Read
  imports Process
begin

text \<open>
  What \<open>process_read\<close> makes of a \<open>/proc/<pid>/status\<close> file, and what \<open>process_kill\<close> can return.
\<close>

section \<open>Values\<close>

definition status_values :: "string \<Rightarrow> string list \<Rightarrow> string list" where
  "status_values key bufs =
     List.map_filter (\<lambda>buf. if strn_eq buf key (length key) then status_val buf else None) bufs"

definition name_value :: "string \<Rightarrow> string" where
  "name_value val = take (strcspn val [NL]) val"

definition thread_count :: "string \<Rightarrow> i8" where
  "thread_count val = of_nat (digits_value (takeWhile is_digit (take 8 val)))"

text \<open>The last of the values a key has, or what was there before.\<close>

definition last_or :: "'a \<Rightarrow> 'a list \<Rightarrow> 'a" where
  "last_or x xs = (if xs = [] then x else last xs)"

definition names_fit :: "string list \<Rightarrow> bool" where
  "names_fit bufs \<longleftrightarrow> list_all (\<lambda>v. length (name_value v) < 16) (status_values ''Name:'' bufs)"

definition status_step :: "sys_proc \<Rightarrow> string \<Rightarrow> sys_proc" where
  "status_step p buf = p
     \<lparr>proc_name := foldl (\<lambda>b v. terminated b (name_value v)) (proc_name p) (status_values ''Name:'' [buf]),
      state := last_or (state p) (map (\<lambda>v. state_of_char (state_char v)) (status_values ''State:'' [buf])),
      num_threads := last_or (num_threads p) (map thread_count (status_values ''Threads:'' [buf]))\<rparr>"

text \<open>The lines the kernel writes to \<open>/proc/<pid>/status\<close>: the three that are read, and any others around them.\<close>

definition other_line :: "string \<Rightarrow> bool" where
  "other_line u \<longleftrightarrow> NL \<notin> set u \<and> NUL \<notin> set u \<and> length u + 2 \<le> BUFF_LARGE \<and>
     \<not> strn_eq u ''Name:'' 5 \<and> \<not> strn_eq u ''State:'' 6 \<and> \<not> strn_eq u ''Threads:'' 8"

definition status_text :: "string \<Rightarrow> char \<Rightarrow> string \<Rightarrow> nat \<Rightarrow> string list \<Rightarrow> string list \<Rightarrow> string list" where
  "status_text name c descr threads us vs =
     [''Name:'' @ [TAB] @ name] @ us @ [''State:'' @ [TAB] @ [c] @ descr] @ vs @ [''Threads:'' @ [TAB] @ show_nat threads]"

lemma last_or_simps [simp]: "last_or x [] = x" "last_or x [y] = y" "last_or x (y # ys) = last_or y ys"
  by (simp_all add: last_or_def)

lemma status_values_Nil [simp]: "status_values key [] = []"
  by (simp add: status_values_def map_filter_simps)

lemma status_values_Cons: "status_values key (buf # bufs) = status_values key [buf] @ status_values key bufs"
  by (simp add: status_values_def map_filter_simps split: option.splits)

lemma status_values_single:
  "status_values key [buf] = (case status_val buf of
     Some v \<Rightarrow> if strn_eq buf key (length key) then [v] else [] | None \<Rightarrow> [])"
  by (simp add: status_values_def map_filter_simps split: option.splits)

lemma set_dropWhile_sub: "set (dropWhile P xs) \<subseteq> set xs"
  by (auto dest: set_dropWhileD)

lemma status_val_sub: "status_val buf = Some v \<Longrightarrow> set v \<subseteq> set buf"
proof -
  assume "status_val buf = Some v"
  then obtain colon where c: "strchr buf (CHR '':'') = Some colon"
      "v = dropWhile (\<lambda>c. c = CHR '' '' \<or> c = TAB) (tl colon)"
    by (auto simp: status_val_def split: option.splits)
  have "set v \<subseteq> set (tl colon)" unfolding c(2) by (rule set_dropWhile_sub)
  also have "\<dots> \<subseteq> set colon" by (cases colon) auto
  also have "\<dots> \<subseteq> set buf" using strchr_Some [OF c(1)] by auto
  finally show ?thesis .
qed

lemma parse_threads: "parse_u64 (val @ [NUL]) 8 =
    Inr (of_nat (digits_value (takeWhile is_digit (take 8 val))))"
proof -
  have "takeWhile is_digit (take 8 (val @ [NUL])) = takeWhile is_digit (take 8 val)"
    by (simp add: take_Cons' takeWhile_tail)
  then show ?thesis using parse_u64_c_string [of val "[]" 8] by simp
qed

lemma ucast_of_nat_i8: "(ucast (of_nat n :: u64) :: i8) = of_nat n"
  by (simp add: unsigned_of_nat of_nat_take_bit take_bit_word_eq_self)

lemma status_line_run:
  assumes "wf_proc p"
  shows "status_line p buf =
    (if names_fit [buf] then Inr (status_step p buf) else Inl Buffer_overflow)"
proof (cases "status_val buf")
  case None
  then show ?thesis
    by (simp add: status_line_def names_fit_def status_step_def status_values_single)
next
  case (Some val)
  define N S T where "N = strn_eq buf ''Name:'' 5" and "S = strn_eq buf ''State:'' 6"
    and "T = strn_eq buf ''Threads:'' 8"
  note keys = N_def [symmetric] S_def [symmetric] T_def [symmetric]
  have len: "length ''Name:'' = 5" "length ''State:'' = 6" "length ''Threads:'' = 8" by simp_all
  have strcspn: "strcspn val [NL] = length (name_value val)"
    using strcspn_le [of val "[NL]"] by (simp add: name_value_def)
  have copy: "andthen (buf_copy (proc_name p) (name_value val)) (\<lambda>b.
        andthen (buf_set b (length (name_value val)) NUL) (\<lambda>b. Inr (p\<lparr>proc_name := b\<rparr>))) =
      (if length (name_value val) < 16 then Inr (p\<lparr>proc_name := terminated (proc_name p) (name_value val)\<rparr>)
       else Inl Buffer_overflow)"
  proof (cases "length (name_value val) < 16")
    case True
    then show ?thesis
      using buf_copy_terminated [of "name_value val" "proc_name p"] assms
      by (simp add: wf_proc_def terminated_def flip: andthen_assoc)
  next
    case False
    then show ?thesis using assms by (auto simp: wf_proc_def buf_copy_def buf_set_def)
  qed
  show ?thesis
    unfolding status_line_def names_fit_def status_step_def status_values_single Some option.case len
      keys Let_def name_value_def [symmetric] strcspn copy parse_threads
    by (cases p; cases N; cases S; cases T) (simp_all add: ucast_of_nat_i8 thread_count_def)
qed

lemma names_fit_Cons: "names_fit (buf # bufs) \<longleftrightarrow> names_fit [buf] \<and> names_fit bufs"
  by (subst (1) names_fit_def) (simp add: status_values_Cons [of _ buf bufs] names_fit_def)

lemma wf_status_step: "wf_proc p \<Longrightarrow> names_fit [buf] \<Longrightarrow> wf_proc (status_step p buf)"
  by (auto simp: wf_proc_def status_step_def names_fit_def status_values_single length_terminated
      split: option.splits if_splits)

lemma status_lines_run:
  "wf_proc p \<Longrightarrow> status_lines bufs p =
     (if names_fit bufs then Inr (foldl status_step p bufs) else Inl Buffer_overflow)"
proof (induction bufs arbitrary: p)
  case Nil
  then show ?case by (simp add: names_fit_def)
next
  case (Cons buf bufs)
  then show ?case
    using wf_status_step [OF Cons.prems, of buf]
    by (simp add: status_line_run names_fit_Cons [of buf bufs])
qed

lemma process_read_wf:
  assumes "wf_proc out" and "process_read fs close_ok n out = Inr (e, p)"
  shows "wf_proc p"
proof (cases "fs (status_path n)")
  case None
  then show ?thesis using assms by (simp add: process_read_def)
next
  case (Some f)
  have wf: "wf_proc (out\<lparr>pid := n\<rparr>)" using assms(1) by (simp add: wf_proc_def)
  have fold: "wf_proc (foldl status_step q bufs)" if "names_fit bufs" "wf_proc q" for bufs q
    using that
  proof (induction bufs arbitrary: q)
    case (Cons buf bufs)
    then show ?case
      using names_fit_Cons [of buf bufs] wf_status_step [OF Cons.prems(2), of buf] by simp
  qed simp
  show ?thesis
    using assms(2) Some status_lines_run [OF wf] fold wf
    by (auto simp: process_read_def andthen_eq_Inr split: if_splits)
qed

lemma last_or_append: "last_or x (xs @ ys) = last_or (last_or x xs) ys"
  by (simp add: last_or_def)

lemma foldl_status_step:
  assumes "\<forall>buf \<in> set bufs. NUL \<notin> set buf"
  shows "c_str (proc_name (foldl status_step p bufs)) =
      last_or (c_str (proc_name p)) (map name_value (status_values ''Name:'' bufs)) \<and>
    state (foldl status_step p bufs) =
      last_or (state p) (map (\<lambda>v. state_of_char (state_char v)) (status_values ''State:'' bufs)) \<and>
    num_threads (foldl status_step p bufs) =
      last_or (num_threads p) (map thread_count (status_values ''Threads:'' bufs)) \<and>
    pid (foldl status_step p bufs) = pid p \<and> stime (foldl status_step p bufs) = stime p \<and>
    utime (foldl status_step p bufs) = utime p"
  using assms
proof (induction bufs arbitrary: p)
  case (Cons buf bufs)
  have nm: "NUL \<notin> set (name_value v)" if "status_val buf = Some v" for v
    using status_val_sub [OF that] Cons.prems by (auto simp: name_value_def dest: in_set_takeD)
  have c: "c_str (proc_name (status_step p buf)) =
      last_or (c_str (proc_name p)) (map name_value (status_values ''Name:'' [buf]))"
    using nm by (auto simp: status_step_def status_values_single c_str_terminated split: option.splits)
  have st: "state (status_step p buf) =
        last_or (state p) (map (\<lambda>v. state_of_char (state_char v)) (status_values ''State:'' [buf]))"
      "num_threads (status_step p buf) =
        last_or (num_threads p) (map thread_count (status_values ''Threads:'' [buf]))"
      "pid (status_step p buf) = pid p" "stime (status_step p buf) = stime p"
      "utime (status_step p buf) = utime p"
    by (simp_all add: status_step_def)
  show ?case
    using Cons.IH [of "status_step p buf"] Cons.prems
    unfolding c st status_values_Cons [of _ buf bufs] map_append last_or_append foldl_Cons by simp
qed simp

lemma state_of_char_not_stopped: "state_of_char c \<noteq> proc_stopped"
  by (simp add: state_of_char_def)

lemma status_val_text:
  assumes "CHR '':'' \<notin> set key" and "v \<noteq> []" and "hd v \<noteq> CHR '' ''" and "hd v \<noteq> TAB"
  shows "status_val (key @ '':'' @ [TAB] @ v) = Some v"
proof -
  have "strchr (key @ '':'' @ [TAB] @ v) (CHR '':'') = Some (CHR '':'' # TAB # v)"
    using strchr_append [OF assms(1), of "TAB # v"] by simp
  moreover have "dropWhile (\<lambda>c. c = CHR '' '' \<or> c = TAB) (TAB # v) = v" using assms(2-4) by (cases v) auto
  ultimately show ?thesis by (simp add: status_val_def)
qed

lemma status_values_append: "status_values key (bufs @ bufs') = status_values key bufs @ status_values key bufs'"
  by (simp add: status_values_def List.map_filter_def)

lemma other_line_values:
  assumes "list_all other_line us" and "key \<in> {''Name:'', ''State:'', ''Threads:''}"
  shows "status_values key (map (\<lambda>u. u @ [NL]) us) = []"
proof -
  have "\<not> strn_eq (u @ [NL]) key (length key)" if "u \<in> set us" for u
    using that assms by (intro strn_eq_snoc) (auto simp: list_all_iff other_line_def numeral_eq_Suc)
  then show ?thesis by (auto simp: status_values_def List.map_filter_def filter_empty_conv)
qed

lemma status_text_values:
  assumes "bufs = fgets_lines BUFF_LARGE (lines_text (status_text name c descr threads us vs))"
    and "NL \<notin> set name" and "NUL \<notin> set name" and "length name < 256"
    and "NL \<notin> set descr" and "NUL \<notin> set descr" and "length descr < 256"
    and "is_state_char c" and "threads < 10 ^ 20"
    and "name \<noteq> []" and "hd name \<noteq> CHR '' ''" and "hd name \<noteq> TAB"
    and "list_all other_line us" and "list_all other_line vs"
  shows "status_values ''Name:'' bufs = [name @ [NL]]"
    "status_values ''State:'' bufs = [c # descr @ [NL]]"
    "status_values ''Threads:'' bufs = [show_nat threads @ [NL]]"
proof -
  let ?n = "''Name'' @ '':'' @ [TAB] @ name @ [NL]" and ?s = "''State'' @ '':'' @ [TAB] @ [c] @ descr @ [NL]"
    and ?t = "''Threads'' @ '':'' @ [TAB] @ show_nat threads @ [NL]"
  have "length (show_nat threads) \<le> 20" using assms(9) by (intro length_show_nat) simp_all
  moreover have c: "c \<noteq> NL" "c \<noteq> NUL" "c \<noteq> CHR '' ''" "c \<noteq> TAB" using assms(8) by (auto simp: is_state_char_def)
  ultimately have bufs: "bufs = [?n] @ map (\<lambda>u. u @ [NL]) us @ [?s] @ map (\<lambda>u. u @ [NL]) vs @ [?t]"
    unfolding assms(1) using assms(2-7,13,14) by (subst fgets_lines_text)
      (auto simp: status_text_def not_in_show list_all_iff other_line_def BUFF_LARGE_def)
  have d: "hd (show_nat threads) \<noteq> CHR '' ''" "hd (show_nat threads) \<noteq> TAB"
    using show_nat_digits [of threads] show_nat_nonempty [of threads]
    by (cases "show_nat threads"; auto simp: is_digit_def)+
  have v: "status_val ?n = Some (name @ [NL])" "status_val ?s = Some (c # descr @ [NL])"
      "status_val ?t = Some (show_nat threads @ [NL])"
    using assms(10-12) c d status_val_text [of "''Name''" "name @ [NL]"]
      status_val_text [of "''State''" "c # descr @ [NL]"] status_val_text [of "''Threads''" "show_nat threads @ [NL]"]
    by auto
  have "status_values key bufs = status_values key [?n] @ status_values key [?s] @ status_values key [?t]"
    if "key \<in> {''Name:'', ''State:'', ''Threads:''}" for key
    unfolding bufs status_values_append other_line_values [OF assms(13) that] other_line_values [OF assms(14) that] by simp
  then show "status_values ''Name:'' bufs = [name @ [NL]]" "status_values ''State:'' bufs = [c # descr @ [NL]]"
      "status_values ''Threads:'' bufs = [show_nat threads @ [NL]]"
    unfolding status_values_single v by (simp_all add: strn_eq_def)
qed

section \<open>Properties\<close>

text \<open>C21: \<open>process_read\<close>, on any status file of the process: if every name in it has at most 15
  characters the call succeeds with the process number, the last name, the state of the last
  \<open>State\<close> line and the last thread count (its first eight digits, as a signed byte), and the times
  left alone; a longer name overruns the 16-byte array.\<close>

theorem process_read_result:
  assumes "wf_proc out" and "fs (status_path n) = Some f" and "bufs = fgets_lines BUFF_LARGE f"
  shows "if names_fit bufs
    then \<exists>p. process_read fs True n out = Inr (ERR_OK, p) \<and> pid p = n \<and>
      c_str (proc_name p) = last_or (c_str (proc_name out)) (map name_value (status_values ''Name:'' bufs)) \<and>
      state p = last_or (state out) (map (\<lambda>v. state_of_char (state_char v)) (status_values ''State:'' bufs)) \<and>
      num_threads p = last_or (num_threads out) (map thread_count (status_values ''Threads:'' bufs)) \<and>
      stime p = stime out \<and> utime p = utime out
    else process_read fs True n out = Inl Buffer_overflow"
proof -
  let ?out = "out\<lparr>pid := n\<rparr>"
  have wf: "wf_proc ?out" using assms(1) by (simp add: wf_proc_def)
  have bufs: "\<forall>buf \<in> set bufs. NUL \<notin> set buf" using fgets_lines_NUL assms(3) by auto
  show ?thesis
    using status_lines_run [OF wf, of bufs] foldl_status_step [OF bufs, of ?out] assms(2,3)
    by (simp add: process_read_def)
qed

definition demo_status_text :: "string list" where
  "demo_status_text = status_text ''bash'' (CHR ''T'') '' (stopped)'' 300 [''Umask:'' @ [TAB] @ ''0022''] [''Tgid:'' @ [TAB] @ ''42'']"

definition demo_status :: files where
  "demo_status = (\<lambda>_. Some (lines_text demo_status_text))"

definition demo_proc :: sys_proc where
  "demo_proc = \<lparr>proc_name = replicate 16 NUL, num_threads = 0, stime = 0, utime = 0, pid = 0,
     state = proc_undefined\<rparr>"

lemma demo_status_others:
  "list_all other_line [''Umask:'' @ [TAB] @ ''0022'']" "list_all other_line [''Tgid:'' @ [TAB] @ ''42'']"
  by (simp_all add: other_line_def BUFF_LARGE_def strn_eq_def)

lemma demo_status_values:
  assumes "bufs = fgets_lines BUFF_LARGE (lines_text demo_status_text)"
  shows "status_values ''Name:'' bufs = [''bash'' @ [NL]]"
    "status_values ''State:'' bufs = [CHR ''T'' # '' (stopped)'' @ [NL]]"
    "status_values ''Threads:'' bufs = [show_nat 300 @ [NL]]"
  using status_text_values [OF assms [unfolded demo_status_text_def]] demo_status_others
  by (simp_all add: is_state_char_def)

lemma name_value_line: "NL \<notin> set name \<Longrightarrow> name_value (name @ [NL]) = name"
  unfolding name_value_def strcspn_take by (auto simp: takeWhile_tail takeWhile_eq_all_conv)

theorem process_read_result_witness:
  "\<exists>p. process_read demo_status True 42 demo_proc = Inr (ERR_OK, p) \<and> pid p = 42 \<and>
     c_str (proc_name p) = ''bash''"
proof -
  define f where "f = lines_text demo_status_text"
  note vs = demo_status_values [OF refl, folded f_def]
  have nm: "name_value (''bash'' @ [NL]) = ''bash''" by (rule name_value_line) simp
  have fit: "names_fit (fgets_lines BUFF_LARGE f)" unfolding names_fit_def vs list.pred_inject nm by simp
  have "demo_status (status_path 42) = Some f" by (simp add: demo_status_def f_def)
  from process_read_result [of demo_proc demo_status, OF _ this refl] show ?thesis
    unfolding if_P [OF fit] vs list.map nm last_or_simps by (auto simp: demo_proc_def wf_proc_def)
qed

text \<open>\<open>process_read\<close> never reports a stopped process: \<open>T (stopped)\<close> is stored as sleeping, and no
  status file turns another state into \<open>proc_stopped\<close>.\<close>

theorem process_read_never_stopped:
  assumes "wf_proc out" and "process_read fs True n out = Inr (e, p)" and "state out \<noteq> proc_stopped"
  shows "state p \<noteq> proc_stopped \<and> state_of_char (CHR ''T'') = proc_sleeping"
proof (cases "fs (status_path n)")
  case None
  then show ?thesis using assms(2,3) by (simp add: process_read_def state_of_char_def)
next
  case (Some f)
  let ?bufs = "fgets_lines BUFF_LARGE f"
  have wf: "wf_proc (out\<lparr>pid := n\<rparr>)" using assms(1) by (simp add: wf_proc_def)
  have bufs: "\<forall>buf \<in> set ?bufs. NUL \<notin> set buf" using fgets_lines_NUL by auto
  have "p = foldl status_step (out\<lparr>pid := n\<rparr>) ?bufs"
    using assms(2) Some status_lines_run [OF wf, of ?bufs]
    by (auto simp: process_read_def split: if_splits)
  then have "state p = last_or (state out)
      (map (\<lambda>v. state_of_char (state_char v)) (status_values ''State:'' ?bufs))"
    using foldl_status_step [OF bufs, of "out\<lparr>pid := n\<rparr>"] by simp
  then show ?thesis
    using assms(3) state_of_char_not_stopped by (auto simp: last_or_def last_map state_of_char_def)
qed



text \<open>\<open>process_kill\<close> answers success or does not return: a bad process number, a missing
  permission and a missing process all abort the agent instead of giving the documented codes.\<close>

theorem process_kill_aborts:
  "process_kill kill n signal =
     (if 0 < sint n \<and> kill n signal = None then Inr ERR_OK else Inl Assertion_failed)"
  by (auto simp: process_kill_def c_assert_def split: option.splits errno.splits)

end
