(* ===== verification/Handlers.thy ===== *)
theory Handlers
  imports Disk_Read Cpu_Read Ram Device
begin

text \<open>
  The request handlers of \<open>grpc/handlers/resource_handler.cc\<close> and the service methods of
  \<open>grpc/server/server.cc\<close> that call them. The context gives the cancellation flag and the deadline,
  \<open>clock\<close> the time each successive call of \<open>now\<close> returns, the reply is a record of the message
  fields the handlers set. \<open>ram_read\<close> is declared in \<open>resources.h\<close> and defined nowhere in the
  sources (they define \<open>sys_ram_read\<close>), so it is a parameter. A handler may not return, because
  the AArch64 CPU reader may not: \<^const>\<open>None\<close>.
\<close>

section \<open>Messages and contexts\<close>

datatype status_code = OK | CANCELLED | DEADLINE_EXCEEDED

record server_context =
  is_cancelled :: bool
  deadline :: int

record cpu_message =
  msg_vendor :: string
  msg_model :: string
  msg_frequency :: string
  msg_total_time :: u64
  msg_idle_time :: u64
  msg_cores :: u32

record memory_message =
  msg_total :: u64
  msg_free :: u64

record reply =
  reply_cpu :: "cpu_message option"
  reply_memory :: "memory_message option"

type_synonym ram_reader = "os \<Rightarrow> sys_memory option \<Rightarrow> (err_code \<times> sys_memory \<times> os) run"

section \<open>Calls through pointers\<close>

definition cpu_read_at :: "arch \<Rightarrow> files \<Rightarrow> os \<Rightarrow> u64 \<Rightarrow> os run option" where
  "cpu_read_at ar fs s p =
     (if p = 0 then then_run (cpu_read ar fs None) (\<lambda>_. Some (Inr s))
      else then_run (Some (load_bytes s p 120)) (\<lambda>bs.
        then_run (cpu_read ar fs (Some (de_cpu bs))) (\<lambda>(_, c). Some (memcpy s p (en_cpu c)))))"

definition ram_read_at :: "ram_reader \<Rightarrow> os \<Rightarrow> u64 \<Rightarrow> os run" where
  "ram_read_at ram_read s p =
     (if p = 0 then andthen (ram_read s None) (\<lambda>(_, _, s'). Inr s')
      else andthen (on_struct 16 de_memory en_memory s p (\<lambda>s m. ram_read s (Some m)))
        (\<lambda>(_, s'). Inr s'))"

definition disk_read_at :: "files \<Rightarrow> os \<Rightarrow> u64 \<Rightarrow> u64 \<Rightarrow> os run" where
  "disk_read_at fs s p a =
     (if p = 0 then andthen (disk_read (fs ''/proc/partitions'') s None a) (\<lambda>(_, _, s'). Inr s')
      else andthen (on_struct 24 de_disk en_disk s p
             (\<lambda>s d. disk_read (fs ''/proc/partitions'') s (Some d) a)) (\<lambda>(_, s'). Inr s'))"

definition device_read_at :: "files \<Rightarrow> os \<Rightarrow> u64 \<Rightarrow> os run" where
  "device_read_at fs s p =
     (if p = 0 then andthen (device_read fs None) (\<lambda>_. Inr s)
      else andthen (on_struct 544 de_device en_device s p (\<lambda>s d.
             andthen (device_read fs (Some d)) (\<lambda>(e, d'). case d' of
               None \<Rightarrow> Inr (e, d, s) | Some d1 \<Rightarrow> Inr (e, d1, s)))) (\<lambda>(_, s'). Inr s'))"

text \<open>The \<open>std::string\<close> made from a \<open>char *\<close>: the bytes up to the first zero byte. The fuel is the
  number of addresses left; past the last one there is nothing to read.\<close>

fun c_string_from :: "nat \<Rightarrow> os \<Rightarrow> u64 \<Rightarrow> string run" where
  "c_string_from 0 s p = Inl Segfault"
| "c_string_from (Suc n) s p =
     andthen (load8 s p) (\<lambda>c.
     if c = NUL then Inr [] else andthen (c_string_from n s (p + 1)) (\<lambda>cs. Inr (c # cs)))"

definition c_string_at :: "os \<Rightarrow> u64 \<Rightarrow> string run" where
  "c_string_at s p = c_string_from (18446744073709551616 - unat p) s p"

text \<open>\<open>cpu_msg->set_...\<close> for each field of the structure at \<open>p\<close>.\<close>

definition set_cpu_message :: "os \<Rightarrow> u64 \<Rightarrow> cpu_message run" where
  "set_cpu_message s p =
     andthen (c_string_at s (p + 24)) (\<lambda>v.
     andthen (c_string_at s (p + 40)) (\<lambda>m.
     andthen (c_string_at s (p + 104)) (\<lambda>f.
     andthen (load64 s p) (\<lambda>tt.
     andthen (load64 s (p + 8)) (\<lambda>it.
     andthen (load32 s (p + 16)) (\<lambda>c.
     Inr \<lparr>msg_vendor = v, msg_model = m, msg_frequency = f, msg_total_time = tt,
          msg_idle_time = it, msg_cores = c\<rparr>))))))"

definition set_memory_message :: "os \<Rightarrow> u64 \<Rightarrow> memory_message run" where
  "set_memory_message s p =
     andthen (load64 s p) (\<lambda>t. andthen (load64 s (p + 8)) (\<lambda>f.
     Inr \<lparr>msg_total = t, msg_free = f\<rparr>))"

section \<open>Handlers\<close>

definition get_system_resources_impl ::
  "kernel \<Rightarrow> arch \<Rightarrow> files \<Rightarrow> ram_reader \<Rightarrow> server_context \<Rightarrow> (nat \<Rightarrow> int) \<Rightarrow> os \<Rightarrow> reply \<Rightarrow>
   (status_code \<times> reply \<times> os) run option" where
  "get_system_resources_impl k ar fs ram_read ctx clock s resp =
     (if is_cancelled ctx then Some (Inr (CANCELLED, resp, s))
      else if deadline ctx < clock 0 then Some (Inr (DEADLINE_EXCEEDED, resp, s))
      else
        then_run (Some (arena_create k s (MiB 8))) (\<lambda>(t, s).
        then_run (Some (cpu_create s t)) (\<lambda>(c, s).
        then_run (Some (ram_create s t)) (\<lambda>(m, s).
        then_run (Some (disk_create s t)) (\<lambda>(d, s).
        then_run (Some (device_create s t)) (\<lambda>(v, s).
        then_run (cpu_read_at ar fs s c) (\<lambda>s.
        if deadline ctx < clock 1 then Some (Inr (DEADLINE_EXCEEDED, resp, s)) else
        then_run (Some (ram_read_at ram_read s m)) (\<lambda>s.
        if deadline ctx < clock 2 then Some (Inr (DEADLINE_EXCEEDED, resp, s)) else
        then_run (Some (disk_read_at fs s d t)) (\<lambda>s.
        if deadline ctx < clock 3 then Some (Inr (DEADLINE_EXCEEDED, resp, s)) else
        then_run (Some (device_read_at fs s v)) (\<lambda>s.
        if deadline ctx < clock 4 then Some (Inr (DEADLINE_EXCEEDED, resp, s)) else
        then_run (Some (set_cpu_message s c)) (\<lambda>cm.
        then_run (Some (set_memory_message s m)) (\<lambda>mm.
        then_run (Some (arena_destroy s t)) (\<lambda>s.
        Some (Inr (OK, resp\<lparr>reply_cpu := Some cm, reply_memory := Some mm\<rparr>, s)))))))))))))))"

definition get_cpu_impl ::
  "kernel \<Rightarrow> arch \<Rightarrow> files \<Rightarrow> server_context \<Rightarrow> (nat \<Rightarrow> int) \<Rightarrow> os \<Rightarrow> reply \<Rightarrow>
   (status_code \<times> reply \<times> os) run option" where
  "get_cpu_impl k ar fs ctx clock s resp =
     (if is_cancelled ctx then Some (Inr (CANCELLED, resp, s))
      else if deadline ctx < clock 0 then Some (Inr (DEADLINE_EXCEEDED, resp, s))
      else
        then_run (Some (arena_create k s (MiB 8))) (\<lambda>(t, s).
        then_run (Some (cpu_create s t)) (\<lambda>(c, s).
        then_run (cpu_read_at ar fs s c) (\<lambda>s.
        then_run (Some (set_cpu_message s c)) (\<lambda>cm.
        then_run (Some (arena_destroy s t)) (\<lambda>s.
        Some (Inr (OK, resp\<lparr>reply_cpu := Some cm\<rparr>, s))))))))"

definition get_ram_impl ::
  "kernel \<Rightarrow> ram_reader \<Rightarrow> server_context \<Rightarrow> (nat \<Rightarrow> int) \<Rightarrow> os \<Rightarrow> reply \<Rightarrow>
   (status_code \<times> reply \<times> os) run" where
  "get_ram_impl k ram_read ctx clock s resp =
     (if is_cancelled ctx then Inr (CANCELLED, resp, s)
      else if deadline ctx < clock 0 then Inr (DEADLINE_EXCEEDED, resp, s)
      else
        andthen (arena_create k s (MiB 8)) (\<lambda>(t, s).
        andthen (ram_create s t) (\<lambda>(m, s).
        andthen (ram_read_at ram_read s m) (\<lambda>s.
        andthen (set_memory_message s m) (\<lambda>mm.
        andthen (arena_destroy s t) (\<lambda>s.
        Inr (OK, resp\<lparr>reply_memory := Some mm\<rparr>, s)))))))"

definition get_device_impl :: "server_context \<Rightarrow> os \<Rightarrow> reply \<Rightarrow> status_code \<times> reply \<times> os" where
  "get_device_impl ctx s resp = (OK, resp, s)"

section \<open>Service methods\<close>

definition GetSystemResources ::
  "kernel \<Rightarrow> arch \<Rightarrow> files \<Rightarrow> ram_reader \<Rightarrow> server_context \<Rightarrow> (nat \<Rightarrow> int) \<Rightarrow> os \<Rightarrow> reply \<Rightarrow>
   (status_code \<times> reply \<times> os) run option" where
  "GetSystemResources k ar fs ram_read ctx clock s rep =
     get_system_resources_impl k ar fs ram_read ctx clock s rep"

definition GetCpu ::
  "kernel \<Rightarrow> arch \<Rightarrow> files \<Rightarrow> server_context \<Rightarrow> (nat \<Rightarrow> int) \<Rightarrow> os \<Rightarrow> reply \<Rightarrow>
   (status_code \<times> reply \<times> os) run option" where
  "GetCpu k ar fs ctx clock s rep = get_cpu_impl k ar fs ctx clock s rep"

definition GetMemory ::
  "kernel \<Rightarrow> ram_reader \<Rightarrow> server_context \<Rightarrow> (nat \<Rightarrow> int) \<Rightarrow> os \<Rightarrow> reply \<Rightarrow>
   (status_code \<times> reply \<times> os) run" where
  "GetMemory k ram_read ctx clock s rep = get_ram_impl k ram_read ctx clock s rep"

end
