(* ===== verification/Service.thy ===== *)
theory Service
  imports Handlers
begin

text \<open>
  What the handlers answer. A successful call gives back the address space it found; the reply is
  what the readers stored. \<open>ram_reader_gives\<close> is what the handlers rely on of the memory reader.
\<close>

section \<open>Specification\<close>

definition cpu_message_of :: "sys_cpu \<Rightarrow> cpu_message" where
  "cpu_message_of c = \<lparr>msg_vendor = c_str (vendor c), msg_model = c_str (model c),
     msg_frequency = c_str (frequency c), msg_total_time = total_time c,
     msg_idle_time = idle_time c, msg_cores = cores c\<rparr>"

definition memory_message_of :: "sys_memory \<Rightarrow> memory_message" where
  "memory_message_of m = \<lparr>msg_total = mem_total m, msg_free = mem_free m\<rparr>"

text \<open>Every string of the structure ends within its array.\<close>

definition cpu_strings_end :: "sys_cpu \<Rightarrow> bool" where
  "cpu_strings_end c \<longleftrightarrow> NUL \<in> set (vendor c) \<and> NUL \<in> set (model c) \<and> NUL \<in> set (frequency c)"

text \<open>The memory reader as documented: on a structure it answers success, stores the two values and
  leaves the mappings, and the memory in them, as they are.\<close>

definition ram_reader_gives :: "ram_reader \<Rightarrow> (nat \<times> nat) list \<Rightarrow> sys_memory \<Rightarrow> bool" where
  "ram_reader_gives ram_read rs v \<longleftrightarrow> (\<forall>s m. regions s = rs \<longrightarrow>
     (\<exists>s'. ram_read s (Some m) = Inr (ERR_OK, v, s') \<and> regions s' = rs \<and>
       (\<forall>(b, l) \<in> set rs. \<forall>x. b \<le> x \<and> x < b + l \<longrightarrow> mem s' x = mem s x)))"

section \<open>Reading structures from memory\<close>

lemma mem_read_field: "off + n \<le> k \<Longrightarrow> mem_read m (p + off) n = field off n (mem_read m p k)"
  by (rule nth_equalityI) (simp_all add: field_def add.assoc)

lemma get64_field: "off + 8 \<le> k \<Longrightarrow> get64 m (p + off) = word_field off 8 (mem_read m p k)"
  by (simp add: get64_def word_field_def mem_read_field)

lemma c_string_from_run:
  assumes "accessible s (unat p) (length bs)" and "mem_read (mem s) (unat p) (length bs) = bs"
    and "NUL \<in> set bs" and "unat p + length bs < 18446744073709551616" and "length bs \<le> n"
  shows "c_string_from n s p = Inr (c_str bs)"
  using assms
proof (induction bs arbitrary: n p)
  case (Cons b bs)
  obtain k where n: "n = Suc k" using Cons.prems(5) by (cases n) auto
  have b: "mem s (unat p) = b" and bs: "mem_read (mem s) (Suc (unat p)) (length bs) = bs"
    using Cons.prems(2) by (simp_all add: mem_read_Suc)
  have acc: "accessible s (unat p) 1" by (rule accessible_sub [OF Cons.prems(1)]) simp_all
  then have load: "load8 s p = Inr b" by (simp add: load8_def b)
  show ?case
  proof (cases "b = NUL")
    case True
    then show ?thesis using load n by (simp add: c_str_def)
  next
    case False
    have p1: "unat (p + 1) = unat p + 1" using Cons.prems(4) by (simp add: unat_add_nowrap)
    have "accessible s (unat (p + 1)) (length bs)"
      unfolding p1 by (rule accessible_sub [OF Cons.prems(1)]) simp_all
    moreover have "mem_read (mem s) (unat (p + 1)) (length bs) = bs" using bs p1 by simp
    ultimately have "c_string_from k s (p + 1) = Inr (c_str bs)"
      using Cons.prems False n p1 by (intro Cons.IH) simp_all
    then show ?thesis using load n False by (simp add: c_str_def)
  qed
qed simp

lemma c_string_at_field:
  assumes "accessible s (unat p) k" and "unat p + k < 18446744073709551616" and "off + n \<le> k"
    and "bs = field off n (mem_read (mem s) (unat p) k)" and "NUL \<in> set bs" and "unat q = off"
  shows "c_string_at s (p + q) = Inr (c_str bs)"
proof -
  have len: "length bs = n" using assms(3,4) by (simp add: length_field)
  have u: "unat (p + q) = unat p + off" using assms(2,3,6) by (simp add: unat_add_nowrap)
  have "accessible s (unat (p + q)) (length bs)"
    unfolding u len using assms(3) by (intro accessible_sub [OF assms(1)]) simp_all
  then show ?thesis
    using assms u len unfolding c_string_at_def
    by (intro c_string_from_run) (simp_all add: mem_read_field [symmetric])
qed

lemma load64_field:
  assumes "accessible s (unat p) k" and "unat p + k < 18446744073709551616" and "off + 8 \<le> k"
    and "unat q = off"
  shows "load64 s (p + q) = Inr (word_field off 8 (mem_read (mem s) (unat p) k))"
proof -
  have u: "unat (p + q) = unat p + off" using assms(2-4) by (simp add: unat_add_nowrap)
  have "accessible s (unat p + off) 8" using assms(3) by (intro accessible_sub [OF assms(1)]) simp_all
  then show ?thesis using assms(3) by (simp add: load64_def u get64_field)
qed

lemma load32_field:
  assumes "accessible s (unat p) k" and "unat p + k < 18446744073709551616" and "off + 4 \<le> k"
    and "unat q = off"
  shows "load32 s (p + q) = Inr (word_field off 4 (mem_read (mem s) (unat p) k))"
proof -
  have u: "unat (p + q) = unat p + off" using assms(2-4) by (simp add: unat_add_nowrap)
  have "accessible s (unat p + off) 4" using assms(3) by (intro accessible_sub [OF assms(1)]) simp_all
  then show ?thesis using assms(3) by (simp add: load32_def load_bytes_def u word_field_def mem_read_field)
qed

lemma set_cpu_message_run:
  assumes "accessible s (unat p) 120" and "unat p + 120 < 18446744073709551616"
    and "c = de_cpu (mem_read (mem s) (unat p) 120)" and "cpu_strings_end c"
  shows "set_cpu_message s p = Inr (cpu_message_of c)"
proof -
  note str = c_string_at_field [OF assms(1,2)]
  have s: "c_string_at s (p + 24) = Inr (c_str (vendor c))" "c_string_at s (p + 40) = Inr (c_str (model c))"
      "c_string_at s (p + 104) = Inr (c_str (frequency c))"
    using str [of 24 16 "vendor c" 24] str [of 40 64 "model c" 40] str [of 104 16 "frequency c" 104] assms(3,4)
    by (simp_all add: de_cpu_def cpu_strings_end_def)
  have "load64 s (p + 0) = Inr (total_time c)" "load64 s (p + 8) = Inr (idle_time c)"
      "load32 s (p + 16) = Inr (cores c)"
    using load64_field [OF assms(1,2), of 0 0] load64_field [OF assms(1,2), of 8 8]
      load32_field [OF assms(1,2), of 16 16] assms(3) by (simp_all add: de_cpu_def)
  then show ?thesis using s by (simp add: set_cpu_message_def cpu_message_of_def)
qed

lemma set_memory_message_run:
  assumes "accessible s (unat p) 16" and "unat p + 16 < 18446744073709551616"
    and "m = de_memory (mem_read (mem s) (unat p) 16)"
  shows "set_memory_message s p = Inr (memory_message_of m)"
  using load64_field [OF assms(1,2), of 0 0] load64_field [OF assms(1,2), of 8 8] assms(3)
  by (simp add: set_memory_message_def memory_message_of_def de_memory_def)

lemma then_run_Some_Inr [simp]: "r = Inr x \<Longrightarrow> then_run (Some r) f = f x"
  by simp

section \<open>Steps of the handlers\<close>

lemma handler_arena:
  assumes "kernel_ok k" and "k s 8388640 = Some t"
  obtains s1 where "arena_create k s (MiB 8) = Inr (t, s1)" and "arena_ok s1 t"
    and "regions s1 = (unat t, 8388640) # regions s" and "arena_base s1 t = unat t + 32"
    and "arena_top s1 t = unat t + 32" and "arena_room s1 t = 8388608"
  using arena_create_run [OF assms(1), of s 8388608 t] assms(2) that
  by (auto simp: arena_base_def arena_top_def arena_room_def)

lemma handler_end:
  assumes "kernel_ok k" and "k s 8388640 = Some t" and ok: "arena_ok s1 t"
    and rs: "regions s1 = (unat t, 8388640) # regions s"
  obtains s2 where "arena_destroy s1 t = Inr s2" and "regions s2 = regions s"
proof -
  have ap: "\<forall>(b, l) \<in> set (regions s). apart (unat t) 8388640 b l"
    using kernel_okD(4) [OF assms(1,2)] by simp
  have "(unat t, unat (capacity (arena_at s1 t)) + 32) \<in> set (regions s1)"
    using ok by (simp add: arena_ok_def)
  then have "unat (capacity (arena_at s1 t)) + 32 = 8388640" using ap rs by (auto simp: apart_def)
  then have "arena_top s1 t + arena_room s1 t = unat t + 8388640"
    using arena_cur_le [OF ok] by (simp add: arena_top_def arena_room_def)
  then show ?thesis using arena_destroy_last [OF ok rs _ ap] that by metis
qed

lemma handler_moderate:
  assumes "kernel_ok k" and "k s 8388640 = Some t" and "regions s1 = (unat t, 8388640) # regions s"
  shows "moderate s1 t"
  using kernel_okD(4) [OF assms(1,2)] assms(3) by (force simp: moderate_def list_all_iff apart_def)

text \<open>Storing a structure in the allocated part of the arena.\<close>

lemma arena_memcpy:
  assumes "arena_ok s t" and "arena_base s t \<le> unat p" and "unat p + length bs \<le> arena_top s t"
    and "s' = s\<lparr>mem := mem_write (unat p) bs (mem s)\<rparr>"
  shows "memcpy s p bs = Inr s'" and "arena_ok s' t" and "arena_base s' t = arena_base s t"
    and "arena_top s' t = arena_top s t" and "arena_room s' t = arena_room s t" and "regions s' = regions s"
  using arena.reach [OF assms(1-3)] arena.frame [OF assms] assms(4) by (simp_all add: memcpy_def)

lemma new_struct:
  assumes "arena_ok s t" and "unat n = k" and "k \<le> arena_room s t"
  obtains p s' where "arena_alloc s t n = Inr (p, s')" and "unat p = arena_top s t" and "arena_ok s' t"
    and "regions s' = regions s" and "arena_base s' t = arena_base s t"
    and "arena_top s' t = arena_top s t + k" and "arena_room s' t = arena_room s t - k"
    and "mem_read (mem s') (unat p) k = replicate k NUL"
    and "\<forall>x. arena_base s t \<le> x \<and> x < arena_top s t \<longrightarrow> mem s' x = mem s x"
    and "in_arena_only t s s'"
proof -
  have fit: "unat n \<le> arena_room s t" using assms(2,3) by simp
  obtain p s' where s': "arena_alloc s t n = Inr (p, s')" "unat p = arena_top s t" "arena_ok s' t"
      "regions s' = regions s" "arena_base s' t = arena_base s t" "arena_top s' t = arena_top s t + unat n"
      "arena_room s' t = arena_room s t - unat n"
      "\<forall>x. arena_base s t \<le> x \<and> x < arena_top s t \<longrightarrow> mem s' x = mem s x"
      "mem_read (mem s') (arena_top s t) (unat n) = replicate (unat n) NUL"
      "\<forall>x. x < unat t \<or> arena_top s t + arena_room s t \<le> x \<longrightarrow> mem s' x = mem s x"
    using arena.fresh_block [OF assms(1) fit] by metis
  then have "in_arena_only t s s'" using fit by (simp add: in_arena_only_def)
  then show ?thesis using that s' unfolding assms(2) by metis
qed

lemma cpu_read_at_run:
  assumes "arena_ok s t" and "arena_base s t \<le> unat p" and "unat p + 120 \<le> arena_top s t"
    and "mem_read (mem s) (unat p) 120 = replicate 120 NUL"
    and "cpu_read ar fs (Some zero_cpu) = Some (Inr (e, c))"
  shows "cpu_read_at ar fs s p = Some (Inr (s\<lparr>mem := mem_write (unat p) (en_cpu c) (mem s)\<rparr>))"
proof -
  have wf: "wf_cpu c" using cpu_read_wf [OF wf_zero(1) assms(5)] by simp
  have "p \<noteq> 0" using assms(2) arena.bounds [OF assms(1)] by auto
  moreover have "load_bytes s p 120 = Inr (replicate 120 NUL)"
    using arena.reach [OF assms(1-3)] assms(4) by (simp add: load_bytes_def)
  moreover have "memcpy s p (en_cpu c) = Inr (s\<lparr>mem := mem_write (unat p) (en_cpu c) (mem s)\<rparr>)"
    using assms(1-3) by (intro arena_memcpy(1)) (simp_all add: cpu.length_en [OF wf])
  ultimately show ?thesis
    using assms(5) unfolding cpu_read_at_def by (simp add: de_zero(1))
qed

lemma ram_read_at_step:
  assumes ok: "arena_ok s t" and p: "arena_base s t \<le> unat p" "unat p + 16 \<le> arena_top s t"
    and s1: "ram_read s (Some (de_memory (mem_read (mem s) (unat p) 16))) = Inr (e, v, s1)"
      "regions s1 = regions s"
      "\<forall>(b, l) \<in> set (regions s). \<forall>x. b \<le> x \<and> x < b + l \<longrightarrow> mem s1 x = mem s x"
  obtains s' where "ram_read_at ram_read s p = Inr s'" and "arena_ok s' t"
    and "arena_base s' t = arena_base s t" and "arena_top s' t = arena_top s t"
    and "arena_room s' t = arena_room s t" and "regions s' = regions s"
    and "mem_read (mem s') (unat p) 16 = en_memory v"
    and "\<forall>x. arena_base s t \<le> x \<and> x < arena_top s t \<and> (x < unat p \<or> unat p + 16 \<le> x) \<longrightarrow> mem s' x = mem s x"
    and "\<forall>(b, l) \<in> set (regions s). \<forall>x. b \<le> x \<and> x < b + l \<and> (x < unat p \<or> unat p + 16 \<le> x) \<longrightarrow>
      mem s' x = mem s x"
proof -
  have "(unat t, unat (capacity (arena_at s t)) + 32) \<in> set (regions s)" using ok by (simp add: arena_ok_def)
  then have mem: "mem s1 x = mem s x"
    if "unat t \<le> x" "x < unat t + (unat (capacity (arena_at s t)) + 32)" for x
    using s1(3) that by fastforce
  have hdr: "mem s1 x = mem s x" if "unat t \<le> x" "x < unat t + 32" for x using mem that by simp
  have sub: "set (regions s) \<subseteq> set (regions s1)" by (simp add: s1(2))
  note s1_ok = arena_ok_cong [OF ok sub hdr] s1(2)
  have top: "arena_top s t \<le> unat t + (unat (capacity (arena_at s t)) + 32)"
    using arena_cur_le [OF ok] by (simp add: arena_top_def)
  let ?s = "s1\<lparr>mem := mem_write (unat p) (en_memory v) (mem s1)\<rparr>"
  have len: "length (en_memory v) = 16" by (simp add: ram.length_en)
  have "p \<noteq> 0" using p(1) arena.bounds [OF ok] by auto
  moreover have "on_struct 16 de_memory en_memory s p (\<lambda>s m. ram_read s (Some m)) = Inr (e, ?s)"
    using arena.reach [OF ok p] s1 by (intro ram.on_struct_run) simp_all
  ultimately have "ram_read_at ram_read s p = Inr ?s" by (simp add: ram_read_at_def)
  moreover have "arena_ok s1 t" "arena_base s1 t \<le> unat p" "unat p + length (en_memory v) \<le> arena_top s1 t"
    using s1_ok p len by simp_all
  note w = arena_memcpy [OF this refl]
  moreover have "mem_read (mem ?s) (unat p) 16 = en_memory v" using len by (simp add: mem_simps)
  moreover have "mem ?s x = mem s x"
    if "arena_base s t \<le> x" "x < arena_top s t" "x < unat p \<or> unat p + 16 \<le> x" for x
    using that mem top len by (auto simp: mem_write_def arena_base_def)
  moreover have "\<forall>(b, l) \<in> set (regions s). \<forall>x. b \<le> x \<and> x < b + l \<and> (x < unat p \<or> unat p + 16 \<le> x) \<longrightarrow>
      mem ?s x = mem s x"
    using s1(3) len by (fastforce simp: mem_write_def)
  ultimately show ?thesis using that [of ?s] s1_ok by simp
qed

lemma ram_read_at_run:
  assumes ok: "arena_ok s t" and p: "arena_base s t \<le> unat p" "unat p + 16 \<le> arena_top s t"
    and rr: "ram_reader_gives ram_read (regions s) v"
  obtains s' where "ram_read_at ram_read s p = Inr s'" and "arena_ok s' t"
    and "arena_base s' t = arena_base s t" and "arena_top s' t = arena_top s t"
    and "arena_room s' t = arena_room s t" and "regions s' = regions s"
    and "mem_read (mem s') (unat p) 16 = en_memory v"
    and "\<forall>x. arena_base s t \<le> x \<and> x < arena_top s t \<and> (x < unat p \<or> unat p + 16 \<le> x) \<longrightarrow> mem s' x = mem s x"
proof -
  obtain s1 where "ram_read s (Some (de_memory (mem_read (mem s) (unat p) 16))) = Inr (ERR_OK, v, s1)"
      "regions s1 = regions s"
      "\<forall>(b, l) \<in> set (regions s). \<forall>x. b \<le> x \<and> x < b + l \<longrightarrow> mem s1 x = mem s x"
    using rr unfolding ram_reader_gives_def by blast
  then show ?thesis by (rule ram_read_at_step [where ram_read = ram_read, OF ok p]) (rule that)
qed

lemma disk_read_at_run:
  assumes ok: "arena_ok s t" and p: "arena_base s t \<le> unat p" "unat p + 24 \<le> arena_top s t"
    and z: "mem_read (mem s) (unat p) 24 = replicate 24 NUL"
    and f: "fs ''/proc/partitions'' = Some f" "moderate s t"
  obtains s' where "disk_read_at fs s p t = Inr s'" and "arena_ok s' t"
    and "arena_base s' t = arena_base s t" and "arena_top s t \<le> arena_top s' t" and "regions s' = regions s"
    and "\<forall>x. arena_base s t \<le> x \<and> x < arena_top s t \<and> (x < unat p \<or> unat p + 24 \<le> x) \<longrightarrow> mem s' x = mem s x"
    and "in_arena_only t s s'"
proof -
  have zd: "de_disk (mem_read (mem s) (unat p) 24) = zero_disk" by (simp add: z de_zero(3) zero_disk_def)
  obtain d' s1 where
    s1: "disk_read_lines (fgets_lines BUFF_DEFAULT f) s zero_disk t = Inr (d', s1)" "arena_ok s1 t"
      "disk_ok s1 t (arena_top s t) d'" "regions s1 = regions s" "arena_base s1 t = arena_base s t"
      "\<forall>x. arena_base s t \<le> x \<and> x < arena_top s t \<longrightarrow> mem s1 x = mem s x" "in_arena_only t s s1"
    by (rule disk_read_lines_returns [OF ok zero_disk_ok [OF ok] f(2)]) (rule that)
  let ?s = "s1\<lparr>mem := mem_write (unat p) (en_disk d') (mem s1)\<rparr>"
  have len: "length (en_disk d') = 24" by (simp add: disk.length_en)
  have le: "arena_top s t \<le> arena_top s1 t" using s1(3) by (simp add: disk_ok_def)
  have "p \<noteq> 0" using p(1) arena.bounds [OF ok] by auto
  moreover have "disk_read (fs ''/proc/partitions'') s (Some (de_disk (mem_read (mem s) (unat p) 24))) t =
      Inr (ERR_OK, d', s1)"
    using s1(1) f(1) by (simp add: disk_read_def zd)
  then have "on_struct 24 de_disk en_disk s p (\<lambda>s d. disk_read (fs ''/proc/partitions'') s (Some d) t) =
      Inr (ERR_OK, ?s)"
    using arena.reach [OF ok p] s1(4) by (intro disk.on_struct_run) simp_all
  ultimately have "disk_read_at fs s p t = Inr ?s" by (simp add: disk_read_at_def)
  moreover have "arena_base s1 t \<le> unat p" "unat p + length (en_disk d') \<le> arena_top s1 t"
    using s1(5) p le len by simp_all
  note w = arena_memcpy [OF s1(2) this refl]
  moreover have "mem ?s x = mem s x"
    if "arena_base s t \<le> x" "x < arena_top s t" "x < unat p \<or> unat p + 24 \<le> x" for x
    using that s1(6) len by (auto simp: mem_write_def)
  moreover have "unat t \<le> unat p" "unat p + 24 \<le> arena_top s t + arena_room s t"
    using p by (simp_all add: arena_base_def)
  then have "in_arena_only t s ?s" using s1(7) w len by (auto simp: in_arena_only_def mem_write_def)
  ultimately show ?thesis using that [of ?s] s1(4,5) le by simp
qed

lemma device_read_at_eq:
  assumes ok: "arena_ok s t" and p: "arena_base s t \<le> unat p" "unat p + 544 \<le> arena_top s t"
    and z: "mem_read (mem s) (unat p) 544 = replicate 544 NUL"
    and r: "device_read fs (Some zero_device) = Inr (e, Some d)" "wf_device d"
  shows "device_read_at fs s p = Inr (s\<lparr>mem := mem_write (unat p) (en_device d) (mem s)\<rparr>)"
proof -
  have zd: "de_device (mem_read (mem s) (unat p) 544) = zero_device" by (simp add: z de_zero(4))
  have "p \<noteq> 0" using p(1) arena.bounds [OF ok] by auto
  moreover have "on_struct 544 de_device en_device s p (\<lambda>s d.
      andthen (device_read fs (Some d)) (\<lambda>(e, d'). case d' of
        None \<Rightarrow> Inr (e, d, s) | Some d1 \<Rightarrow> Inr (e, d1, s))) =
      Inr (e, s\<lparr>mem := mem_write (unat p) (en_device d) (mem s)\<rparr>)"
    using arena.reach [OF ok p] r by (intro device.on_struct_run) (simp_all add: zd)
  ultimately show ?thesis by (simp add: device_read_at_def)
qed

lemma device_read_at_run:
  assumes ok: "arena_ok s t" and p: "arena_base s t \<le> unat p" "unat p + 544 \<le> arena_top s t"
    and z: "mem_read (mem s) (unat p) 544 = replicate 544 NUL"
    and r: "device_read fs (Some zero_device) = Inr (e, d')"
  obtains s' where "device_read_at fs s p = Inr s'" and "arena_ok s' t"
    and "arena_base s' t = arena_base s t" and "arena_top s' t = arena_top s t" and "regions s' = regions s"
    and "\<forall>x. x < unat p \<or> unat p + 544 \<le> x \<longrightarrow> mem s' x = mem s x"
proof -
  obtain d1 where d1: "d' = Some d1" "wf_device d1" using device_read_wf [OF r wf_zero(2)] by blast
  let ?s = "s\<lparr>mem := mem_write (unat p) (en_device d1) (mem s)\<rparr>"
  have len: "length (en_device d1) = 544" by (rule device.length_en [OF d1(2)])
  have "device_read_at fs s p = Inr ?s" using r d1 by (intro device_read_at_eq [OF ok p z]) simp_all
  moreover have "unat p + length (en_device d1) \<le> arena_top s t" using p len by simp
  note w = arena_memcpy [OF ok p(1) this refl]
  ultimately show ?thesis using that [of ?s] len by (auto simp: mem_write_def)
qed

text \<open>The four structures of \<open>get_system_resources_impl\<close>, one after the other and all zero.\<close>

lemma four_structs:
  assumes ok: "arena_ok s t" and b: "arena_base s t = B" "arena_top s t = B" and r: "arena_room s t = 8388608"
  obtains c m d v s2 s3 s4 s5 where "cpu_create s t = Inr (c, s2)" and "ram_create s2 t = Inr (m, s3)"
    and "disk_create s3 t = Inr (d, s4)" and "device_create s4 t = Inr (v, s5)"
    and "unat c = B" and "unat m = B + 120" and "unat d = B + 136" and "unat v = B + 160"
    and "arena_ok s5 t" and "regions s5 = regions s" and "arena_base s5 t = B"
    and "arena_top s5 t = B + 704" and "arena_room s5 t = 8387904"
    and "\<forall>x. B \<le> x \<and> x < B + 704 \<longrightarrow> mem s5 x = NUL" and "in_arena_only t s s5"
proof -
  have n: "unat sizeof_sys_cpu = 120" "unat sizeof_sys_memory = 16" "unat sizeof_sys_disk = 24"
      "unat sizeof_sys_device = 544" by (simp_all add: layout_simps)
  obtain c s2 where s2: "arena_alloc s t sizeof_sys_cpu = Inr (c, s2)" "unat c = B" "arena_ok s2 t"
      "regions s2 = regions s" "arena_base s2 t = B" "arena_top s2 t = B + 120" "arena_room s2 t = 8388488"
      "\<forall>x. B \<le> x \<and> x < B + 120 \<longrightarrow> mem s2 x = NUL"
      "in_arena_only t s s2"
    by (rule new_struct [OF ok n(1)]) (use b r in \<open>auto simp: mem_read_zeros\<close>)
  obtain m s3 where s3: "arena_alloc s2 t sizeof_sys_memory = Inr (m, s3)" "unat m = B + 120" "arena_ok s3 t"
      "regions s3 = regions s" "arena_base s3 t = B" "arena_top s3 t = B + 136" "arena_room s3 t = 8388472"
      "\<forall>x. B + 120 \<le> x \<and> x < B + 136 \<longrightarrow> mem s3 x = NUL" "\<forall>x. B \<le> x \<and> x < B + 120 \<longrightarrow> mem s3 x = mem s2 x"
      "in_arena_only t s2 s3"
    by (rule new_struct [OF s2(3) n(2)]) (use s2 in \<open>auto simp: mem_read_zeros\<close>)
  obtain d s4 where s4: "arena_alloc s3 t sizeof_sys_disk = Inr (d, s4)" "unat d = B + 136" "arena_ok s4 t"
      "regions s4 = regions s" "arena_base s4 t = B" "arena_top s4 t = B + 160" "arena_room s4 t = 8388448"
      "\<forall>x. B + 136 \<le> x \<and> x < B + 160 \<longrightarrow> mem s4 x = NUL" "\<forall>x. B \<le> x \<and> x < B + 136 \<longrightarrow> mem s4 x = mem s3 x"
      "in_arena_only t s3 s4"
    by (rule new_struct [OF s3(3) n(3)]) (use s3 in \<open>auto simp: mem_read_zeros\<close>)
  obtain v s5 where s5: "arena_alloc s4 t sizeof_sys_device = Inr (v, s5)" "unat v = B + 160" "arena_ok s5 t"
      "regions s5 = regions s" "arena_base s5 t = B" "arena_top s5 t = B + 704" "arena_room s5 t = 8387904"
      "\<forall>x. B + 160 \<le> x \<and> x < B + 704 \<longrightarrow> mem s5 x = NUL" "\<forall>x. B \<le> x \<and> x < B + 160 \<longrightarrow> mem s5 x = mem s4 x"
      "in_arena_only t s4 s5"
    by (rule new_struct [OF s4(3) n(4)]) (use s4 in \<open>auto simp: mem_read_zeros\<close>)
  have "mem s5 x = NUL" if "B \<le> x" "x < B + 704" for x
    using that s2(8) s3(8,9) s4(8,9) s5(8,9)
    by (cases "x < B + 120"; cases "x < B + 136"; cases "x < B + 160") auto
  then have z: "\<forall>x. B \<le> x \<and> x < B + 704 \<longrightarrow> mem s5 x = NUL" by simp
  have "in_arena_only t s s5"
    by (rule in_arena_only_trans [OF s2(9) in_arena_only_trans [OF s3(10) in_arena_only_trans [OF s4(10) s5(10)]]])
  then show ?thesis
    by (intro that [OF _ _ _ _ s2(2) s3(2) s4(2) s5(2-7) z, of s2 s3 s4])
      (simp_all add: cpu_create_def ram_create_def disk_create_def device_create_def s2(1) s3(1) s4(1) s5(1))
qed

text \<open>The first two readers, then the last two; each leaves the other structures alone.\<close>

lemma cpu_and_ram:
  assumes s: "arena_ok s t" "arena_base s t = B" "arena_top s t = B + 704" "arena_room s t = R"
      "\<forall>x. B \<le> x \<and> x < B + 704 \<longrightarrow> mem s x = NUL"
    and ptr: "unat cp = B" "unat mp = B + 120"
    and cpu: "cpu_read ar fs (Some zero_cpu) = Some (Inr (e, c))"
    and ram: "ram_reader_gives ram_read (regions s) v"
  obtains s1 s2 where "cpu_read_at ar fs s cp = Some (Inr s1)" and "ram_read_at ram_read s1 mp = Inr s2"
    and "arena_ok s2 t" and "arena_base s2 t = B" and "arena_top s2 t = B + 704" and "arena_room s2 t = R"
    and "regions s2 = regions s" and "mem_read (mem s2) B 120 = en_cpu c"
    and "mem_read (mem s2) (B + 120) 16 = en_memory v"
    and "\<forall>x. B + 136 \<le> x \<and> x < B + 704 \<longrightarrow> mem s2 x = NUL"
proof -
  have wf: "wf_cpu c" using cpu_read_wf [OF wf_zero(1) cpu] by simp
  have len: "length (en_cpu c) = 120" by (rule cpu.length_en [OF wf])
  define s1 where "s1 = s\<lparr>mem := mem_write (unat cp) (en_cpu c) (mem s)\<rparr>"
  have read: "cpu_read_at ar fs s cp = Some (Inr s1)"
    unfolding s1_def using s ptr
    by (intro cpu_read_at_run [OF s(1) _ _ _ cpu]) (simp_all add: mem_read_zeros)
  have "arena_base s t \<le> unat cp" "unat cp + length (en_cpu c) \<le> arena_top s t"
    using s ptr len by simp_all
  note w = arena_memcpy [OF s(1) this s1_def]
  have z: "mem s1 x = NUL" if "B + 120 \<le> x" "x < B + 704" for x
    using that s(5) ptr(1) len by (simp add: s1_def mem_write_def)
  have c1: "mem_read (mem s1) B 120 = en_cpu c" using ptr(1) len by (simp add: s1_def mem_simps)
  have "ram_reader_gives ram_read (regions s1) v" "arena_base s1 t \<le> unat mp" "unat mp + 16 \<le> arena_top s1 t"
    using ram w s ptr by simp_all
  then obtain s2 where s2: "ram_read_at ram_read s1 mp = Inr s2" "arena_ok s2 t"
      "arena_base s2 t = arena_base s1 t" "arena_top s2 t = arena_top s1 t" "arena_room s2 t = arena_room s1 t"
      "regions s2 = regions s1" "mem_read (mem s2) (unat mp) 16 = en_memory v"
      "\<forall>x. arena_base s1 t \<le> x \<and> x < arena_top s1 t \<and> (x < unat mp \<or> unat mp + 16 \<le> x) \<longrightarrow> mem s2 x = mem s1 x"
    using ram_read_at_run [OF w(2)] by metis
  have m2: "mem s2 x = mem s1 x" if "B \<le> x" "x < B + 704" "x < B + 120 \<or> B + 136 \<le> x" for x
    using that s2(8) w s ptr(2) by auto
  have "mem_read (mem s2) B 120 = en_cpu c"
    unfolding c1 [symmetric] using m2 by (intro mem_read_cong) simp
  moreover have "\<forall>x. B + 136 \<le> x \<and> x < B + 704 \<longrightarrow> mem s2 x = NUL" using m2 z by auto
  ultimately show ?thesis using that [OF read s2(1,2)] s2 w s ptr(2) by simp
qed

lemma disk_and_device:
  assumes s: "arena_ok s t" "arena_base s t = B" "arena_top s t = B + 704"
      "\<forall>x. B + 136 \<le> x \<and> x < B + 704 \<longrightarrow> mem s x = NUL"
    and ptr: "unat dp = B + 136" "unat vp = B + 160"
    and disk: "fs ''/proc/partitions'' = Some f" "moderate s t"
    and dev: "device_read fs (Some zero_device) = Inr (e', d')"
  obtains s1 s2 where "disk_read_at fs s dp t = Inr s1" and "device_read_at fs s1 vp = Inr s2"
    and "arena_ok s2 t" and "arena_base s2 t = B" and "B + 704 \<le> arena_top s2 t"
    and "regions s2 = regions s" and "\<forall>x. B \<le> x \<and> x < B + 136 \<longrightarrow> mem s2 x = mem s x"
proof -
  have zd: "mem_read (mem s) (unat dp) 24 = replicate 24 NUL" using s(4) ptr by (auto simp: mem_read_zeros)
  have "arena_base s t \<le> unat dp" "unat dp + 24 \<le> arena_top s t"
    using s ptr by simp_all
  then obtain s1 where s1: "disk_read_at fs s dp t = Inr s1" "arena_ok s1 t"
      "arena_base s1 t = arena_base s t" "arena_top s t \<le> arena_top s1 t" "regions s1 = regions s"
      "\<forall>x. arena_base s t \<le> x \<and> x < arena_top s t \<and> (x < unat dp \<or> unat dp + 24 \<le> x) \<longrightarrow> mem s1 x = mem s x"
    using disk_read_at_run [where fs = fs, OF s(1) _ _ zd disk] by metis
  have m1: "mem s1 x = mem s x" if "B \<le> x" "x < B + 704" "x < B + 136 \<or> B + 160 \<le> x" for x
    using that s1(6) s ptr(1) by auto
  have zv: "mem_read (mem s1) (unat vp) 544 = replicate 544 NUL"
    using s(4) m1 ptr(2) by (auto simp: mem_read_zeros)
  have "arena_base s1 t \<le> unat vp" "unat vp + 544 \<le> arena_top s1 t" using s1(3,4) s ptr by simp_all
  then obtain s2 where s2: "device_read_at fs s1 vp = Inr s2" "arena_ok s2 t" "arena_base s2 t = arena_base s1 t"
      "arena_top s2 t = arena_top s1 t" "regions s2 = regions s1"
      "\<forall>x. x < unat vp \<or> unat vp + 544 \<le> x \<longrightarrow> mem s2 x = mem s1 x"
    using device_read_at_run [where fs = fs, OF s1(2) _ _ zv dev] by metis
  have "\<forall>x. B \<le> x \<and> x < B + 136 \<longrightarrow> mem s2 x = mem s x" using s2(6) m1 ptr(2) by auto
  then show ?thesis using that [OF s1(1) s2(1,2)] s2 s1 s by simp
qed

lemma system_readers:
  assumes s: "arena_ok s t" "arena_base s t = B" "arena_top s t = B + 704" "arena_room s t = 8387904"
      "\<forall>x. B \<le> x \<and> x < B + 704 \<longrightarrow> mem s x = NUL"
    and ptr: "unat cp = B" "unat mp = B + 120" "unat dp = B + 136" "unat vp = B + 160"
    and cpu: "cpu_read ar fs (Some zero_cpu) = Some (Inr (e, c))" "cpu_strings_end c"
    and ram: "ram_reader_gives ram_read (regions s) v"
    and disk: "fs ''/proc/partitions'' = Some f" "moderate s t"
    and dev: "device_read fs (Some zero_device) = Inr (e', d')"
  obtains s1 s2 s3 s4 where "cpu_read_at ar fs s cp = Some (Inr s1)" and "ram_read_at ram_read s1 mp = Inr s2"
    and "disk_read_at fs s2 dp t = Inr s3" and "device_read_at fs s3 vp = Inr s4"
    and "arena_ok s4 t" and "regions s4 = regions s" and "set_cpu_message s4 cp = Inr (cpu_message_of c)"
    and "set_memory_message s4 mp = Inr (memory_message_of v)"
proof -
  obtain s1 s2 where s2: "cpu_read_at ar fs s cp = Some (Inr s1)" "ram_read_at ram_read s1 mp = Inr s2"
      "arena_ok s2 t" "arena_base s2 t = B" "arena_top s2 t = B + 704" "arena_room s2 t = 8387904"
      "regions s2 = regions s" "mem_read (mem s2) B 120 = en_cpu c"
      "mem_read (mem s2) (B + 120) 16 = en_memory v" "\<forall>x. B + 136 \<le> x \<and> x < B + 704 \<longrightarrow> mem s2 x = NUL"
    by (rule cpu_and_ram [OF s ptr(1,2) cpu(1) ram])
  have m2: "moderate s2 t" using disk(2) moderate_regions [OF s2(7)] by simp
  obtain s3 s4 where s4: "disk_read_at fs s2 dp t = Inr s3" "device_read_at fs s3 vp = Inr s4"
      "arena_ok s4 t" "arena_base s4 t = B" "B + 704 \<le> arena_top s4 t" "regions s4 = regions s2"
      "\<forall>x. B \<le> x \<and> x < B + 136 \<longrightarrow> mem s4 x = mem s2 x"
    by (rule disk_and_device [where fs = fs, OF s2(3-5,10) ptr(3,4) disk(1) m2 dev])
  have wf: "wf_cpu c" using cpu_read_wf [OF wf_zero(1) cpu(1)] by simp
  have c4: "mem_read (mem s4) (unat cp) 120 = en_cpu c"
    unfolding s2(8) [symmetric] ptr using s4(7) by (intro mem_read_cong) simp
  have m4: "mem_read (mem s4) (unat mp) 16 = en_memory v"
    unfolding s2(9) [symmetric] ptr using s4(7) by (intro mem_read_cong) simp
  have acc: "accessible s4 (unat cp) 120" "accessible s4 (unat mp) 16"
    using ptr s4(4,5) by (auto intro!: arena.reach [OF s4(3)])
  have "B + 704 < 18446744073709551616" using s4(5) arena.bounds [OF s4(3)] by simp
  then have "set_cpu_message s4 cp = Inr (cpu_message_of c)" "set_memory_message s4 mp = Inr (memory_message_of v)"
    using acc c4 m4 ptr cpu(2) cpu.de_en [OF wf] ram.de_en [of v]
    by (auto intro!: set_cpu_message_run set_memory_message_run)
  then show ?thesis using that [OF s2(1,2) s4(1,2,3)] s4(6) s2(7) by simp
qed

section \<open>The defined memory reader\<close>

text \<open>\<open>sys_ram_read\<close> is a memory reader the handlers can rely on, whenever the kernel has memory for
  its arena and \<open>/proc/meminfo\<close> holds both values.\<close>

lemma sys_ram_read_gives:
  assumes k: "kernel_ok k" "\<And>s. regions s = rs \<Longrightarrow> k s 8224 \<noteq> None"
    and f: "fs ''/proc/meminfo'' = Some f" "bufs = fgets_lines BUFF_SMALL f" "values_length bufs \<le> 8192"
      "mem_values ''MemTotal'' bufs \<noteq> []" "mem_values ''MemFree'' bufs \<noteq> []"
  shows "ram_reader_gives (sys_ram_read k fs) rs
    \<lparr>mem_total = leading_number (last (mem_values ''MemTotal'' bufs)),
     mem_free = leading_number (last (mem_values ''MemFree'' bufs))\<rparr>"
  unfolding ram_reader_gives_def
proof (intro allI impI)
  fix s :: os and m assume rs: "regions s = rs"
  then obtain t where t: "k s 8224 = Some t" using k(2) by blast
  have apart: "\<forall>(b, l) \<in> set rs. apart (unat t) 8224 b l" using kernel_okD(4) [OF k(1) t] rs by simp
  show "\<exists>s'. sys_ram_read k fs s (Some m) = Inr (ERR_OK,
      \<lparr>mem_total = leading_number (last (mem_values ''MemTotal'' bufs)),
       mem_free = leading_number (last (mem_values ''MemFree'' bufs))\<rparr>, s') \<and> regions s' = rs \<and>
    (\<forall>(b, l) \<in> set rs. \<forall>x. b \<le> x \<and> x < b + l \<longrightarrow> mem s' x = mem s x)"
  proof (rule sys_ram_read_run [where fs = fs and m = m, OF k(1) t f], rule exI, intro conjI)
    fix s' assume "\<forall>x. x < unat t \<or> unat t + 8224 \<le> x \<longrightarrow> mem s' x = mem s x"
    then show "\<forall>(b, l) \<in> set rs. \<forall>x. b \<le> x \<and> x < b + l \<longrightarrow> mem s' x = mem s x"
      using apart by (fastforce simp: apart_def)
  qed (use rs in auto)
qed

section \<open>A small machine\<close>

definition demo_cpuinfo :: string where
  "demo_cpuinfo = (''vendor_id'' @ [TAB]) @ '': '' @ ''GenuineIntel''"

definition demo_cpu :: sys_cpu where
  "demo_cpu = zero_cpu\<lparr>vendor := overlay (replicate 16 NUL) ''GenuineIntel''\<rparr>"

definition demo_files :: files where
  "demo_files path =
     (if path = ''/proc/cpuinfo'' then Some (lines_text [demo_cpuinfo])
      else if path = ''/proc/partitions''
      then Some (lines_text (partitions_header @ map partition_text [demo_partition]))
      else if path = ''/proc/meminfo'' then demo_meminfo path
      else demo_device_files path)"

definition demo_context :: server_context where
  "demo_context = \<lparr>is_cancelled = False, deadline = 100\<rparr>"

definition empty_reply :: reply where
  "empty_reply = \<lparr>reply_cpu = None, reply_memory = None\<rparr>"

lemma demo_cpu_read: "cpu_read X86_64 demo_files (Some zero_cpu) = Some (Inr (ERR_OK, demo_cpu))"
proof -
  let ?bufs = "fgets_lines BUFF_LARGE (lines_text [demo_cpuinfo])"
  have "?bufs = [demo_cpuinfo @ [NL]]"
    by (subst fgets_lines_text) (simp_all add: demo_cpuinfo_def BUFF_LARGE_def)
  then have bufs: "?bufs = [(''vendor_id'' @ [TAB]) @ '': '' @ ''GenuineIntel'' @ [NL]]"
    by (simp add: demo_cpuinfo_def)
  have kv: "key_values key ?bufs =
      (if strn_eq ((''vendor_id'' @ [TAB]) @ '': '' @ ''GenuineIntel'' @ [NL]) key (length key)
       then [''GenuineIntel''] else [])" for key
    unfolding bufs by (rule cpuinfo_line_values) simp_all
  have "cpuinfo_fits ?bufs" unfolding cpuinfo_fits_def kv by (simp add: strn_eq_def)
  moreover have "cpuinfo_result ?bufs zero_cpu = demo_cpu"
    unfolding cpuinfo_result_def kv by (simp add: strn_eq_def demo_cpu_def zero_cpu_def)
  ultimately show ?thesis
    using cpuinfo_lines_run [OF wf_zero(1), of ?bufs]
    by (simp add: cpu_read_def cpu_read_amd64_def demo_files_def c_assert_def)
qed

lemma demo_cpu_strings: "cpu_strings_end demo_cpu"
  by (simp add: cpu_strings_end_def demo_cpu_def zero_cpu_def overlay_def)

lemma page_kernel_8M: "page_kernel empty_os 8388640 = Some 4096"
  by (rule page_kernel_empty) simp_all

section \<open>Properties\<close>

lemma get_cpu_run:
  assumes "kernel_ok k" and "k s 8388640 = Some t"
    and "\<not> is_cancelled ctx" and "clock 0 \<le> deadline ctx"
    and "cpu_read ar fs (Some zero_cpu) = Some (Inr (e, c))" and "cpu_strings_end c"
  shows "\<exists>s'. GetCpu k ar fs ctx clock s resp =
      Some (Inr (OK, resp\<lparr>reply_cpu := Some (cpu_message_of c)\<rparr>, s')) \<and> regions s' = regions s \<and>
    msg_total_time (cpu_message_of c) = 0 \<and> msg_idle_time (cpu_message_of c) = 0"
proof -
  obtain s1 where s1: "arena_create k s (MiB 8) = Inr (t, s1)" "arena_ok s1 t"
      "regions s1 = (unat t, 8388640) # regions s" "arena_base s1 t = unat t + 32"
      "arena_top s1 t = unat t + 32" "arena_room s1 t = 8388608"
    by (rule handler_arena [OF assms(1,2)])
  have n: "unat sizeof_sys_cpu = 120" by (simp add: sizeof_sys_cpu_def)
  have room: "120 \<le> arena_room s1 t" by (simp add: s1)
  obtain p s2 where s2: "arena_alloc s1 t sizeof_sys_cpu = Inr (p, s2)" "unat p = arena_top s1 t"
      "arena_ok s2 t" "regions s2 = regions s1" "arena_base s2 t = arena_base s1 t"
      "arena_top s2 t = arena_top s1 t + 120" "arena_room s2 t = arena_room s1 t - 120"
      "mem_read (mem s2) (unat p) 120 = replicate 120 NUL"
    by (rule new_struct [OF s1(2) n room])
  let ?s3 = "s2\<lparr>mem := mem_write (unat p) (en_cpu c) (mem s2)\<rparr>"
  have wf: "wf_cpu c" using cpu_read_wf [OF wf_zero(1) assms(5)] by simp
  have in_arena: "arena_base s2 t \<le> unat p" "unat p + 120 \<le> arena_top s2 t" using s2 s1 by simp_all
  note read = cpu_read_at_run [OF s2(3) in_arena s2(8) assms(5)]
  have in_arena': "unat p + length (en_cpu c) \<le> arena_top s2 t"
    using in_arena(2) by (simp add: cpu.length_en [OF wf])
  note s3 = arena_memcpy [OF s2(3) in_arena(1) in_arena' refl]
  have "accessible ?s3 (unat p) 120" using s3 in_arena by (intro arena.reach [OF s3(2)]) simp_all
  moreover have "unat p + 120 < 18446744073709551616" using in_arena(2) arena.bounds [OF s2(3)] by simp
  moreover have "c = de_cpu (mem_read (mem ?s3) (unat p) 120)" using cpu.read_back [OF wf] by simp
  ultimately have msg: "set_cpu_message ?s3 p = Inr (cpu_message_of c)"
    using assms(6) by (intro set_cpu_message_run)
  obtain s4 where "arena_destroy ?s3 t = Inr s4" "regions s4 = regions s"
    using handler_end [OF assms(1,2) s3(2)] s3(6) s2(4) s1(3) by metis
  moreover have "msg_total_time (cpu_message_of c) = 0" "msg_idle_time (cpu_message_of c) = 0"
    using cpu_read_times [OF wf_zero(1) assms(5)] by (simp_all add: cpu_message_of_def zero_cpu_def)
  ultimately show ?thesis
    using assms(3,4) s1(1) s2(1) read msg by (simp add: GetCpu_def get_cpu_impl_def cpu_create_def)
qed

text \<open>C19: a \<open>GetCpu\<close> call that is neither cancelled nor late answers OK with the fields the CPU
  reader stored, each string up to its end, and returns the address space to the mappings it
  found. The usage counters are 0: the handler does not call \<open>cpu_read_usage\<close>.\<close>

theorem get_cpu_reply:
  assumes "kernel_ok k" and "k s 8388640 = Some t"
    and "\<not> is_cancelled ctx" and "clock 0 \<le> deadline ctx"
    and "cpu_read ar fs (Some zero_cpu) = Some (Inr (e, c))" and "cpu_strings_end c"
  shows "\<exists>s'. GetCpu k ar fs ctx clock s resp =
      Some (Inr (OK, resp\<lparr>reply_cpu := Some (cpu_message_of c)\<rparr>, s')) \<and> regions s' = regions s \<and>
    msg_total_time (cpu_message_of c) = 0 \<and> msg_idle_time (cpu_message_of c) = 0"
  by (rule get_cpu_run [where fs = fs and clock = clock, OF assms])

text \<open>C1: a \<open>GetSystemResources\<close> call in time, on a machine whose files can be read: the answer is OK
  with the CPU fields and the memory numbers the readers stored, unaffected by the disk and device
  readers that work in the same arena in between, and the address space is as it was before.\<close>

theorem get_system_resources_reply:
  assumes k: "kernel_ok k" "k s 8388640 = Some t"
    and ctx: "\<not> is_cancelled ctx" "\<forall>i. clock i \<le> deadline ctx"
    and cpu: "cpu_read ar fs (Some zero_cpu) = Some (Inr (e, c))" "cpu_strings_end c"
    and ram: "ram_reader_gives ram_read ((unat t, 8388640) # regions s) v"
    and disk: "fs ''/proc/partitions'' = Some f"
    and dev: "device_read fs (Some zero_device) = Inr (e', d')"
  shows "\<exists>s'. GetSystemResources k ar fs ram_read ctx clock s resp =
      Some (Inr (OK, resp\<lparr>reply_cpu := Some (cpu_message_of c),
                         reply_memory := Some (memory_message_of v)\<rparr>, s')) \<and>
    regions s' = regions s"
proof -
  obtain s1 where s1: "arena_create k s (MiB 8) = Inr (t, s1)" "arena_ok s1 t"
      "regions s1 = (unat t, 8388640) # regions s" "arena_base s1 t = unat t + 32"
      "arena_top s1 t = unat t + 32" "arena_room s1 t = 8388608"
    by (rule handler_arena [OF k])
  obtain cp mp dp vp s2 s3 s4 s5 where create: "cpu_create s1 t = Inr (cp, s2)" "ram_create s2 t = Inr (mp, s3)"
      "disk_create s3 t = Inr (dp, s4)" "device_create s4 t = Inr (vp, s5)"
    and ptr: "unat cp = unat t + 32" "unat mp = unat t + 32 + 120" "unat dp = unat t + 32 + 136"
      "unat vp = unat t + 32 + 160"
    and s5: "arena_ok s5 t" "regions s5 = regions s1" "arena_base s5 t = unat t + 32"
      "arena_top s5 t = unat t + 32 + 704" "arena_room s5 t = 8387904"
      "\<forall>x. unat t + 32 \<le> x \<and> x < unat t + 32 + 704 \<longrightarrow> mem s5 x = NUL"
    by (rule four_structs [OF s1(2,4,5,6)])
  have m5: "moderate s5 t" using handler_moderate [OF k s1(3)] moderate_regions [OF s5(2)] by simp
  have gives: "ram_reader_gives ram_read (regions s5) v" using ram s5(2) s1(3) by simp
  obtain s6 s7 s8 s9 where read: "cpu_read_at ar fs s5 cp = Some (Inr s6)" "ram_read_at ram_read s6 mp = Inr s7"
      "disk_read_at fs s7 dp t = Inr s8" "device_read_at fs s8 vp = Inr s9"
    and s9: "arena_ok s9 t" "regions s9 = regions s5" "set_cpu_message s9 cp = Inr (cpu_message_of c)"
      "set_memory_message s9 mp = Inr (memory_message_of v)"
    by (rule system_readers [where fs = fs, OF s5(1,3-6) ptr cpu gives disk m5 dev])
  obtain s' where "arena_destroy s9 t = Inr s'" "regions s' = regions s"
    using handler_end [OF k s9(1)] s9(2) s5(2) s1(3) by metis
  moreover have "\<not> deadline ctx < clock i" for i using ctx(2) by (simp add: not_less)
  ultimately show ?thesis
    using ctx(1) s1(1) create read s9(3,4)
    by (simp add: GetSystemResources_def get_system_resources_impl_def)
qed

theorem get_cpu_reply_witness:
  "\<exists>s' m. GetCpu page_kernel X86_64 demo_files demo_context (\<lambda>_. 0) empty_os empty_reply =
     Some (Inr (OK, empty_reply\<lparr>reply_cpu := Some m\<rparr>, s')) \<and> msg_vendor m = ''GenuineIntel'' \<and>
     msg_total_time m = 0 \<and> regions s' = []"
proof -
  have v: "c_str (vendor demo_cpu) = ''GenuineIntel''"
    by (simp add: demo_cpu_def overlay_def c_str_def numeral_eq_Suc)
  have "\<not> is_cancelled demo_context" "0 \<le> deadline demo_context" by (simp_all add: demo_context_def)
  then obtain s' where "GetCpu page_kernel X86_64 demo_files demo_context (\<lambda>_. 0) empty_os empty_reply =
      Some (Inr (OK, empty_reply\<lparr>reply_cpu := Some (cpu_message_of demo_cpu)\<rparr>, s'))" "regions s' = regions empty_os"
    using get_cpu_reply [OF page_kernel_ok page_kernel_8M _ _ demo_cpu_read demo_cpu_strings,
        of demo_context "\<lambda>_. 0" empty_reply] by blast
  moreover have "msg_vendor (cpu_message_of demo_cpu) = ''GenuineIntel''" "msg_total_time (cpu_message_of demo_cpu) = 0"
    using v by (simp_all add: cpu_message_of_def) (simp add: demo_cpu_def zero_cpu_def)
  ultimately show ?thesis by (auto simp: empty_os_def)
qed

lemma demo_ram:
  "ram_reader_gives (sys_ram_read page_kernel demo_files) ((4096, 8388640) # regions empty_os)
     \<lparr>mem_total = 16318480, mem_free = 512000\<rparr>"
proof -
  let ?f = "lines_text (meminfo_text 16318480 512000 [''Buffers:          1024 kB''])"
  let ?bufs = "fgets_lines BUFF_SMALL ?f"
  note vs = demo_meminfo_values [OF refl]
  have "length (show_nat 16318480) \<le> 8" "length (show_nat 512000) \<le> 6" by (intro length_show_nat; simp)+
  then have len: "values_length ?bufs \<le> 8192" unfolding values_length_def total_length_def vs by simp
  have f: "demo_files ''/proc/meminfo'' = Some ?f" by (simp add: demo_files_def demo_meminfo_def)
  have ne: "mem_values ''MemTotal'' ?bufs \<noteq> []" "mem_values ''MemFree'' ?bufs \<noteq> []" unfolding vs by simp_all
  have num: "leading_number (last (mem_values ''MemTotal'' ?bufs)) = 16318480"
      "leading_number (last (mem_values ''MemFree'' ?bufs)) = 512000"
    unfolding vs by (simp_all add: leading_number_show)
  have k: "page_kernel s 8224 \<noteq> None" if "regions s = (4096, 8388640) # regions empty_os" for s :: os
    using that by (simp add: page_kernel_def end_of_regions_def empty_os_def Let_def)
  show ?thesis
    using sys_ram_read_gives [where fs = demo_files, OF page_kernel_ok k f refl len ne] unfolding num .
qed

lemma demo_device_read: "wf_device d \<Longrightarrow> \<exists>d'. device_read demo_files (Some d) = Inr (ERR_OK, Some d')"
proof -
  assume wf: "wf_device d"
  have "scan_ld ([] @ show_nat 93784 @ ''.12 5.3'' @ [NL]) = Some (int 93784, ''.12 5.3'' @ [NL])"
    by (rule scan_ld_show) (simp_all add: is_digit_def)
  then have scan: "scan_ld (show_nat 93784 @ ''.12 5.3'' @ [NL]) = Some (93784, ''.12 5.3'' @ [NL])" by simp
  have f: "demo_files ''/etc/os-release'' = Some (''NAME='' @ [CHR 0x22] @ ''Arch'' @ [CHR 0x22, NL])"
      "demo_files ''/proc/uptime'' = Some (show_nat 93784 @ ''.12 5.3'' @ [NL])"
    by (simp_all add: demo_files_def demo_device_files_def)
  show ?thesis using device_read_run [where fs = demo_files, OF wf f scan] by blast
qed

theorem get_system_resources_reply_witness:
  "\<exists>s' m. GetSystemResources page_kernel X86_64 demo_files (sys_ram_read page_kernel demo_files)
       demo_context (\<lambda>_. 0) empty_os empty_reply =
     Some (Inr (OK, empty_reply\<lparr>reply_cpu := Some m,
       reply_memory := Some \<lparr>msg_total = 16318480, msg_free = 512000\<rparr>\<rparr>, s')) \<and> regions s' = []"
proof -
  let ?p = "lines_text (partitions_header @ map partition_text [demo_partition])"
  have ctx: "\<not> is_cancelled demo_context" "\<forall>i :: nat. (\<lambda>_. 0) i \<le> deadline demo_context"
    by (simp_all add: demo_context_def)
  have p: "demo_files ''/proc/partitions'' = Some ?p" by (simp add: demo_files_def)
  obtain d' where dev: "device_read demo_files (Some zero_device) = Inr (ERR_OK, Some d')"
    using demo_device_read [OF wf_zero(2)] by blast
  have ram: "ram_reader_gives (sys_ram_read page_kernel demo_files) ((unat (4096 :: u64), 8388640) # regions empty_os)
      \<lparr>mem_total = 16318480, mem_free = 512000\<rparr>" using demo_ram by simp
  show ?thesis
    using get_system_resources_reply [where fs = demo_files and resp = empty_reply,
        OF page_kernel_ok page_kernel_8M ctx demo_cpu_read demo_cpu_strings ram p dev]
    by (auto simp: memory_message_of_def empty_os_def)
qed

lemma get_memory_run:
  assumes "kernel_ok k" and "k s 8388640 = Some t"
    and "\<not> is_cancelled ctx" and "clock 0 \<le> deadline ctx"
    and "ram_reader_gives ram_read ((unat t, 8388640) # regions s) v"
  shows "\<exists>s'. GetMemory k ram_read ctx clock s resp =
      Inr (OK, resp\<lparr>reply_memory := Some (memory_message_of v)\<rparr>, s') \<and> regions s' = regions s"
proof -
  obtain s1 where s1: "arena_create k s (MiB 8) = Inr (t, s1)" "arena_ok s1 t"
      "regions s1 = (unat t, 8388640) # regions s" "arena_base s1 t = unat t + 32"
      "arena_top s1 t = unat t + 32" "arena_room s1 t = 8388608"
    by (rule handler_arena [OF assms(1,2)])
  have n: "unat sizeof_sys_memory = 16" by (simp add: sizeof_sys_memory_def)
  have room: "16 \<le> arena_room s1 t" by (simp add: s1)
  obtain p s2 where s2: "arena_alloc s1 t sizeof_sys_memory = Inr (p, s2)" "unat p = arena_top s1 t"
      "arena_ok s2 t" "regions s2 = regions s1" "arena_base s2 t = arena_base s1 t"
      "arena_top s2 t = arena_top s1 t + 16"
    by (rule new_struct [OF s1(2) n room])
  have p: "arena_base s2 t \<le> unat p" "unat p + 16 \<le> arena_top s2 t" using s2 s1 by simp_all
  have rr: "ram_reader_gives ram_read (regions s2) v" using assms(5) s2(4) s1(3) by simp
  obtain s3 where s3: "ram_read_at ram_read s2 p = Inr s3" "arena_ok s3 t"
      "arena_base s3 t = arena_base s2 t" "arena_top s3 t = arena_top s2 t" "regions s3 = regions s2"
      "mem_read (mem s3) (unat p) 16 = en_memory v"
    by (rule ram_read_at_run [OF s2(3) p rr])
  have "accessible s3 (unat p) 16" using p s3(3,4) by (intro arena.reach [OF s3(2)]) simp_all
  moreover have "unat p + 16 < 18446744073709551616" using p(2) arena.bounds [OF s2(3)] by simp
  ultimately have "set_memory_message s3 p = Inr (memory_message_of v)"
    using s3(6) ram.de_en [of v] by (intro set_memory_message_run) simp_all
  moreover obtain s4 where "arena_destroy s3 t = Inr s4" "regions s4 = regions s"
    using handler_end [OF assms(1,2) s3(2)] s3(5) s2(4) s1(3) by metis
  ultimately show ?thesis
    using assms(3,4) s1(1) s2(1) s3(1) by (simp add: GetMemory_def get_ram_impl_def ram_create_def)
qed

text \<open>C18: a \<open>GetMemory\<close> call in time answers OK with the two numbers of the memory reader and
  returns the address space to the mappings it found.\<close>

theorem get_memory_reply:
  assumes "kernel_ok k" and "k s 8388640 = Some t"
    and "\<not> is_cancelled ctx" and "clock 0 \<le> deadline ctx"
    and "ram_reader_gives ram_read ((unat t, 8388640) # regions s) v"
  shows "\<exists>s'. GetMemory k ram_read ctx clock s resp =
      Inr (OK, resp\<lparr>reply_memory := Some (memory_message_of v)\<rparr>, s') \<and> regions s' = regions s"
  by (rule get_memory_run [where ram_read = ram_read and clock = clock, OF assms])

theorem get_memory_reply_witness:
  "\<exists>s'. GetMemory page_kernel (sys_ram_read page_kernel demo_files) demo_context (\<lambda>_. 0) empty_os empty_reply =
     Inr (OK, empty_reply\<lparr>reply_memory := Some \<lparr>msg_total = 16318480, msg_free = 512000\<rparr>\<rparr>, s') \<and>
     regions s' = []"
proof -
  have ram: "ram_reader_gives (sys_ram_read page_kernel demo_files) ((unat (4096 :: u64), 8388640) # regions empty_os)
      \<lparr>mem_total = 16318480, mem_free = 512000\<rparr>" using demo_ram by simp
  show ?thesis
    using get_memory_reply [OF page_kernel_ok page_kernel_8M _ _ ram, of demo_context "\<lambda>_. 0" empty_reply]
    by (auto simp: memory_message_of_def empty_os_def demo_context_def)
qed

text \<open>A \<open>GetSystemResources\<close> call whose deadline passes while the CPU is read answers late and
  never unmaps its arena: the mapping of more than 8 MiB stays behind, once per such call.\<close>

lemma get_system_resources_leaks:
  assumes "kernel_ok k" and "k s 8388640 = Some t" and "\<not> is_cancelled ctx"
    and "clock 0 \<le> deadline ctx" and "deadline ctx < clock 1"
    and "cpu_read ar fs (Some zero_cpu) = Some (Inr (e, c))"
  shows "\<exists>s'. GetSystemResources k ar fs ram_read ctx clock s resp =
      Some (Inr (DEADLINE_EXCEEDED, resp, s')) \<and> regions s' = (unat t, 8388640) # regions s"
proof -
  obtain s1 where s1: "arena_create k s (MiB 8) = Inr (t, s1)" "arena_ok s1 t"
      "regions s1 = (unat t, 8388640) # regions s" "arena_base s1 t = unat t + 32"
      "arena_top s1 t = unat t + 32" "arena_room s1 t = 8388608"
    by (rule handler_arena [OF assms(1,2)])
  obtain cp mp dp vp s2 s3 s4 s5 where create: "cpu_create s1 t = Inr (cp, s2)" "ram_create s2 t = Inr (mp, s3)"
      "disk_create s3 t = Inr (dp, s4)" "device_create s4 t = Inr (vp, s5)"
    and s5: "unat cp = unat t + 32" "arena_ok s5 t" "regions s5 = regions s1" "arena_base s5 t = unat t + 32"
      "arena_top s5 t = unat t + 32 + 704"
      "\<forall>x. unat t + 32 \<le> x \<and> x < unat t + 32 + 704 \<longrightarrow> mem s5 x = NUL"
    by (rule four_structs [OF s1(2,4,5,6)])
  have "cpu_read_at ar fs s5 cp = Some (Inr (s5\<lparr>mem := mem_write (unat cp) (en_cpu c) (mem s5)\<rparr>))"
    using s5 by (intro cpu_read_at_run [OF s5(2) _ _ _ assms(6)]) (simp_all add: mem_read_zeros)
  then show ?thesis
    using assms(3-5) s1(1,3) create s5(3)
    by (simp add: GetSystemResources_def get_system_resources_impl_def)
qed

text \<open>When the kernel has no memory for the arena, \<open>GetCpu\<close> and \<open>GetSystemResources\<close> do not
  report an error: the creators answer NULL and the CPU reader aborts the agent.\<close>

theorem get_cpu_no_memory:
  assumes "k s 8388640 = None" and "\<not> is_cancelled ctx" and "clock 0 \<le> deadline ctx"
  shows "GetCpu k ar fs ctx clock s resp = Some (Inl Assertion_failed) \<and>
    GetSystemResources k ar fs ram_read ctx clock s resp = Some (Inl Assertion_failed)"
proof -
  have "arena_create k s (MiB 8) = Inr (0, s)" by (rule arena_create_fail) (simp add: assms(1))
  moreover have "arena_alloc s 0 n = Inr (0, s)" for n by (simp add: arena_alloc_def)
  ultimately show ?thesis
    using assms(2,3)
    by (simp add: GetCpu_def get_cpu_impl_def GetSystemResources_def get_system_resources_impl_def
        cpu_create_def ram_create_def disk_create_def device_create_def cpu_read_at_def cpu_read_def)
qed

end
