(* ===== verification/Server.thy ===== *)
theory Server
  imports Service
begin

text \<open>
  The running service: the set-up of the server in \<open>grpc/server/server.cc\<close>, and what happens to the address
  space of the agent over a sequence of calls, whatever the files hold and whenever the deadlines
  pass. The gRPC runtime is not part of the sources: building and starting a server is a parameter.
\<close>

section \<open>Set-up\<close>

datatype credentials = InsecureServerCredentials

record server_config =
  health_check :: bool
  reflection :: bool
  listening :: "(string \<times> credentials) list"
  services :: "string list"

definition empty_config :: server_config where
  "empty_config = \<lparr>health_check = False, reflection = False, listening = [], services = []\<rparr>"

definition AddListeningPort :: "string \<Rightarrow> credentials \<Rightarrow> server_config \<Rightarrow> server_config" where
  "AddListeningPort addr cred c = c\<lparr>listening := listening c @ [(addr, cred)]\<rparr>"

definition RegisterService :: "string \<Rightarrow> server_config \<Rightarrow> server_config" where
  "RegisterService name c = c\<lparr>services := services c @ [name]\<rparr>"

definition setup_config :: server_config where
  "setup_config =
     RegisterService ''resources.v3.ResourcesService''
      (AddListeningPort ''0.0.0.0:5000'' InsecureServerCredentials
       (empty_config\<lparr>health_check := True, reflection := True\<rparr>))"

text \<open>\<open>server->Wait()\<close> serves for ever: the result is the server that runs. It is called on NULL when the
  server could not be started.\<close>

definition grpc_server_setup :: "(server_config \<Rightarrow> 'srv option) \<Rightarrow> 'srv run" where
  "grpc_server_setup BuildAndStart = (case BuildAndStart setup_config of
     None \<Rightarrow> Inl Segfault
   | Some server \<Rightarrow> Inr server)"

text \<open>\<open>main\<close> of \<open>core/core.cc\<close>: it does not get past the server's \<open>Wait\<close>.\<close>

definition core_main :: "(server_config \<Rightarrow> 'srv option) \<Rightarrow> 'srv run" where
  "core_main BuildAndStart = grpc_server_setup BuildAndStart"

text \<open>The agent serves, on every interface and without encryption, exactly when a server can be built for
  that one address; otherwise it crashes.\<close>

theorem core_main_serves:
  "core_main B = (case B setup_config of None \<Rightarrow> Inl Segfault | Some server \<Rightarrow> Inr server)"
  "listening setup_config = [(''0.0.0.0:5000'', InsecureServerCredentials)]"
  "services setup_config = [''resources.v3.ResourcesService'']"
  by (simp_all add: core_main_def grpc_server_setup_def setup_config_def RegisterService_def
      AddListeningPort_def empty_config_def)

section \<open>Calls\<close>

datatype rpc = Rpc_system | Rpc_cpu | Rpc_memory

record rpc_call =
  call_method :: rpc
  call_context :: server_context
  call_clock :: "nat \<Rightarrow> int"
  call_files :: files

definition dispatch ::
  "kernel \<Rightarrow> arch \<Rightarrow> (files \<Rightarrow> ram_reader) \<Rightarrow> rpc_call \<Rightarrow> os \<Rightarrow> (status_code \<times> reply \<times> os) run option" where
  "dispatch k ar ram_read c s = (case call_method c of
     Rpc_system \<Rightarrow> GetSystemResources k ar (call_files c) (ram_read (call_files c)) (call_context c)
       (call_clock c) s empty_reply
   | Rpc_cpu \<Rightarrow> GetCpu k ar (call_files c) (call_context c) (call_clock c) s empty_reply
   | Rpc_memory \<Rightarrow> Some (GetMemory k (ram_read (call_files c)) (call_context c) (call_clock c) s empty_reply))"

text \<open>A history: the calls that returned so far, each with its status, in order.\<close>

inductive served ::
  "kernel \<Rightarrow> arch \<Rightarrow> (files \<Rightarrow> ram_reader) \<Rightarrow> os \<Rightarrow> (rpc_call \<times> status_code) list \<Rightarrow> os \<Rightarrow> bool"
  for k ar ram_read s0 where
  served_start: "served k ar ram_read s0 [] s0"
| served_call: "served k ar ram_read s0 tr s \<Longrightarrow>
    dispatch k ar ram_read c s = Some (Inr (st, rep, s')) \<Longrightarrow>
    served k ar ram_read s0 (tr @ [(c, st)]) s'"

text \<open>A call that was started in time and answered late.\<close>

definition late :: "rpc_call \<times> status_code \<Rightarrow> bool" where
  "late = (\<lambda>(c, st). st = DEADLINE_EXCEEDED \<and> \<not> deadline (call_context c) < call_clock c 0)"

section \<open>What a memory reader may do\<close>

text \<open>No region holds address 0, and every region ends below \<open>2 ^ 64\<close>.\<close>

definition sane :: "os \<Rightarrow> bool" where
  "sane s \<longleftrightarrow> os_ok s \<and> list_all (\<lambda>(b, l). 0 < b) (regions s)"

definition ram_reader_frame :: "ram_reader \<Rightarrow> bool" where
  "ram_reader_frame ram_read \<longleftrightarrow> (\<forall>s m e v s'. sane s \<longrightarrow> ram_read s m = Inr (e, v, s') \<longrightarrow>
     regions s' = regions s \<and>
     (\<forall>(b, l) \<in> set (regions s). \<forall>x. b \<le> x \<and> x < b + l \<longrightarrow> mem s' x = mem s x))"

lemma ram_reader_frameD:
  assumes "ram_reader_frame rr" and "sane s" and "rr s m = Inr (e, v, s')"
  shows "regions s' = regions s"
    and "\<forall>(b, l) \<in> set (regions s). \<forall>x. b \<le> x \<and> x < b + l \<longrightarrow> mem s' x = mem s x"
  using assms unfolding ram_reader_frame_def by blast+

lemma sane_regions: "regions s' = regions s \<Longrightarrow> sane s' \<longleftrightarrow> sane s"
  by (simp add: sane_def os_ok_def)

lemma sane_map:
  assumes "kernel_ok k" and "k s len = Some t" and "sane s" and "regions s' = (unat t, unat len) # regions s"
  shows "sane s'"
  using kernel_okD(1,3) [OF assms(1,2)] assms(3,4) by (simp add: sane_def os_ok_def unat_gt_0)

lemma then_run_Inr: "then_run r f = Some (Inr y) \<longleftrightarrow> (\<exists>x. r = Some (Inr x) \<and> f x = Some (Inr y))"
  by (cases "(r, f)" rule: then_run.cases) auto

lemma null_not_accessible: "sane s \<Longrightarrow> 0 < n \<Longrightarrow> \<not> accessible s 0 n"
  by (auto simp: accessible_def sane_def list_ex_iff list_all_iff)

lemma load64_null: "sane s \<Longrightarrow> load64 s 0 = Inl Segfault"
  by (simp add: load64_def null_not_accessible)

section \<open>The memory reader of the sources is such a reader\<close>

lemma push_slice_frame:
  assumes "arena_ok s t" and "sane s" and "length v < 18446744073709551616"
    and run: "andthen (arena_alloc s t (of_nat (length v))) (\<lambda>(p, s).
      andthen (memcpy s p v) (\<lambda>s. Inr (Some (p, length v), s))) = Inr (b, s')"
  shows "in_arena_only t s s'"
proof (cases "length v \<le> arena_room s t")
  case True
  obtain b1 s1 where s1: "andthen (arena_alloc s t (of_nat (length v))) (\<lambda>(p, s).
      andthen (memcpy s p v) (\<lambda>s. Inr (Some (p, length v), s))) = Inr (b1, s1)"
      "arena_ok s1 t" "regions s1 = regions s" "arena_top s1 t = arena_top s t + length v"
      "arena_room s1 t = arena_room s t - length v"
      "\<forall>x. x < unat t \<or> arena_top s t + arena_room s t \<le> x \<longrightarrow> mem s1 x = mem s x"
    by (rule push_slice [OF assms(1) True])
  then show ?thesis using run True by (simp add: in_arena_only_def)
next
  case False
  obtain p s1 where s1: "arena_alloc s t (of_nat (length v)) = Inr (p, s1)" "memcpy s1 p v = Inr s'"
    using run by (auto simp: andthen_eq_Inr)
  have os: "os_ok s" using assms(2) by (simp add: sane_def)
  have "p = 0" "s1 = s"
    using arena_alloc_cases [OF assms(1) os s1(1)] False assms(3) by (auto simp: unat_of_nat_u64)
  moreover have "0 < length v" using False by (cases v) simp_all
  ultimately show ?thesis using s1(2) null_not_accessible [OF assms(2)] by (simp add: memcpy_def)
qed

lemma meminfo_line_frame:
  assumes "arena_ok s t" and "sane s" and "length buf < 18446744073709551616"
    and run: "meminfo_line s t tot fre buf = Inr (tot', fre', s')"
  shows "in_arena_only t s s'"
proof (cases "meminfo_value buf")
  case None
  then show ?thesis using run in_arena_only_refl [OF assms(1)] by (simp add: meminfo_line_def)
next
  case (Some v)
  have v: "length v < 18446744073709551616" using meminfo_value_length [OF Some] assms(3) by simp
  have step: "in_arena_only t s1 s2" "sane s2" "arena_ok s2 t"
    if "arena_ok s1 t" "sane s1" "(if P then andthen (arena_alloc s1 t (of_nat (length v))) (\<lambda>(p, s).
        andthen (memcpy s p v) (\<lambda>s. Inr (Some (p, length v), s))) else Inr (b, s1)) = Inr (b', s2)" for s1 s2 P b b'
  proof -
    show f: "in_arena_only t s1 s2"
      using that push_slice_frame [OF that(1,2) v] in_arena_only_refl [OF that(1)] by (simp split: if_splits)
    then show "arena_ok s2 t" by (simp add: in_arena_only_def)
    have "regions s2 = regions s1" using f by (simp add: in_arena_only_def)
    from sane_regions [OF this] that(2) show "sane s2" by simp
  qed
  obtain s1 where s1: "(if strn_eq buf ''MemTotal'' 8 then andthen (arena_alloc s t (of_nat (length v))) (\<lambda>(p, s).
        andthen (memcpy s p v) (\<lambda>s. Inr (Some (p, length v), s))) else Inr (tot, s)) = Inr (tot', s1)"
      "(if strn_eq buf ''MemFree'' 7 then andthen (arena_alloc s1 t (of_nat (length v))) (\<lambda>(p, s).
        andthen (memcpy s p v) (\<lambda>s. Inr (Some (p, length v), s))) else Inr (fre, s1)) = Inr (fre', s')"
    using run Some by (auto simp: meminfo_line_def andthen_eq_Inr)
  note k1 = step [OF assms(1,2) s1(1)]
  show ?thesis by (rule in_arena_only_trans [OF k1(1) step(1) [OF k1(3,2) s1(2)]])
qed

lemma meminfo_lines_frame:
  assumes "arena_ok s t" and "sane s" and "\<forall>buf \<in> set bufs. length buf < 18446744073709551616"
    and "meminfo_lines bufs s t tot fre = Inr (tot', fre', s')"
  shows "in_arena_only t s s'"
  using assms
proof (induction bufs arbitrary: s tot fre)
  case Nil
  then show ?case using in_arena_only_refl by simp
next
  case (Cons buf bufs)
  obtain tot1 fre1 s1 where s1: "meminfo_line s t tot fre buf = Inr (tot1, fre1, s1)"
      "meminfo_lines bufs s1 t tot1 fre1 = Inr (tot', fre', s')"
    using Cons.prems(4) by (auto simp: andthen_eq_Inr)
  have len: "length buf < 18446744073709551616" using Cons.prems(3) by simp
  note f = meminfo_line_frame [OF Cons.prems(1,2) len s1(1)]
  then have ok: "arena_ok s1 t" "regions s1 = regions s" by (simp_all add: in_arena_only_def)
  have "sane s1" using sane_regions [OF ok(2)] Cons.prems(2) by simp
  from Cons.IH [OF ok(1) this _ s1(2)] Cons.prems(3) f show ?case using in_arena_only_trans by simp
qed

text \<open>Without memory for the arena nothing is stored.\<close>

lemma meminfo_lines_null:
  assumes "sane s" and "meminfo_lines bufs s 0 tot fre = Inr (tot', fre', s')"
  shows "s' = s"
  using assms
proof (induction bufs arbitrary: tot fre)
  case (Cons buf bufs)
  have "memcpy s 0 v = Inr s1 \<Longrightarrow> s1 = s" for v s1
    using null_not_accessible [OF assms(1)] by (cases v) (auto simp: memcpy_def mem_write_def split: if_splits)
  then have "meminfo_line s 0 tot fre buf = Inr (tot1, fre1, s1) \<Longrightarrow> s1 = s" for tot1 fre1 s1
    by (auto simp: meminfo_line_def arena_alloc_def andthen_eq_Inr split: option.splits if_splits)
  then show ?case using Cons by (auto simp: andthen_eq_Inr)
qed simp

lemma meminfo_lines_null_values:
  assumes "sane s" and "meminfo_lines bufs s 0 tot fre = Inr (tot', fre', s')"
    and "v \<in> set (mem_values ''MemTotal'' bufs)"
  shows "v = []"
  using assms
proof (induction bufs arbitrary: tot fre)
  case (Cons buf bufs)
  obtain tot1 fre1 s1 where s1: "meminfo_line s 0 tot fre buf = Inr (tot1, fre1, s1)"
      "meminfo_lines bufs s1 0 tot1 fre1 = Inr (tot', fre', s')"
    using Cons.prems(2) by (auto simp: andthen_eq_Inr)
  have "meminfo_lines [buf] s 0 tot fre = Inr (tot1, fre1, s1)" using s1(1) by simp
  from meminfo_lines_null [OF Cons.prems(1) this] have eq: "s1 = s" .
  show ?case
  proof (cases "v \<in> set (mem_values ''MemTotal'' bufs)")
    case True
    then show ?thesis using Cons.IH [OF Cons.prems(1)] s1(2) eq by simp
  next
    case False
    then have v: "meminfo_value buf = Some v" "strn_eq buf ''MemTotal'' 8"
      using Cons.prems(3) by (auto simp: mem_values_Cons numeral_eq_Suc split: option.splits if_splits)
    have "memcpy s 0 v \<noteq> Inl Segfault"
      using s1(1) v by (auto simp: meminfo_line_def arena_alloc_def)
    then show ?thesis using null_not_accessible [OF Cons.prems(1)] by (cases v) (auto simp: memcpy_def)
  qed
qed simp

lemma sys_ram_read_frame:
  assumes "kernel_ok k"
  shows "ram_reader_frame (sys_ram_read k fs)"
  unfolding ram_reader_frame_def
proof (intro allI impI)
  fix s m e v s'
  assume sane: "sane s" and run: "sys_ram_read k fs s m = Inr (e, v, s')"
  obtain f t tot fre s0 s1 where f: "fs ''/proc/meminfo'' = Some f"
    and create: "arena_create k s (KiB 8) = Inr (t, s0)"
    and lines: "meminfo_lines (fgets_lines BUFF_SMALL f) s0 t None None = Inr (tot, fre, s1)"
    and destroy: "arena_destroy s1 t = Inr s'"
    using run by (auto simp: sys_ram_read_def andthen_eq_Inr split: option.splits)
  show "regions s' = regions s \<and>
      (\<forall>(b, l) \<in> set (regions s). \<forall>x. b \<le> x \<and> x < b + l \<longrightarrow> mem s' x = mem s x)"
  proof (cases "k s 8224")
    case None
    then have "t = 0" "s0 = s" using create arena_create_fail [of k s "KiB 8"] by simp_all
    then have "s1 = s" using meminfo_lines_null [OF sane] lines by simp
    then show ?thesis using destroy \<open>t = 0\<close> by (auto simp: arena_destroy_def)
  next
    case (Some t')
    obtain s2 where s2: "arena_create k s 8192 = Inr (t', s2)" "arena_ok s2 t'"
        "regions s2 = (unat t', 8224) # regions s"
        "arena_at s2 t' = \<lparr>current_position = 0, previous_position = 0, capacity = 8192, base_position = t' + 32\<rparr>"
        "\<forall>x. x < unat t' \<or> unat t' + 32 + 8192 \<le> x \<longrightarrow> mem s2 x = mem s x"
      using arena_create_run [OF assms, of s 8192 t'] Some by auto
    then have eq: "t = t'" "s0 = s2" using create by simp_all
    have top: "arena_top s2 t + arena_room s2 t = unat t + 8224"
      using s2(4) eq by (simp add: arena_top_def arena_room_def)
    have sane2: "sane s2" using s2(3) by (intro sane_map [OF assms Some sane]) simp
    have "\<forall>buf \<in> set (fgets_lines BUFF_SMALL f). length buf < 18446744073709551616"
      using fgets_lines_length [of _ BUFF_SMALL f] by (force simp: BUFF_SMALL_def)
    note fr = meminfo_lines_frame [OF _ sane2 this lines [unfolded eq(2)]]
    have fr: "arena_ok s1 t" "regions s1 = (unat t, 8224) # regions s"
        "arena_top s1 t + arena_room s1 t = unat t + 8224"
        "\<forall>x. x < unat t \<or> unat t + 8224 \<le> x \<longrightarrow> mem s1 x = mem s x"
      using fr s2(2,3,5) eq top by (simp_all add: in_arena_only_def)
    have ap: "\<forall>(b, l) \<in> set (regions s). apart (unat t) 8224 b l"
      using kernel_okD(4) [OF assms Some] eq by simp
    obtain s3 where "arena_destroy s1 t = Inr s3" "regions s3 = regions s" "mem s3 = mem s1"
      by (rule arena_destroy_last [OF fr(1,2,3) ap])
    then show ?thesis using destroy fr(4) ap by (fastforce simp: apart_def)
  qed
qed

section \<open>Steps of a handler that returns\<close>

lemma cpu_read_at_keeps:
  assumes ok: "arena_ok s t" and p: "arena_base s t \<le> unat p" "unat p + 120 \<le> arena_top s t"
    and run: "cpu_read_at ar fs s p = Some (Inr s')"
  shows "arena_ok s' t" and "arena_base s' t = arena_base s t" and "arena_top s' t = arena_top s t"
    and "regions s' = regions s" and "x < unat p \<or> unat p + 120 \<le> x \<Longrightarrow> mem s' x = mem s x"
    and "\<exists>e c. cpu_read ar fs (Some (de_cpu (mem_read (mem s) (unat p) 120))) = Some (Inr (e, c)) \<and> wf_cpu c \<and>
      mem_read (mem s') (unat p) 120 = en_cpu c"
proof -
  let ?bs = "mem_read (mem s) (unat p) 120"
  have "p \<noteq> 0" using p(1) arena.bounds [OF ok] by auto
  moreover have "load_bytes s p 120 = Inr ?bs" using arena.reach [OF ok p] by (simp add: load_bytes_def)
  ultimately obtain e c where c: "cpu_read ar fs (Some (de_cpu ?bs)) = Some (Inr (e, c))"
      "memcpy s p (en_cpu c) = Inr s'"
    using run unfolding cpu_read_at_def by (auto simp: then_run_Inr)
  have "wf_cpu (de_cpu ?bs)" by (rule cpu.wf_de) simp
  from cpu_read_wf [OF this c(1)] have wf: "wf_cpu c" and len: "length (en_cpu c) = 120"
    by (simp_all add: cpu.length_en)
  then have le: "unat p + length (en_cpu c) \<le> arena_top s t" using p(2) by simp
  define s1 where "s1 = s\<lparr>mem := mem_write (unat p) (en_cpu c) (mem s)\<rparr>"
  note w = arena_memcpy [OF ok p(1) le s1_def]
  have "s' = s1" using c(2) w(1) by simp
  then show "arena_ok s' t" "arena_base s' t = arena_base s t" "arena_top s' t = arena_top s t"
      "regions s' = regions s" "x < unat p \<or> unat p + 120 \<le> x \<Longrightarrow> mem s' x = mem s x"
    using w len by (auto simp: s1_def mem_write_def)
  have "mem_read (mem s1) (unat p) 120 = en_cpu c" using len by (simp add: s1_def mem_simps)
  then show "\<exists>e c. cpu_read ar fs (Some (de_cpu (mem_read (mem s) (unat p) 120))) = Some (Inr (e, c)) \<and>
      wf_cpu c \<and> mem_read (mem s') (unat p) 120 = en_cpu c"
    using c(1) wf \<open>s' = s1\<close> by blast
qed

lemma ram_read_at_keeps:
  assumes ok: "arena_ok s t" "sane s" and p: "arena_base s t \<le> unat p" "unat p + 16 \<le> arena_top s t"
    and rr: "ram_reader_frame rr" and run: "ram_read_at rr s p = Inr s'"
  shows "arena_ok s' t" and "arena_base s' t = arena_base s t" and "arena_top s' t = arena_top s t"
    and "regions s' = regions s"
    and "\<forall>x. arena_base s t \<le> x \<and> x < arena_top s t \<and> (x < unat p \<or> unat p + 16 \<le> x) \<longrightarrow> mem s' x = mem s x"
    and "\<forall>(b, l) \<in> set (regions s). \<forall>x. b \<le> x \<and> x < b + l \<and> (x < unat p \<or> unat p + 16 \<le> x) \<longrightarrow>
      mem s' x = mem s x"
    and "\<exists>m e v s1. rr s (Some m) = Inr (e, v, s1) \<and> mem_read (mem s') (unat p) 16 = en_memory v"
proof -
  have "p \<noteq> 0" using p(1) arena.bounds [OF ok(1)] by auto
  then obtain e v s1 where s1: "rr s (Some (de_memory (mem_read (mem s) (unat p) 16))) = Inr (e, v, s1)"
    using run arena.reach [OF ok(1) p]
    by (auto simp: ram_read_at_def on_struct_def andthen_eq_Inr load_bytes_def)
  obtain s2 where s2: "ram_read_at rr s p = Inr s2" "arena_ok s2 t" "arena_base s2 t = arena_base s t"
      "arena_top s2 t = arena_top s t" "regions s2 = regions s" "mem_read (mem s2) (unat p) 16 = en_memory v"
      "\<forall>x. arena_base s t \<le> x \<and> x < arena_top s t \<and> (x < unat p \<or> unat p + 16 \<le> x) \<longrightarrow> mem s2 x = mem s x"
      "\<forall>(b, l) \<in> set (regions s). \<forall>x. b \<le> x \<and> x < b + l \<and> (x < unat p \<or> unat p + 16 \<le> x) \<longrightarrow>
        mem s2 x = mem s x"
    by (rule ram_read_at_step [where ram_read = rr, OF ok(1) p s1 ram_reader_frameD [OF rr ok(2) s1]]) (rule that)
  have "s' = s2" using run s2(1) by simp
  then show "arena_ok s' t" "arena_base s' t = arena_base s t" "arena_top s' t = arena_top s t"
      "regions s' = regions s"
      "\<forall>x. arena_base s t \<le> x \<and> x < arena_top s t \<and> (x < unat p \<or> unat p + 16 \<le> x) \<longrightarrow> mem s' x = mem s x"
      "\<forall>(b, l) \<in> set (regions s). \<forall>x. b \<le> x \<and> x < b + l \<and> (x < unat p \<or> unat p + 16 \<le> x) \<longrightarrow>
        mem s' x = mem s x"
      "\<exists>m e v s1. rr s (Some m) = Inr (e, v, s1) \<and> mem_read (mem s') (unat p) 16 = en_memory v"
    using s1 s2 by blast+
qed

lemma disk_read_at_keeps:
  assumes ok: "arena_ok s t" and p: "arena_base s t \<le> unat p" "unat p + 24 \<le> arena_top s t"
    and z: "mem_read (mem s) (unat p) 24 = replicate 24 NUL" and m: "moderate s t"
    and run: "disk_read_at fs s p t = Inr s'"
  shows "arena_ok s' t" and "arena_base s' t = arena_base s t" and "arena_top s t \<le> arena_top s' t"
    and "regions s' = regions s" and "in_arena_only t s s'"
    and "\<forall>x. arena_base s t \<le> x \<and> x < arena_top s t \<and> (x < unat p \<or> unat p + 24 \<le> x) \<longrightarrow> mem s' x = mem s x"
proof -
  have "p \<noteq> 0" using p(1) arena.bounds [OF ok] by auto
  then obtain f where f: "fs ''/proc/partitions'' = Some f"
    using run by (cases "fs ''/proc/partitions''")
      (auto simp: disk_read_at_def on_struct_def andthen_eq_Inr disk_read_def)
  obtain s1 where "disk_read_at fs s p t = Inr s1" "arena_ok s1 t" "arena_base s1 t = arena_base s t"
      "arena_top s t \<le> arena_top s1 t" "regions s1 = regions s"
      "\<forall>x. arena_base s t \<le> x \<and> x < arena_top s t \<and> (x < unat p \<or> unat p + 24 \<le> x) \<longrightarrow> mem s1 x = mem s x"
      "in_arena_only t s s1"
    by (rule disk_read_at_run [where fs = fs, OF ok p z f m])
  then show "arena_ok s' t" "arena_base s' t = arena_base s t" "arena_top s t \<le> arena_top s' t"
      "regions s' = regions s" "in_arena_only t s s'"
      "\<forall>x. arena_base s t \<le> x \<and> x < arena_top s t \<and> (x < unat p \<or> unat p + 24 \<le> x) \<longrightarrow> mem s' x = mem s x"
    using run by simp_all
qed

lemma device_read_at_keeps:
  assumes ok: "arena_ok s t" and p: "arena_base s t \<le> unat p" "unat p + 544 \<le> arena_top s t"
    and run: "device_read_at fs s p = Inr s'"
  shows "arena_ok s' t" and "regions s' = regions s" and "arena_base s' t = arena_base s t"
    and "arena_top s' t = arena_top s t" and "\<forall>x. x < unat p \<or> unat p + 544 \<le> x \<longrightarrow> mem s' x = mem s x"
proof -
  let ?bs = "mem_read (mem s) (unat p) 544"
  have "p \<noteq> 0" using p(1) arena.bounds [OF ok] by auto
  moreover have "load_bytes s p 544 = Inr ?bs" using arena.reach [OF ok p] by (simp add: load_bytes_def)
  ultimately obtain e d' s1 d where d: "device_read fs (Some (de_device ?bs)) = Inr (e, d')"
      "(case d' of None \<Rightarrow> Inr (e, de_device ?bs, s) | Some d1 \<Rightarrow> Inr (e, d1, s)) = (Inr (e, d, s) :: (err_code \<times> sys_device \<times> os) run)"
      "memcpy s p (en_device d) = Inr s'"
    using run by (cases "device_read fs (Some (de_device ?bs))")
      (auto simp: device_read_at_def on_struct_def andthen_eq_Inr split: option.splits)
  have "wf_device (de_device ?bs)" by (rule device.wf_de) simp
  then have wf: "wf_device d" using device_read_wf [OF d(1)] d(2) by auto
  then have "unat p + length (en_device d) \<le> arena_top s t" using p(2) by (simp add: device.length_en)
  note w = arena_memcpy [OF ok p(1) this refl]
  show "arena_ok s' t" "regions s' = regions s" "arena_base s' t = arena_base s t" "arena_top s' t = arena_top s t"
      "\<forall>x. x < unat p \<or> unat p + 544 \<le> x \<longrightarrow> mem s' x = mem s x"
    using d(3) w device.length_en [OF wf] by (auto simp: mem_write_def)
qed

section \<open>What a call leaves behind\<close>

text \<open>The mappings after a call: one more when it was late, otherwise the ones it found.\<close>

definition leaves :: "kernel \<Rightarrow> os \<Rightarrow> bool \<Rightarrow> os \<Rightarrow> bool" where
  "leaves k s l s' \<longleftrightarrow> (if l then \<exists>t. k s 8388640 = Some t \<and> regions s' = (unat t, 8388640) # regions s
     else regions s' = regions s)"

lemma leaves_sane:
  assumes "kernel_ok k" and "sane s" and "leaves k s l s'"
  shows "sane s'"
proof (cases l)
  case True
  then obtain t where t: "k s 8388640 = Some t" "regions s' = (unat t, unat (8388640 :: u64)) # regions s"
    using assms(3) by (auto simp: leaves_def)
  show ?thesis by (rule sane_map [OF assms(1) t(1) assms(2) t(2)])
next
  case False
  then have "regions s' = regions s" using assms(3) by (simp add: leaves_def)
  from sane_regions [OF this] assms(2) show ?thesis by simp
qed

text \<open>The four readers of \<open>get_system_resources_impl\<close>, one after the other.\<close>

lemma system_readers_keep:
  assumes s: "arena_ok s t" "sane s" "arena_base s t = B" "arena_top s t = B + 704"
      "\<forall>x. B \<le> x \<and> x < B + 704 \<longrightarrow> mem s x = NUL" "moderate s t"
    and ptr: "unat cp = B" "unat mp = B + 120" "unat dp = B + 136" "unat vp = B + 160"
    and rr: "ram_reader_frame rr" and cpu: "cpu_read_at ar fs s cp = Some (Inr s1)"
  shows "arena_ok s1 t" and "regions s1 = regions s"
    and "ram_read_at rr s1 mp = Inr s2 \<Longrightarrow> arena_ok s2 t \<and> regions s2 = regions s"
    and "ram_read_at rr s1 mp = Inr s2 \<Longrightarrow> disk_read_at fs s2 dp t = Inr s3 \<Longrightarrow>
      arena_ok s3 t \<and> regions s3 = regions s"
    and "ram_read_at rr s1 mp = Inr s2 \<Longrightarrow> disk_read_at fs s2 dp t = Inr s3 \<Longrightarrow>
      device_read_at fs s3 vp = Inr s4 \<Longrightarrow> arena_ok s4 t \<and> regions s4 = regions s"
proof -
  have in1: "arena_base s t \<le> unat cp" "unat cp + 120 \<le> arena_top s t" using s(3,4) ptr by simp_all
  note k1 = cpu_read_at_keeps [where fs = fs, OF s(1) in1 cpu]
  show s1: "arena_ok s1 t" "regions s1 = regions s" by (rule k1(1), rule k1(4))
  have sane1: "sane s1" using sane_regions [OF s1(2)] s(2) by simp
  have in2: "arena_base s1 t \<le> unat mp" "unat mp + 16 \<le> arena_top s1 t" using s(3,4) k1(2,3) ptr by simp_all
  have k2: "arena_ok s2 t \<and> regions s2 = regions s \<and> arena_base s2 t = B \<and> arena_top s2 t = B + 704 \<and>
      mem_read (mem s2) (unat dp) 24 = replicate 24 NUL" if r: "ram_read_at rr s1 mp = Inr s2"
  proof -
    note k2 = ram_read_at_keeps [where rr = rr, OF s1(1) sane1 in2 rr r]
    have "mem s2 x = NUL" if "B + 136 \<le> x" "x < B + 160" for x
      using k2(5) k1(2,3,5) s(3-5) ptr that by simp
    then show ?thesis using k2(1-4) k1(2,3) s1(2) s(3,4) ptr by (auto simp: mem_read_zeros)
  qed
  then show "ram_read_at rr s1 mp = Inr s2 \<Longrightarrow> arena_ok s2 t \<and> regions s2 = regions s" by simp
  have k3: "arena_ok s3 t \<and> regions s3 = regions s \<and> arena_base s3 t = B \<and> B + 704 \<le> arena_top s3 t"
    if r: "ram_read_at rr s1 mp = Inr s2" "disk_read_at fs s2 dp t = Inr s3"
  proof -
    note k2 = k2 [OF r(1)]
    have in3: "arena_base s2 t \<le> unat dp" "unat dp + 24 \<le> arena_top s2 t" using k2 ptr by simp_all
    have m: "moderate s2 t" using moderate_regions [of s2 s t] k2 s(6) by simp
    show ?thesis using disk_read_at_keeps [where fs = fs, OF _ in3 _ m r(2)] k2 by simp
  qed
  then show "ram_read_at rr s1 mp = Inr s2 \<Longrightarrow> disk_read_at fs s2 dp t = Inr s3 \<Longrightarrow>
      arena_ok s3 t \<and> regions s3 = regions s" by simp
  show "arena_ok s4 t \<and> regions s4 = regions s"
    if r: "ram_read_at rr s1 mp = Inr s2" "disk_read_at fs s2 dp t = Inr s3" "device_read_at fs s3 vp = Inr s4"
  proof -
    note k3 = k3 [OF r(1,2)]
    have in4: "arena_base s3 t \<le> unat vp" "unat vp + 544 \<le> arena_top s3 t" using k3 ptr by simp_all
    show ?thesis using device_read_at_keeps [where fs = fs, OF _ in4 r(3)] k3 by simp
  qed
qed

lemma system_call_leaves:
  assumes k: "kernel_ok k" and sane: "sane s" and rr: "ram_reader_frame rr"
    and run: "GetSystemResources k ar fs rr ctx clock s resp = Some (Inr (st, rep, s'))"
  shows "leaves k s (st = DEADLINE_EXCEEDED \<and> \<not> deadline ctx < clock 0) s'"
proof (cases "is_cancelled ctx \<or> deadline ctx < clock 0")
  case True
  then show ?thesis using run
    by (auto simp: GetSystemResources_def get_system_resources_impl_def leaves_def split: if_splits)
next
  case False
  then have go: "\<not> is_cancelled ctx" "clock 0 \<le> deadline ctx" by simp_all
  then obtain t where t: "k s 8388640 = Some t"
    using get_cpu_no_memory [where ram_read = rr] run by (cases "k s 8388640") fastforce+
  obtain s1 where s1: "arena_create k s (MiB 8) = Inr (t, s1)" "arena_ok s1 t"
      "regions s1 = (unat t, 8388640) # regions s" "arena_base s1 t = unat t + 32"
      "arena_top s1 t = unat t + 32" "arena_room s1 t = 8388608"
    by (rule handler_arena [OF k t])
  obtain cp mp dp vp s2 s3 s4 s5 where create: "cpu_create s1 t = Inr (cp, s2)" "ram_create s2 t = Inr (mp, s3)"
      "disk_create s3 t = Inr (dp, s4)" "device_create s4 t = Inr (vp, s5)"
    and ptr: "unat cp = unat t + 32" "unat mp = unat t + 32 + 120" "unat dp = unat t + 32 + 136"
      "unat vp = unat t + 32 + 160"
    and s5: "arena_ok s5 t" "regions s5 = regions s1" "arena_base s5 t = unat t + 32"
      "arena_top s5 t = unat t + 32 + 704" "arena_room s5 t = 8387904"
      "\<forall>x. unat t + 32 \<le> x \<and> x < unat t + 32 + 704 \<longrightarrow> mem s5 x = NUL"
    by (rule four_structs [OF s1(2,4,5,6)])
  have rs: "regions s5 = (unat t, 8388640) # regions s" using s5(2) s1(3) by simp
  have m5: "moderate s5 t" by (rule handler_moderate [OF k t rs])
  have sane5: "sane s5" using rs by (intro sane_map [OF k t sane]) simp
  obtain s6 where s6: "cpu_read_at ar fs s5 cp = Some (Inr s6)"
    using run go s1(1) create
    by (auto simp: GetSystemResources_def get_system_resources_impl_def then_run_Inr)
  note keep = system_readers_keep [where rr = rr and fs = fs, OF s5(1) sane5 s5(3,4,6) m5 ptr rr s6]
  have late: ?thesis if "st = DEADLINE_EXCEEDED" "regions s' = regions s5"
    using that go t rs by (simp add: leaves_def)
  have over: ?thesis if o: "st = OK" "arena_destroy s9 t = Inr s'" "arena_ok s9 t" "regions s9 = regions s5" for s9
  proof -
    have rs9: "regions s9 = (unat t, 8388640) # regions s" using o(4) rs by simp
    obtain s10 where "arena_destroy s9 t = Inr s10" "regions s10 = regions s"
      by (rule handler_end [OF k t o(3) rs9])
    then show ?thesis using o(1,2) by (simp add: leaves_def)
  qed
  have "(st = DEADLINE_EXCEEDED \<and> s' = s6) \<or> (\<exists>s7. ram_read_at rr s6 mp = Inr s7 \<and>
      ((st = DEADLINE_EXCEEDED \<and> s' = s7) \<or> (\<exists>s8. disk_read_at fs s7 dp t = Inr s8 \<and>
      ((st = DEADLINE_EXCEEDED \<and> s' = s8) \<or> (\<exists>s9. device_read_at fs s8 vp = Inr s9 \<and>
      ((st = DEADLINE_EXCEEDED \<and> s' = s9) \<or> (st = OK \<and> arena_destroy s9 t = Inr s')))))))"
    using run go s1(1) create s6
    unfolding GetSystemResources_def get_system_resources_impl_def
    by (simp add: then_run_Inr split: if_split_asm) blast+
  then show ?thesis
    using keep late over by metis
qed

lemma cpu_call_leaves:
  assumes k: "kernel_ok k" and run: "GetCpu k ar fs ctx clock s resp = Some (Inr (st, rep, s'))"
  shows "regions s' = regions s" and "st \<noteq> DEADLINE_EXCEEDED \<or> deadline ctx < clock 0"
proof -
  have "regions s' = regions s \<and> (st \<noteq> DEADLINE_EXCEEDED \<or> deadline ctx < clock 0)"
  proof (cases "is_cancelled ctx \<or> deadline ctx < clock 0")
    case True
    then show ?thesis using run by (auto simp: GetCpu_def get_cpu_impl_def split: if_splits)
  next
    case False
    then have go: "\<not> is_cancelled ctx" "clock 0 \<le> deadline ctx" by simp_all
    then obtain t where t: "k s 8388640 = Some t"
      using get_cpu_no_memory run by (cases "k s 8388640") fastforce+
    obtain s1 where s1: "arena_create k s (MiB 8) = Inr (t, s1)" "arena_ok s1 t"
        "regions s1 = (unat t, 8388640) # regions s" "arena_base s1 t = unat t + 32"
        "arena_top s1 t = unat t + 32" "arena_room s1 t = 8388608"
      by (rule handler_arena [OF k t])
    have n: "unat sizeof_sys_cpu = 120" "120 \<le> arena_room s1 t" by (simp_all add: sizeof_sys_cpu_def s1)
    obtain p s2 where s2: "arena_alloc s1 t sizeof_sys_cpu = Inr (p, s2)" "unat p = arena_top s1 t"
        "arena_ok s2 t" "regions s2 = regions s1" "arena_base s2 t = arena_base s1 t"
        "arena_top s2 t = arena_top s1 t + 120"
      by (rule new_struct [OF s1(2) n])
    have p: "arena_base s2 t \<le> unat p" "unat p + 120 \<le> arena_top s2 t" using s2 s1 by simp_all
    obtain s3 where s3: "cpu_read_at ar fs s2 p = Some (Inr s3)" "st = OK" "arena_destroy s3 t = Inr s'"
      using run go s1(1) s2(1) unfolding GetCpu_def get_cpu_impl_def cpu_create_def
      by (auto simp: then_run_Inr)
    note keep = cpu_read_at_keeps [where fs = fs, OF s2(3) p s3(1)]
    have "regions s3 = (unat t, 8388640) # regions s" using keep(4) s2(4) s1(3) by simp
    then obtain s4 where "arena_destroy s3 t = Inr s4" "regions s4 = regions s"
      by (rule handler_end [OF k t keep(1)])
    then show ?thesis using s3(2,3) by simp
  qed
  then show "regions s' = regions s" "st \<noteq> DEADLINE_EXCEEDED \<or> deadline ctx < clock 0" by simp_all
qed

lemma memory_call_leaves:
  assumes k: "kernel_ok k" and sane: "sane s" and rr: "ram_reader_frame rr"
    and run: "GetMemory k rr ctx clock s resp = Inr (st, rep, s')"
  shows "regions s' = regions s" and "st \<noteq> DEADLINE_EXCEEDED \<or> deadline ctx < clock 0"
proof -
  have "regions s' = regions s \<and> (st \<noteq> DEADLINE_EXCEEDED \<or> deadline ctx < clock 0)"
  proof (cases "is_cancelled ctx \<or> deadline ctx < clock 0")
    case True
    then show ?thesis using run by (auto simp: GetMemory_def get_ram_impl_def split: if_splits)
  next
    case False
    show ?thesis
    proof (cases "k s 8388640")
      case None
      then have "arena_create k s (MiB 8) = Inr (0, s)" by (intro arena_create_fail) simp
      moreover have "arena_alloc s 0 n = Inr (0, s)" for n by (simp add: arena_alloc_def)
      ultimately obtain e v s3 mm where s3: "rr s None = Inr (e, v, s3)" "set_memory_message s3 0 = Inr mm"
        using run False unfolding GetMemory_def get_ram_impl_def ram_create_def ram_read_at_def
        by (auto simp: andthen_eq_Inr)
      have "sane s3" using sane_regions [OF ram_reader_frameD(1) [OF rr sane s3(1)]] sane by simp
      then show ?thesis using s3(2) by (simp add: set_memory_message_def load64_null)
    next
      case (Some t)
      obtain s1 where s1: "arena_create k s (MiB 8) = Inr (t, s1)" "arena_ok s1 t"
          "regions s1 = (unat t, 8388640) # regions s" "arena_base s1 t = unat t + 32"
          "arena_top s1 t = unat t + 32" "arena_room s1 t = 8388608"
        by (rule handler_arena [OF k Some])
      have n: "unat sizeof_sys_memory = 16" "16 \<le> arena_room s1 t" by (simp_all add: sizeof_sys_memory_def s1)
      obtain p s2 where s2: "arena_alloc s1 t sizeof_sys_memory = Inr (p, s2)" "unat p = arena_top s1 t"
          "arena_ok s2 t" "regions s2 = regions s1" "arena_base s2 t = arena_base s1 t"
          "arena_top s2 t = arena_top s1 t + 16"
        by (rule new_struct [OF s1(2) n])
      have p: "arena_base s2 t \<le> unat p" "unat p + 16 \<le> arena_top s2 t" using s2 s1 by simp_all
      obtain s3 where s3: "ram_read_at rr s2 p = Inr s3" "st = OK" "arena_destroy s3 t = Inr s'"
        using run False s1(1) s2(1) unfolding GetMemory_def get_ram_impl_def ram_create_def
        by (auto simp: andthen_eq_Inr)
      have sane2: "sane s2" using s2(4) s1(3) by (intro sane_map [OF k Some sane]) simp
      note keep = ram_read_at_keeps [where rr = rr, OF s2(3) sane2 p rr s3(1)]
      have "regions s3 = (unat t, 8388640) # regions s" using keep(4) s2(4) s1(3) by simp
      then obtain s4 where "arena_destroy s3 t = Inr s4" "regions s4 = regions s"
        by (rule handler_end [OF k Some keep(1)])
      then show ?thesis using s3(2,3) by simp
    qed
  qed
  then show "regions s' = regions s" "st \<noteq> DEADLINE_EXCEEDED \<or> deadline ctx < clock 0" by simp_all
qed

text \<open>Whatever the call: only a late \<open>GetSystemResources\<close> leaves a mapping behind.\<close>

definition leaks :: "rpc_call \<times> status_code \<Rightarrow> bool" where
  "leaks = (\<lambda>(c, st). call_method c = Rpc_system \<and> late (c, st))"

lemma dispatch_leaves:
  assumes "kernel_ok k" and "sane s" and "\<forall>fs. ram_reader_frame (rr fs)"
    and run: "dispatch k ar rr c s = Some (Inr (st, rep, s'))"
  shows "leaves k s (leaks (c, st)) s'"
proof (cases "call_method c")
  case Rpc_system
  then show ?thesis
    using run system_call_leaves [OF assms(1,2), of "rr (call_files c)"] assms(3)
    by (simp add: dispatch_def leaks_def late_def)
next
  case Rpc_cpu
  then show ?thesis
    using run cpu_call_leaves [OF assms(1)] by (simp add: dispatch_def leaks_def leaves_def)
next
  case Rpc_memory
  then have "GetMemory k (rr (call_files c)) (call_context c) (call_clock c) s empty_reply = Inr (st, rep, s')"
    using run by (simp add: dispatch_def)
  from memory_call_leaves(1) [OF assms(1,2) _ this] assms(3) Rpc_memory show ?thesis
    by (simp add: leaks_def leaves_def)
qed

section \<open>Properties\<close>

text \<open>C2: over any history of calls, on any files and with deadlines passing at any time: the address
  space holds the mappings the agent started with and one more of 8 MiB and a header for every
  \<open>GetSystemResources\<close> call that was answered late, and nothing else.\<close>

theorem service_regions:
  assumes "kernel_ok k" and "\<forall>fs. ram_reader_frame (rr fs)" and "sane s0"
    and "served k ar rr s0 tr s"
  shows "sane s \<and> (\<exists>kept. regions s = kept @ regions s0 \<and> map snd kept = replicate (length (filter leaks tr)) 8388640)"
  using assms(4)
proof induction
  case (served_call tr s c st rep s')
  then obtain kept where "sane s" and kept: "regions s = kept @ regions s0"
      "map snd kept = replicate (length (filter leaks tr)) 8388640" by blast
  note l = dispatch_leaves [OF assms(1) \<open>sane s\<close> assms(2) served_call(2)]
  have "sane s'" by (rule leaves_sane [OF assms(1) \<open>sane s\<close> l])
  moreover have "\<exists>kept. regions s' = kept @ regions s0 \<and>
      map snd kept = replicate (length (filter leaks (tr @ [(c, st)]))) 8388640"
  proof (cases "leaks (c, st)")
    case True
    then obtain t :: u64 where "regions s' = ((unat t, 8388640) # kept) @ regions s0"
      using l kept(1) unfolding leaves_def append_Cons by (simp only: if_True) blast
    moreover have "map snd ((unat t, 8388640) # kept) = replicate (length (filter leaks (tr @ [(c, st)]))) 8388640"
      using kept(2) True by simp
    ultimately show ?thesis by blast
  next
    case False
    then show ?thesis using l kept by (auto simp: leaves_def)
  qed
  ultimately show ?case by blast
qed (simp add: assms(3))

text \<open>Two late calls, one after the other.\<close>

definition demo_late_call :: rpc_call where
  "demo_late_call = \<lparr>call_method = Rpc_system, call_context = demo_context,
     call_clock = (\<lambda>i. 90 + 20 * int i), call_files = demo_files\<rparr>"

lemma demo_late_step:
  assumes "page_kernel s 8388640 = Some t"
  obtains s' where "dispatch page_kernel X86_64 (sys_ram_read page_kernel) demo_late_call s =
      Some (Inr (DEADLINE_EXCEEDED, empty_reply, s'))" and "regions s' = (unat t, 8388640) # regions s"
proof -
  have "\<not> is_cancelled demo_context" "90 + 20 * int 0 \<le> deadline demo_context"
      "deadline demo_context < 90 + 20 * int 1" by (simp_all add: demo_context_def)
  from get_system_resources_leaks [where fs = demo_files, OF page_kernel_ok assms this demo_cpu_read]
  show ?thesis using that by (auto simp: dispatch_def demo_late_call_def)
qed

theorem service_regions_witness:
  "\<exists>s kept. served page_kernel X86_64 (sys_ram_read page_kernel) empty_os
      [(demo_late_call, DEADLINE_EXCEEDED), (demo_late_call, DEADLINE_EXCEEDED)] s \<and>
    sane s \<and> regions s = kept \<and> map snd kept = [8388640, 8388640]"
proof -
  let ?served = "served page_kernel X86_64 (sys_ram_read page_kernel) empty_os"
  obtain s1 where s1: "dispatch page_kernel X86_64 (sys_ram_read page_kernel) demo_late_call empty_os =
      Some (Inr (DEADLINE_EXCEEDED, empty_reply, s1))" "regions s1 = (unat (4096 :: u64), 8388640) # regions empty_os"
    by (rule demo_late_step [OF page_kernel_8M])
  then obtain t where "page_kernel s1 8388640 = Some t"
    by (auto simp: page_kernel_def end_of_regions_def empty_os_def Let_def)
  then obtain s2 where s2: "dispatch page_kernel X86_64 (sys_ram_read page_kernel) demo_late_call s1 =
      Some (Inr (DEADLINE_EXCEEDED, empty_reply, s2))"
    by (rule demo_late_step)
  have "?served ([] @ [(demo_late_call, DEADLINE_EXCEEDED)]) s1" by (rule served_call [OF served_start s1(1)])
  from served_call [OF this s2] have tr: "?served [(demo_late_call, DEADLINE_EXCEEDED), (demo_late_call, DEADLINE_EXCEEDED)] s2"
    by simp
  have "leaks (demo_late_call, DEADLINE_EXCEEDED)"
    by (simp add: leaks_def late_def demo_late_call_def demo_context_def)
  then have n: "length (filter leaks [(demo_late_call, DEADLINE_EXCEEDED), (demo_late_call, DEADLINE_EXCEEDED)]) = Suc (Suc 0)"
    by simp
  have os: "sane empty_os" by (simp add: sane_def os_ok_def empty_os_def)
  have rr: "\<forall>fs. ram_reader_frame (sys_ram_read page_kernel fs)"
    by (simp add: sys_ram_read_frame [OF page_kernel_ok])
  note inv = service_regions [OF page_kernel_ok rr os tr, unfolded n replicate.simps]
  obtain kept where kept: "regions s2 = kept @ regions empty_os" "map snd kept = [8388640, 8388640]"
    using conjunct2 [OF inv] by (elim exE conjE)
  show ?thesis
    by (rule exI [of _ s2], rule exI [of _ kept]) (use tr inv kept in \<open>simp add: empty_os_def\<close>)
qed

end
