(* ===== verification/Shared_Space.thy ===== *)
theory Shared_Space
  imports Server
begin

text \<open>
  Threads that share an address space, each with at most one mapping of its own. A thread works inside its
  mapping, maps it, unmaps it or abandons it. What a thread knows of its mapping then survives the
  steps of all others (\<open>interleave_safe\<close>); this is proved once, for any such threads.
\<close>

section \<open>The regions of an address space\<close>

definition in_region :: "nat \<times> nat \<Rightarrow> nat \<Rightarrow> bool" where
  "in_region r x \<longleftrightarrow> fst r \<le> x \<and> x < fst r + snd r"

definition apart_regions :: "nat \<times> nat \<Rightarrow> nat \<times> nat \<Rightarrow> bool" where
  "apart_regions r q \<longleftrightarrow> apart (fst r) (snd r) (fst q) (snd q)"

definition tidy :: "os \<Rightarrow> bool" where
  "tidy s \<longleftrightarrow> sane s \<and> sorted_wrt apart_regions (regions s) \<and> (\<forall>r \<in> set (regions s). 0 < snd r)"

text \<open>What one step of a thread does to the address space, when it had the mapping \<open>r\<close> before and has \<open>r'\<close> after:
  only its own mapping is written, and only its own mapping comes or goes.\<close>

definition moves :: "(nat \<times> nat) option \<Rightarrow> (nat \<times> nat) option \<Rightarrow> os \<Rightarrow> os \<Rightarrow> bool" where
  "moves r r' s s' \<longleftrightarrow>
     (\<forall>q \<in> set (regions s). r \<noteq> Some q \<longrightarrow> (\<forall>x. in_region q x \<longrightarrow> mem s' x = mem s x)) \<and>
     (case r' of
        Some q \<Rightarrow> r' = r \<and> regions s' = regions s \<or>
          r = None \<and> regions s' = q # regions s \<and> 0 < fst q \<and> 0 < snd q \<and>
          fst q + snd q < 18446744073709551616 \<and> (\<forall>p \<in> set (regions s). apart_regions q p)
      | None \<Rightarrow> regions s' = regions s \<or> (\<exists>q. r = Some q \<and> regions s' = remove1 q (regions s)))"

lemma apart_regions_sym: "apart_regions r q \<longleftrightarrow> apart_regions q r"
  by (auto simp: apart_regions_def apart_def)

lemma apart_not_same: "apart_regions q q \<Longrightarrow> 0 < snd q \<Longrightarrow> False"
  by (simp add: apart_regions_def apart_def)

lemma tidy_distinct: "tidy s \<Longrightarrow> distinct (regions s)"
proof -
  have "distinct rs" if "sorted_wrt apart_regions rs" "\<forall>r \<in> set rs. 0 < snd r" for rs
    using that apart_not_same by (induction rs) auto
  then show "tidy s \<Longrightarrow> distinct (regions s)" by (simp add: tidy_def)
qed

lemma sorted_wrt_remove1: "sorted_wrt P xs \<Longrightarrow> sorted_wrt P (remove1 x xs)"
  by (induction xs) (auto dest: notin_set_remove1)

lemma sane_alt: "sane s \<longleftrightarrow> (\<forall>r \<in> set (regions s). 0 < fst r \<and> fst r + snd r < 18446744073709551616)"
  by (auto simp: sane_def os_ok_def list_all_iff)

lemma moves_tidy:
  assumes "tidy s" and "moves r r' s s'"
  shows "tidy s'"
proof -
  have "regions s' = regions s \<or> (\<exists>q. regions s' = remove1 q (regions s)) \<or>
      (\<exists>q. regions s' = q # regions s \<and> 0 < fst q \<and> 0 < snd q \<and>
        fst q + snd q < 18446744073709551616 \<and> (\<forall>p \<in> set (regions s). apart_regions q p))"
    using assms(2) by (auto simp: moves_def split: option.splits)
  then show ?thesis
    using assms(1) by (auto simp: tidy_def sane_alt sorted_wrt_remove1 dest: notin_set_remove1)
qed

lemma moves_keeps:
  assumes "moves r r' s s'" and "q \<in> set (regions s)" and "r \<noteq> Some q"
  shows "q \<in> set (regions s')" and "in_region q x \<Longrightarrow> mem s' x = mem s x"
proof -
  have "regions s' = regions s \<or> (\<exists>p. regions s' = p # regions s) \<or>
      (\<exists>p. r = Some p \<and> regions s' = remove1 p (regions s))"
    using assms(1) unfolding moves_def by (cases r') (simp_all only: option.case, blast+)
  then show "q \<in> set (regions s')"
    using assms(2,3) by (elim disjE exE conjE) (simp_all add: in_set_remove1)
  show "in_region q x \<Longrightarrow> mem s' x = mem s x"
    using assms unfolding moves_def by blast
qed

lemma moves_mapped:
  assumes "moves r (Some q) s s'" and "r = Some q \<Longrightarrow> q \<in> set (regions s)"
  shows "q \<in> set (regions s')" and "r = Some q \<or> q \<notin> set (regions s)"
proof -
  have "Some q = r \<and> regions s' = regions s \<or>
      r = None \<and> regions s' = q # regions s \<and> 0 < snd q \<and> (\<forall>p \<in> set (regions s). apart_regions q p)"
    using assms(1) unfolding moves_def option.case by blast
  then show "q \<in> set (regions s')" "r = Some q \<or> q \<notin> set (regions s)"
    using assms(2) apart_not_same [of q] by auto
qed

lemma tidy_apart:
  assumes "tidy s" and "r \<in> set (regions s)" and "q \<in> set (regions s)" and "r \<noteq> q"
  shows "apart_regions r q"
proof -
  have "sorted_wrt apart_regions rs \<Longrightarrow> r \<in> set rs \<Longrightarrow> q \<in> set rs \<Longrightarrow> apart_regions r q" for rs
    using assms(4) by (induction rs) (auto simp: apart_regions_sym)
  then show ?thesis using assms(1-3) unfolding tidy_def by blast
qed

text \<open>Only bytes of one region changed, among those of any region.\<close>

definition inside :: "nat \<times> nat \<Rightarrow> os \<Rightarrow> os \<Rightarrow> bool" where
  "inside r s s' \<longleftrightarrow> regions s' = regions s \<and>
     (\<forall>q \<in> set (regions s). \<forall>x. in_region q x \<longrightarrow> \<not> in_region r x \<longrightarrow> mem s' x = mem s x)"

lemma inside_moves:
  assumes "tidy s" and "r \<in> set (regions s)" and "inside r s s'" and "r' = Some r \<or> r' = None"
  shows "moves (Some r) r' s s'"
proof -
  have "mem s' x = mem s x" if "q \<in> set (regions s)" "r \<noteq> q" "in_region q x" for q x
  proof -
    have "\<not> in_region r x"
      using tidy_apart [OF assms(1,2) that(1,2)] that(3) by (auto simp: apart_regions_def apart_def in_region_def)
    then show ?thesis using assms(3) that(1,3) by (simp add: inside_def)
  qed
  then show ?thesis using assms(3,4) unfolding moves_def inside_def by (auto split: option.splits)
qed

lemma tidy_regions: "regions s' = regions s \<Longrightarrow> tidy s' \<longleftrightarrow> tidy s"
  using sane_regions [of s' s] by (simp add: tidy_def)

section \<open>Threads\<close>

text \<open>Any thread may take the next step; \<open>step\<close> depends on the thread's parameters and its local state.\<close>

inductive interleave ::
  "('c \<Rightarrow> 'l \<Rightarrow> os \<Rightarrow> ('l \<times> os) run option) \<Rightarrow> 'c list \<Rightarrow> 'l \<Rightarrow> os \<Rightarrow> 'l list \<Rightarrow> os \<Rightarrow> bool"
  for step cs l0 s0 where
  interleave_start: "interleave step cs l0 s0 (replicate (length cs) l0) s0"
| interleave_step: "interleave step cs l0 s0 ls s \<Longrightarrow> i < length cs \<Longrightarrow>
    step (cs ! i) (ls ! i) s = Some (Inr (l', s')) \<Longrightarrow>
    interleave step cs l0 s0 (ls[i := l']) s'"

lemma interleave_length: "interleave step cs l0 s0 ls s \<Longrightarrow> length ls = length cs"
  by (induction rule: interleave.induct) simp_all

text \<open>The threads get on with each other: each one's facts hold, no two have the same mapping, and what was
  mapped before they started is as it was.\<close>

definition together ::
  "('l \<Rightarrow> (nat \<times> nat) option) \<Rightarrow> ('c \<Rightarrow> 'l \<Rightarrow> os \<Rightarrow> bool) \<Rightarrow> 'c list \<Rightarrow> os \<Rightarrow> 'l list \<Rightarrow> os \<Rightarrow> bool" where
  "together mapping knows cs s0 ls s \<longleftrightarrow> tidy s \<and>
     (\<forall>i < length cs. knows (cs ! i) (ls ! i) s \<and>
        (\<forall>r. mapping (ls ! i) = Some r \<longrightarrow> r \<in> set (regions s) \<and> r \<notin> set (regions s0))) \<and>
     (\<forall>i < length cs. \<forall>j < length cs. i \<noteq> j \<longrightarrow> mapping (ls ! i) \<noteq> None \<longrightarrow> mapping (ls ! i) \<noteq> mapping (ls ! j)) \<and>
     (\<forall>r \<in> set (regions s0). r \<in> set (regions s) \<and> (\<forall>x. in_region r x \<longrightarrow> mem s x = mem s0 x))"

locale private_mappings =
  fixes step :: "'c \<Rightarrow> 'l \<Rightarrow> os \<Rightarrow> ('l \<times> os) run option"
    and mapping :: "'l \<Rightarrow> (nat \<times> nat) option"
    and knows :: "'c \<Rightarrow> 'l \<Rightarrow> os \<Rightarrow> bool"
    and first :: "'l"
  assumes first: "knows c first s" "mapping first = None"
    and stable: "knows c l s \<Longrightarrow>
      (\<And>r. mapping l = Some r \<Longrightarrow> r \<in> set (regions s') \<and> (\<forall>x. in_region r x \<longrightarrow> mem s' x = mem s x)) \<Longrightarrow>
      knows c l s'"
    and confined: "knows c l s \<Longrightarrow> tidy s \<Longrightarrow> (\<And>r. mapping l = Some r \<Longrightarrow> r \<in> set (regions s)) \<Longrightarrow>
      step c l s = Some (Inr (l', s')) \<Longrightarrow> knows c l' s' \<and> moves (mapping l) (mapping l') s s'"
begin

lemma together_step:
  assumes t: "together mapping knows cs s0 ls s" and len: "length ls = length cs" and i: "i < length cs"
    and step: "step (cs ! i) (ls ! i) s = Some (Inr (l', s'))"
  shows "together mapping knows cs s0 (ls[i := l']) s'"
proof -
  have tidy: "tidy s" and own: "\<And>j r. j < length cs \<Longrightarrow> mapping (ls ! j) = Some r \<Longrightarrow>
      r \<in> set (regions s) \<and> r \<notin> set (regions s0)"
    and knows: "\<And>j. j < length cs \<Longrightarrow> knows (cs ! j) (ls ! j) s"
    and dist: "\<And>j k. j < length cs \<Longrightarrow> k < length cs \<Longrightarrow> j \<noteq> k \<Longrightarrow> mapping (ls ! j) \<noteq> None \<Longrightarrow>
      mapping (ls ! j) \<noteq> mapping (ls ! k)"
    and old: "\<And>r. r \<in> set (regions s0) \<Longrightarrow> r \<in> set (regions s) \<and> (\<forall>x. in_region r x \<longrightarrow> mem s x = mem s0 x)"
    using t unfolding together_def by blast+
  have c: "knows (cs ! i) l' s'" and m: "moves (mapping (ls ! i)) (mapping l') s s'"
    using confined [OF knows [OF i] tidy _ step] own [OF i] by blast+
  have others: "r \<in> set (regions s') \<and> (\<forall>x. in_region r x \<longrightarrow> mem s' x = mem s x)"
    if "j < length cs" "j \<noteq> i" "mapping (ls ! j) = Some r" for j r
    using moves_keeps [OF m, of r] own [OF that(1,3)] dist [OF that(1) i that(2)] that(3) by auto
  have new: "q \<in> set (regions s') \<and> q \<notin> set (regions s0) \<and> (mapping (ls ! i) = Some q \<or> q \<notin> set (regions s))"
    if "mapping l' = Some q" for q
    using moves_mapped [OF m [unfolded that]] own [OF i] old by blast
  have "knows (cs ! j) (ls[i := l'] ! j) s' \<and> (\<forall>r. mapping (ls[i := l'] ! j) = Some r \<longrightarrow>
      r \<in> set (regions s') \<and> r \<notin> set (regions s0))" if j: "j < length cs" for j
  proof (cases "j = i")
    case True
    then show ?thesis using c new i len by simp
  next
    case False
    then show ?thesis using stable [OF knows [OF j] others [OF j False]] others [OF j False] own [OF j] by simp
  qed
  moreover have "mapping (ls[i := l'] ! j) \<noteq> mapping (ls[i := l'] ! k)"
    if "j < length cs" "k < length cs" "j \<noteq> k" "mapping (ls[i := l'] ! j) \<noteq> None" for j k
    using that dist new own i len by (auto simp: nth_list_update split: if_splits) (metis)+
  moreover have "r \<in> set (regions s') \<and> (\<forall>x. in_region r x \<longrightarrow> mem s' x = mem s0 x)"
    if "r \<in> set (regions s0)" for r
  proof -
    have "r \<in> set (regions s)" "mapping (ls ! i) \<noteq> Some r" using old own [OF i] that by blast+
    from moves_keeps [OF m this] old [OF that] show ?thesis by simp
  qed
  ultimately show ?thesis using moves_tidy [OF tidy m] unfolding together_def by blast
qed

theorem interleave_safe:
  assumes "interleave step cs first s0 ls s" and "tidy s0"
  shows "together mapping knows cs s0 ls s"
  using assms(1)
proof induction
  case interleave_start
  show ?case using assms(2) first by (simp add: together_def)
next
  case (interleave_step ls s i l' s')
  then show ?case using together_step interleave_length by metis
qed

end

end
