(* ===== verification/Call_Steps.thy ===== *)
theory Call_Steps
  imports Server
begin

text \<open>
  Calls in flight at the same time. The gRPC runtime runs every call on a thread of its own, and the
  handlers share the address space; each call works in the arena it mapped. A call is cut into the
  steps between which other calls can run: the checks, mapping the arena, creating the
  structures, each reader, copying to the reply, unmapping. Run one after the other they are the handler.
\<close>

section \<open>A call in steps\<close>

record call_ptrs =
  arena_ptr :: u64
  cpu_ptr :: u64
  memory_ptr :: u64
  disk_ptr :: u64
  device_ptr :: u64

datatype stage =
    Called
  | Mapped u64
  | Created call_ptrs
  | Cpu_done call_ptrs
  | Memory_done call_ptrs
  | Disk_done call_ptrs
  | Device_done call_ptrs
  | Copied u64 "cpu_message option" "memory_message option"
  | Answered status_code reply

definition start_step :: "kernel \<Rightarrow> rpc_call \<Rightarrow> os \<Rightarrow> (stage \<times> os) run" where
  "start_step k c s =
     (if is_cancelled (call_context c) then Inr (Answered CANCELLED empty_reply, s)
      else if deadline (call_context c) < call_clock c 0 then Inr (Answered DEADLINE_EXCEEDED empty_reply, s)
      else andthen (arena_create k s (MiB 8)) (\<lambda>(t, s). Inr (Mapped t, s)))"

definition create_step :: "rpc \<Rightarrow> u64 \<Rightarrow> os \<Rightarrow> (stage \<times> os) run" where
  "create_step m t s = (case m of
     Rpc_system \<Rightarrow>
       andthen (cpu_create s t) (\<lambda>(c, s). andthen (ram_create s t) (\<lambda>(m, s).
       andthen (disk_create s t) (\<lambda>(d, s). andthen (device_create s t) (\<lambda>(v, s).
       Inr (Created \<lparr>arena_ptr = t, cpu_ptr = c, memory_ptr = m, disk_ptr = d, device_ptr = v\<rparr>, s)))))
   | Rpc_cpu \<Rightarrow> andthen (cpu_create s t) (\<lambda>(c, s).
       Inr (Created \<lparr>arena_ptr = t, cpu_ptr = c, memory_ptr = 0, disk_ptr = 0, device_ptr = 0\<rparr>, s))
   | Rpc_memory \<Rightarrow> andthen (ram_create s t) (\<lambda>(m, s).
       Inr (Created \<lparr>arena_ptr = t, cpu_ptr = 0, memory_ptr = m, disk_ptr = 0, device_ptr = 0\<rparr>, s)))"

text \<open>After a reader, \<open>get_system_resources_impl\<close> looks at the clock.\<close>

definition timely :: "rpc_call \<Rightarrow> nat \<Rightarrow> stage \<Rightarrow> os \<Rightarrow> stage \<times> os" where
  "timely c i l s =
     (if deadline (call_context c) < call_clock c i then (Answered DEADLINE_EXCEEDED empty_reply, s) else (l, s))"

fun call_step ::
  "kernel \<Rightarrow> arch \<Rightarrow> (files \<Rightarrow> ram_reader) \<Rightarrow> rpc_call \<Rightarrow> stage \<Rightarrow> os \<Rightarrow> (stage \<times> os) run option" where
  "call_step k ar rr c Called s = Some (start_step k c s)"
| "call_step k ar rr c (Mapped t) s = Some (create_step (call_method c) t s)"
| "call_step k ar rr c (Created p) s = (case call_method c of
     Rpc_system \<Rightarrow> then_run (cpu_read_at ar (call_files c) s (cpu_ptr p)) (\<lambda>s. Some (Inr (timely c 1 (Cpu_done p) s)))
   | Rpc_cpu \<Rightarrow> then_run (cpu_read_at ar (call_files c) s (cpu_ptr p)) (\<lambda>s. Some (Inr (Cpu_done p, s)))
   | Rpc_memory \<Rightarrow> then_run (Some (ram_read_at (rr (call_files c)) s (memory_ptr p)))
       (\<lambda>s. Some (Inr (Memory_done p, s))))"
| "call_step k ar rr c (Cpu_done p) s =
     (if call_method c = Rpc_system
      then then_run (Some (ram_read_at (rr (call_files c)) s (memory_ptr p)))
        (\<lambda>s. Some (Inr (timely c 2 (Memory_done p) s)))
      else then_run (Some (set_cpu_message s (cpu_ptr p)))
        (\<lambda>cm. Some (Inr (Copied (arena_ptr p) (Some cm) None, s))))"
| "call_step k ar rr c (Memory_done p) s =
     (if call_method c = Rpc_system
      then then_run (Some (disk_read_at (call_files c) s (disk_ptr p) (arena_ptr p)))
        (\<lambda>s. Some (Inr (timely c 3 (Disk_done p) s)))
      else then_run (Some (set_memory_message s (memory_ptr p)))
        (\<lambda>mm. Some (Inr (Copied (arena_ptr p) None (Some mm), s))))"
| "call_step k ar rr c (Disk_done p) s =
     then_run (Some (device_read_at (call_files c) s (device_ptr p)))
       (\<lambda>s. Some (Inr (timely c 4 (Device_done p) s)))"
| "call_step k ar rr c (Device_done p) s =
     then_run (Some (set_cpu_message s (cpu_ptr p))) (\<lambda>cm.
     then_run (Some (set_memory_message s (memory_ptr p))) (\<lambda>mm.
     Some (Inr (Copied (arena_ptr p) (Some cm) (Some mm), s))))"
| "call_step k ar rr c (Copied t cm mm) s =
     then_run (Some (arena_destroy s t))
       (\<lambda>s. Some (Inr (Answered OK \<lparr>reply_cpu = cm, reply_memory = mm\<rparr>, s)))"
| "call_step k ar rr c (Answered st rep) s = Some (Inr (Answered st rep, s))"

text \<open>A call that runs alone, for at most \<open>n\<close> steps.\<close>

fun run_call ::
  "kernel \<Rightarrow> arch \<Rightarrow> (files \<Rightarrow> ram_reader) \<Rightarrow> rpc_call \<Rightarrow> nat \<Rightarrow> stage \<Rightarrow> os \<Rightarrow>
   (status_code \<times> reply \<times> os) run option" where
  "run_call k ar rr c n (Answered st rep) s = Some (Inr (st, rep, s))"
| "run_call k ar rr c 0 l s = None"
| "run_call k ar rr c (Suc n) l s =
     then_run (call_step k ar rr c l s) (\<lambda>(l, s). run_call k ar rr c n l s)"

section \<open>The steps are the handler\<close>

lemma then_run_assoc: "then_run (then_run r f) g = then_run r (\<lambda>x. then_run (f x) g)"
  by (cases "(r, f)" rule: then_run.cases) simp_all

lemma then_run_andthen: "then_run (Some (andthen r f)) g = then_run (Some r) (\<lambda>x. then_run (Some (f x)) g)"
  by (cases r) simp_all

lemma then_run_pair: "then_run (Some (case x of (a, b) \<Rightarrow> f a b)) g = (case x of (a, b) \<Rightarrow> then_run (Some (f a b)) g)"
  by (cases x) simp

lemma Some_andthen: "Some (andthen r f) = then_run (Some r) (\<lambda>x. Some (f x))"
  by (cases r) simp_all

lemma run_timely:
  "run_call k ar rr c n (fst (timely c i l s)) (snd (timely c i l s)) =
    (if deadline (call_context c) < call_clock c i then Some (Inr (DEADLINE_EXCEEDED, empty_reply, s))
     else run_call k ar rr c n l s)"
  by (simp add: timely_def)

lemmas run_steps = then_run_assoc then_run_andthen then_run_pair run_timely case_prod_beta'

lemma empty_reply_fields: "empty_reply = \<lparr>reply_cpu = None, reply_memory = None\<rparr>"
  by (simp add: empty_reply_def)

text \<open>Nothing is lost by the cut: the steps of a call, run one after the other, are the service method.\<close>

lemma handler_steps:
  "run_call k ar rr c 8 Called s = dispatch k ar rr c s"
proof -
  have n: "8 = Suc (Suc (Suc (Suc (Suc (Suc (Suc (Suc 0)))))))" by simp
  show ?thesis
  proof (cases "call_method c")
    case Rpc_system
    then show ?thesis unfolding n
      by (simp add: dispatch_def GetSystemResources_def get_system_resources_impl_def start_step_def
          create_step_def run_steps empty_reply_fields cong: if_cong)
  next
    case Rpc_cpu
    then show ?thesis unfolding n
      by (simp add: dispatch_def GetCpu_def get_cpu_impl_def start_step_def create_step_def run_steps
          empty_reply_fields)
  next
    case Rpc_memory
    then show ?thesis unfolding n
      by (simp add: dispatch_def GetMemory_def get_ram_impl_def start_step_def create_step_def run_steps
          Some_andthen empty_reply_fields)
  qed
qed

end
