(* ===== verification/Interleave.thy ===== *)
theory Interleave
  imports Shared_Space Call_Steps
begin

text \<open>
  What a call knows of its own arena at each of its steps, that the steps of others cannot disturb it, and that
  a step stays inside the arena: calls are threads with private mappings, the interface of \<open>Shared_Space\<close>.
\<close>

section \<open>What a call knows of its arena\<close>

definition arena_region :: "u64 \<Rightarrow> (nat \<times> nat) option" where
  "arena_region t = (if t = 0 then None else Some (unat t, 8388640))"

fun stage_mapping :: "stage \<Rightarrow> (nat \<times> nat) option" where
  "stage_mapping (Mapped t) = arena_region t"
| "stage_mapping (Created p) = arena_region (arena_ptr p)"
| "stage_mapping (Cpu_done p) = arena_region (arena_ptr p)"
| "stage_mapping (Memory_done p) = arena_region (arena_ptr p)"
| "stage_mapping (Disk_done p) = arena_region (arena_ptr p)"
| "stage_mapping (Device_done p) = arena_region (arena_ptr p)"
| "stage_mapping (Copied t cm mm) = arena_region t"
| "stage_mapping _ = None"

text \<open>An arena of a handler with at least \<open>n\<close> bytes handed out.\<close>

definition own :: "os \<Rightarrow> u64 \<Rightarrow> nat \<Rightarrow> bool" where
  "own s t n \<longleftrightarrow> arena_ok s t \<and> unat (capacity (arena_at s t)) = 8388608 \<and> unat t + 32 + n \<le> arena_top s t"

definition structs_size :: "rpc \<Rightarrow> nat" where
  "structs_size m = (case m of Rpc_system \<Rightarrow> 704 | Rpc_cpu \<Rightarrow> 120 | Rpc_memory \<Rightarrow> 16)"

definition placed :: "rpc \<Rightarrow> call_ptrs \<Rightarrow> bool" where
  "placed m p \<longleftrightarrow> (case m of
     Rpc_system \<Rightarrow> unat (cpu_ptr p) = unat (arena_ptr p) + 32 \<and> unat (memory_ptr p) = unat (arena_ptr p) + 152 \<and>
       unat (disk_ptr p) = unat (arena_ptr p) + 168 \<and> unat (device_ptr p) = unat (arena_ptr p) + 192
   | Rpc_cpu \<Rightarrow> unat (cpu_ptr p) = unat (arena_ptr p) + 32
   | Rpc_memory \<Rightarrow> unat (memory_ptr p) = unat (arena_ptr p) + 32)"

definition in_place :: "rpc_call \<Rightarrow> call_ptrs \<Rightarrow> os \<Rightarrow> bool" where
  "in_place c p s \<longleftrightarrow> placed (call_method c) p \<and> own s (arena_ptr p) (structs_size (call_method c))"

definition zeros :: "os \<Rightarrow> nat \<Rightarrow> nat \<Rightarrow> bool" where
  "zeros s a b \<longleftrightarrow> (\<forall>x. a \<le> x \<and> x < b \<longrightarrow> mem s x = NUL)"

text \<open>The block of the CPU holds what the CPU reader makes of a zeroed structure; the block of the memory what
  the memory reader answered.\<close>

definition cpu_there :: "arch \<Rightarrow> rpc_call \<Rightarrow> call_ptrs \<Rightarrow> os \<Rightarrow> bool" where
  "cpu_there ar c p s \<longleftrightarrow> (\<exists>e v. cpu_read ar (call_files c) (Some zero_cpu) = Some (Inr (e, v)) \<and> wf_cpu v \<and>
     mem_read (mem s) (unat (cpu_ptr p)) 120 = en_cpu v)"

definition memory_there :: "(files \<Rightarrow> ram_reader) \<Rightarrow> rpc_call \<Rightarrow> call_ptrs \<Rightarrow> os \<Rightarrow> bool" where
  "memory_there rr c p s \<longleftrightarrow> (\<exists>s0 m e v s1. sane s0 \<and> rr (call_files c) s0 (Some m) = Inr (e, v, s1) \<and>
     mem_read (mem s) (unat (memory_ptr p)) 16 = en_memory v)"

text \<open>The same for the messages, and so for the answer.\<close>

definition right_cpu :: "arch \<Rightarrow> rpc_call \<Rightarrow> cpu_message option \<Rightarrow> bool" where
  "right_cpu ar c cm \<longleftrightarrow> (\<exists>e v. cpu_read ar (call_files c) (Some zero_cpu) = Some (Inr (e, v)) \<and>
     (cpu_strings_end v \<longrightarrow> cm = Some (cpu_message_of v)))"

definition right_memory :: "(files \<Rightarrow> ram_reader) \<Rightarrow> rpc_call \<Rightarrow> memory_message option \<Rightarrow> bool" where
  "right_memory rr c mm \<longleftrightarrow> (\<exists>s0 m e v s1. sane s0 \<and> rr (call_files c) s0 (Some m) = Inr (e, v, s1) \<and>
     mm = Some (memory_message_of v))"

definition right_answer ::
  "arch \<Rightarrow> (files \<Rightarrow> ram_reader) \<Rightarrow> rpc_call \<Rightarrow> cpu_message option \<Rightarrow> memory_message option \<Rightarrow> bool" where
  "right_answer ar rr c cm mm \<longleftrightarrow>
     (if call_method c = Rpc_memory then cm = None else right_cpu ar c cm) \<and>
     (if call_method c = Rpc_cpu then mm = None else right_memory rr c mm)"

text \<open>A call whose arena could not be mapped goes on with NULL pointers.\<close>

fun call_knows :: "arch \<Rightarrow> (files \<Rightarrow> ram_reader) \<Rightarrow> rpc_call \<Rightarrow> stage \<Rightarrow> os \<Rightarrow> bool" where
  "call_knows ar rr c Called s = True"
| "call_knows ar rr c (Mapped t) s = (t = 0 \<or> own s t 0 \<and> arena_top s t = unat t + 32)"
| "call_knows ar rr c (Created p) s =
     (arena_ptr p = 0 \<and> cpu_ptr p = 0 \<and> memory_ptr p = 0 \<or>
      in_place c p s \<and>
      zeros s (unat (arena_ptr p) + 32) (unat (arena_ptr p) + 32 + structs_size (call_method c)))"
| "call_knows ar rr c (Cpu_done p) s =
     (in_place c p s \<and>
      call_method c \<noteq> Rpc_memory \<and> cpu_there ar c p s \<and>
      (call_method c = Rpc_system \<longrightarrow> zeros s (unat (arena_ptr p) + 152) (unat (arena_ptr p) + 736)))"
| "call_knows ar rr c (Memory_done p) s =
     (call_method c = Rpc_memory \<and> arena_ptr p = 0 \<and> memory_ptr p = 0 \<or>
      in_place c p s \<and>
      call_method c \<noteq> Rpc_cpu \<and> memory_there rr c p s \<and>
      (call_method c = Rpc_system \<longrightarrow> cpu_there ar c p s \<and>
         zeros s (unat (arena_ptr p) + 168) (unat (arena_ptr p) + 736)))"
| "call_knows ar rr c (Disk_done p) s =
     (in_place c p s \<and>
      call_method c = Rpc_system \<and> cpu_there ar c p s \<and> memory_there rr c p s)"
| "call_knows ar rr c (Device_done p) s =
     (in_place c p s \<and>
      call_method c = Rpc_system \<and> cpu_there ar c p s \<and> memory_there rr c p s)"
| "call_knows ar rr c (Copied t cm mm) s = (own s t 0 \<and> right_answer ar rr c cm mm)"
| "call_knows ar rr c (Answered st rep) s =
     (if st = OK then right_answer ar rr c (reply_cpu rep) (reply_memory rep) else rep = empty_reply)"

section \<open>Facts that others cannot disturb\<close>

text \<open>The bytes of a handler's arena are the same in two states.\<close>

definition same_arena :: "u64 \<Rightarrow> os \<Rightarrow> os \<Rightarrow> bool" where
  "same_arena t s s' \<longleftrightarrow> (unat t, 8388640) \<in> set (regions s') \<and>
     (\<forall>x. unat t \<le> x \<and> x < unat t + 8388640 \<longrightarrow> mem s' x = mem s x)"

lemma own_top: "own s t n \<Longrightarrow> unat t + 32 + n \<le> unat t + 8388640"
  using arena_cur_le [of s t] by (simp add: own_def arena_top_def)

lemma own_stable: 
  assumes "own s t n" and "same_arena t s s'"
  shows "own s' t n" and "arena_top s' t = arena_top s t"
proof -
  have "mem_read (mem s') (unat t + k) 8 = mem_read (mem s) (unat t + k) 8" if "k + 8 \<le> 32" for k
    using that assms(2) by (intro mem_read_cong) (auto simp: same_arena_def)
  from this [of 0] this [of 8] this [of 16] this [of 24]
  have eq: "arena_at s' t = arena_at s t" by (simp add: arena_at_def get64_def)
  then show "arena_top s' t = arena_top s t" by (simp add: arena_top_def)
  then show "own s' t n" using assms by (simp add: own_def arena_ok_def eq same_arena_def)
qed

lemma zeros_stable: "zeros s a b \<Longrightarrow> same_arena t s s' \<Longrightarrow> unat t \<le> a \<Longrightarrow> b \<le> unat t + 8388640 \<Longrightarrow> zeros s' a b"
  by (simp add: zeros_def same_arena_def)

lemma block_stable:
  "same_arena t s s' \<Longrightarrow> unat t \<le> a \<Longrightarrow> a + n \<le> unat t + 8388640 \<Longrightarrow> mem_read (mem s') a n = mem_read (mem s) a n"
  by (intro mem_read_cong) (simp add: same_arena_def)

lemma cpu_there_stable:
  "cpu_there ar c p s \<Longrightarrow> same_arena t s s' \<Longrightarrow> unat t \<le> unat (cpu_ptr p) \<Longrightarrow>
   unat (cpu_ptr p) + 120 \<le> unat t + 8388640 \<Longrightarrow> cpu_there ar c p s'"
  using block_stable [of t s s' "unat (cpu_ptr p)" 120] by (simp add: cpu_there_def)

lemma memory_there_stable:
  "memory_there rr c p s \<Longrightarrow> same_arena t s s' \<Longrightarrow> unat t \<le> unat (memory_ptr p) \<Longrightarrow>
   unat (memory_ptr p) + 16 \<le> unat t + 8388640 \<Longrightarrow> memory_there rr c p s'"
  using block_stable [of t s s' "unat (memory_ptr p)" 16] by (simp add: memory_there_def)

lemma own_nonzero: "own s t n \<Longrightarrow> t \<noteq> 0"
  by (simp add: own_def arena_ok_def)

lemma in_place_cpu:
  "in_place c p s \<Longrightarrow> call_method c \<noteq> Rpc_memory \<Longrightarrow>
   unat (arena_ptr p) + 32 = unat (cpu_ptr p) \<and> unat (cpu_ptr p) + 120 \<le> unat (arena_ptr p) + 32 + structs_size (call_method c)"
  by (cases "call_method c") (simp_all add: in_place_def placed_def structs_size_def)

lemma in_place_memory:
  "in_place c p s \<Longrightarrow> call_method c \<noteq> Rpc_cpu \<Longrightarrow>
   unat (arena_ptr p) + 32 \<le> unat (memory_ptr p) \<and> unat (memory_ptr p) + 16 \<le> unat (arena_ptr p) + 32 + structs_size (call_method c)"
  by (cases "call_method c") (simp_all add: in_place_def placed_def structs_size_def)

lemma in_place_top:
  "in_place c p s \<Longrightarrow> unat (arena_ptr p) + 32 + structs_size (call_method c) \<le> unat (arena_ptr p) + 8388640"
  unfolding in_place_def by (blast intro: own_top)

lemma in_place_stable:
  assumes "in_place c p s" and "same_arena (arena_ptr p) s s'"
  shows "in_place c p s'"
    and "call_method c \<noteq> Rpc_memory \<Longrightarrow> cpu_there ar c p s \<Longrightarrow> cpu_there ar c p s'"
    and "call_method c \<noteq> Rpc_cpu \<Longrightarrow> memory_there rr c p s \<Longrightarrow> memory_there rr c p s'"
    and "zeros s a b \<Longrightarrow> unat (arena_ptr p) \<le> a \<Longrightarrow> b \<le> unat (arena_ptr p) + 32 + structs_size (call_method c) \<Longrightarrow>
      zeros s' a b"
  using assms in_place_cpu [OF assms(1)] in_place_memory [OF assms(1)] in_place_top [OF assms(1)]
    cpu_there_stable [OF _ assms(2)] memory_there_stable [OF _ assms(2)] own_stable(1) [OF _ assms(2)]
    zeros_stable [OF _ assms(2)]
  by (simp_all add: in_place_def)

lemma call_knows_stable:
  assumes "call_knows ar rr c l s"
    and "\<And>r. stage_mapping l = Some r \<Longrightarrow>
      r \<in> set (regions s') \<and> (\<forall>x. in_region r x \<longrightarrow> mem s' x = mem s x)"
  shows "call_knows ar rr c l s'"
proof -
  have same: "same_arena t s s'" if "stage_mapping l = arena_region t" "own s t n" for t n
    using assms(2) [of "(unat t, 8388640)"] that own_nonzero [OF that(2)]
    by (simp add: arena_region_def same_arena_def in_region_def)
  have same_p: "same_arena (arena_ptr p) s s'" if "stage_mapping l = arena_region (arena_ptr p)" "in_place c p s" for p
    using same [OF that(1)] that(2) unfolding in_place_def by blast
  show ?thesis
  proof (cases l)
    case (Mapped t)
    then show ?thesis using assms(1) own_stable [OF _ same] by auto
  next
    case (Created p)
    then show ?thesis using assms(1) in_place_stable [OF _ same_p] by auto
  next
    case (Cpu_done p)
    then show ?thesis using assms(1) in_place_stable [OF _ same_p] by (auto simp: structs_size_def)
  next
    case (Memory_done p)
    then show ?thesis using assms(1) in_place_stable [OF _ same_p] by (auto simp: structs_size_def)
  next
    case (Disk_done p)
    then show ?thesis using assms(1) in_place_stable [OF _ same_p] by auto
  next
    case (Device_done p)
    then show ?thesis using assms(1) in_place_stable [OF _ same_p] by auto
  next
    case (Copied t cm mm)
    then show ?thesis using assms(1) own_stable [OF _ same] by auto
  qed (use assms(1) in simp_all)
qed

section \<open>The steps of a call\<close>

text \<open>The mapping of a handler's arena decides its capacity.\<close>

lemma ownI:
  assumes "tidy s" and "(unat t, 8388640) \<in> set (regions s)" and "arena_ok s t"
    and "unat t + 32 + n \<le> arena_top s t"
  shows "own s t n"
proof -
  have r: "(unat t, unat (capacity (arena_at s t)) + 32) \<in> set (regions s)" using assms(3) by (simp add: arena_ok_def)
  have "(unat t, unat (capacity (arena_at s t)) + 32) = (unat t, 8388640)"
    using tidy_apart [OF assms(1) r assms(2)] by (auto simp: apart_regions_def apart_def)
  then show ?thesis using assms(3,4) by (simp add: own_def)
qed

lemma own_moderate: "tidy s \<Longrightarrow> own s t n \<Longrightarrow> moderate s t"
proof -
  assume t: "tidy s" and o: "own s t n"
  then have r: "(unat t, 8388640) \<in> set (regions s)" by (auto simp: own_def arena_ok_def)
  have "l \<le> 2305843009213693952" if "(unat t, l) \<in> set (regions s)" for l
    using tidy_apart [OF t r that] by (cases "l = 8388640") (auto simp: apart_regions_def apart_def)
  then show "moderate s t" by (auto simp: moderate_def list_all_iff)
qed

lemma own_room: "own s t n \<Longrightarrow> arena_top s t + arena_room s t = unat t + 8388640"
  using arena_capacity [of s t] arena.bounds [of s t] by (simp add: own_def arena_base_def)

lemma in_arena_only_inside:
  assumes "own s t n" and "in_arena_only t s s'"
  shows "inside (unat t, 8388640) s s'"
  using assms(2) own_room [OF assms(1)] by (auto simp: inside_def in_arena_only_def in_region_def)

text \<open>A call between two steps, with its structures in its arena.\<close>

definition at_work :: "rpc_call \<Rightarrow> call_ptrs \<Rightarrow> os \<Rightarrow> bool" where
  "at_work c p s \<longleftrightarrow> tidy s \<and> in_place c p s \<and> (unat (arena_ptr p), 8388640) \<in> set (regions s)"

lemma at_workD:
  assumes "at_work c p s"
  shows "tidy s" and "sane s" and "in_place c p s" and "(unat (arena_ptr p), 8388640) \<in> set (regions s)"
    and "arena_ok s (arena_ptr p)" and "own s (arena_ptr p) (structs_size (call_method c))"
    and "unat (arena_ptr p) + 32 + structs_size (call_method c) \<le> arena_top s (arena_ptr p)"
    and "arena_top s (arena_ptr p) \<le> unat (arena_ptr p) + 8388640" and "placed (call_method c) p"
    and "arena_ptr p \<noteq> 0"
proof -
  have o: "own s (arena_ptr p) (structs_size (call_method c))" using assms by (simp add: at_work_def in_place_def)
  then show "arena_top s (arena_ptr p) \<le> unat (arena_ptr p) + 8388640" using own_room [OF o] by simp
  show "tidy s" "sane s" "in_place c p s" "(unat (arena_ptr p), 8388640) \<in> set (regions s)"
      "placed (call_method c) p" using assms by (simp_all add: at_work_def tidy_def in_place_def)
  show "arena_ok s (arena_ptr p)" "own s (arena_ptr p) (structs_size (call_method c))"
      "unat (arena_ptr p) + 32 + structs_size (call_method c) \<le> arena_top s (arena_ptr p)" "arena_ptr p \<noteq> 0"
    using o own_nonzero by (auto simp: own_def)
qed

lemma at_work_next:
  assumes "at_work c p s" and "regions s' = regions s" and "arena_ok s' (arena_ptr p)"
    and "arena_top s (arena_ptr p) \<le> arena_top s' (arena_ptr p)"
  shows "at_work c p s'" and "in_place c p s'"
proof -
  have t: "tidy s'" using at_workD(1) [OF assms(1)] tidy_regions [OF assms(2)] by simp
  have r: "(unat (arena_ptr p), 8388640) \<in> set (regions s')" using at_workD(4) [OF assms(1)] assms(2) by simp
  have "unat (arena_ptr p) + 32 + structs_size (call_method c) \<le> arena_top s' (arena_ptr p)"
    using at_workD(7) [OF assms(1)] assms(4) by simp
  then have "own s' (arena_ptr p) (structs_size (call_method c))" by (rule ownI [OF t r assms(3)])
  then show "at_work c p s'" "in_place c p s'"
    using t r at_workD(9) [OF assms(1)] by (simp_all add: at_work_def in_place_def)
qed

lemma cpu_stage:
  assumes w: "at_work c p s" and m: "call_method c \<noteq> Rpc_memory"
    and z: "zeros s (unat (arena_ptr p) + 32) (unat (arena_ptr p) + 32 + structs_size (call_method c))"
    and run: "cpu_read_at ar (call_files c) s (cpu_ptr p) = Some (Inr s')"
  shows "at_work c p s'" and "in_place c p s'" and "cpu_there ar c p s'" and "inside (unat (arena_ptr p), 8388640) s s'"
    and "zeros s' (unat (cpu_ptr p) + 120) (unat (arena_ptr p) + 32 + structs_size (call_method c))"
proof -
  note W = at_workD [OF w] and P = in_place_cpu [OF at_workD(3) [OF w] m]
  have in_arena: "arena_base s (arena_ptr p) \<le> unat (cpu_ptr p)" "unat (cpu_ptr p) + 120 \<le> arena_top s (arena_ptr p)"
    using P W(7) by (simp_all add: arena_base_def)
  note k = cpu_read_at_keeps [where fs = "call_files c", OF W(5) in_arena run]
  show "at_work c p s'" "in_place c p s'" using at_work_next [OF w k(4,1)] k(3) by simp_all
  have "mem_read (mem s) (unat (cpu_ptr p)) 120 = replicate 120 NUL"
    using z P by (simp add: mem_read_zeros zeros_def)
  then show "cpu_there ar c p s'" using k(6) by (auto simp: cpu_there_def de_zero(1))
  show "inside (unat (arena_ptr p), 8388640) s s'"
    using k(4,5) in_arena W(8) by (force simp: inside_def in_region_def arena_base_def)
  show "zeros s' (unat (cpu_ptr p) + 120) (unat (arena_ptr p) + 32 + structs_size (call_method c))"
    using z k(5) P by (simp add: zeros_def)
qed

lemma memory_stage:
  assumes w: "at_work c p s" and m: "call_method c \<noteq> Rpc_cpu" and rr: "ram_reader_frame (rr (call_files c))"
    and run: "ram_read_at (rr (call_files c)) s (memory_ptr p) = Inr s'"
  shows "at_work c p s'" and "in_place c p s'" and "memory_there rr c p s'"
    and "inside (unat (arena_ptr p), 8388640) s s'"
    and "x < unat (memory_ptr p) \<or> unat (memory_ptr p) + 16 \<le> x \<Longrightarrow> unat (arena_ptr p) \<le> x \<Longrightarrow>
      x < unat (arena_ptr p) + 8388640 \<Longrightarrow> mem s' x = mem s x"
proof -
  note W = at_workD [OF w] and P = in_place_memory [OF at_workD(3) [OF w] m]
  have in_arena: "arena_base s (arena_ptr p) \<le> unat (memory_ptr p)"
      "unat (memory_ptr p) + 16 \<le> arena_top s (arena_ptr p)"
    using P W(7) by (simp_all add: arena_base_def)
  note k = ram_read_at_keeps [where rr = "rr (call_files c)", OF W(5,2) in_arena rr run]
  show "at_work c p s'" "in_place c p s'" using at_work_next [OF w k(4,1)] k(3) by simp_all
  have same: "mem s' x = mem s x"
    if "q \<in> set (regions s)" "in_region q x" "x < unat (memory_ptr p) \<or> unat (memory_ptr p) + 16 \<le> x" for q x
    using k(6) that by (force simp: in_region_def)
  show "inside (unat (arena_ptr p), 8388640) s s'"
    using k(4) same in_arena W(8) by (auto simp: inside_def in_region_def arena_base_def)
  show "x < unat (memory_ptr p) \<or> unat (memory_ptr p) + 16 \<le> x \<Longrightarrow> unat (arena_ptr p) \<le> x \<Longrightarrow>
      x < unat (arena_ptr p) + 8388640 \<Longrightarrow> mem s' x = mem s x"
    using same [OF W(4)] by (simp add: in_region_def)
  show "memory_there rr c p s'" using k(7) W(2) unfolding memory_there_def by blast
qed

lemma disk_stage:
  assumes w: "at_work c p s" and m: "call_method c = Rpc_system"
    and z: "zeros s (unat (arena_ptr p) + 168) (unat (arena_ptr p) + 736)"
    and run: "disk_read_at (call_files c) s (disk_ptr p) (arena_ptr p) = Inr s'"
  shows "at_work c p s'" and "in_place c p s'" and "inside (unat (arena_ptr p), 8388640) s s'"
    and "unat (arena_ptr p) + 32 \<le> x \<Longrightarrow> x < unat (arena_ptr p) + 168 \<Longrightarrow> mem s' x = mem s x"
proof -
  note W = at_workD [OF w]
  have ptr: "unat (disk_ptr p) = unat (arena_ptr p) + 168" and n: "structs_size (call_method c) = 704"
    using W(9) m by (simp_all add: placed_def structs_size_def)
  have in_arena: "arena_base s (arena_ptr p) \<le> unat (disk_ptr p)" "unat (disk_ptr p) + 24 \<le> arena_top s (arena_ptr p)"
    using ptr n W(7) by (simp_all add: arena_base_def)
  have zd: "mem_read (mem s) (unat (disk_ptr p)) 24 = replicate 24 NUL"
    using z ptr by (simp add: mem_read_zeros zeros_def)
  note k = disk_read_at_keeps [where fs = "call_files c", OF W(5) in_arena zd own_moderate [OF W(1,6)] run]
  show "at_work c p s'" "in_place c p s'" using at_work_next [OF w k(4,1,3)] by simp_all
  show "inside (unat (arena_ptr p), 8388640) s s'" by (rule in_arena_only_inside [OF W(6) k(5)])
  show "unat (arena_ptr p) + 32 \<le> x \<Longrightarrow> x < unat (arena_ptr p) + 168 \<Longrightarrow> mem s' x = mem s x"
    using k(6) ptr in_arena by (simp add: arena_base_def)
qed

lemma device_stage:
  assumes w: "at_work c p s" and m: "call_method c = Rpc_system"
    and run: "device_read_at (call_files c) s (device_ptr p) = Inr s'"
  shows "at_work c p s'" and "in_place c p s'" and "inside (unat (arena_ptr p), 8388640) s s'"
    and "x < unat (arena_ptr p) + 192 \<Longrightarrow> mem s' x = mem s x"
proof -
  note W = at_workD [OF w]
  have ptr: "unat (device_ptr p) = unat (arena_ptr p) + 192" and n: "structs_size (call_method c) = 704"
    using W(9) m by (simp_all add: placed_def structs_size_def)
  have in_arena: "arena_base s (arena_ptr p) \<le> unat (device_ptr p)"
      "unat (device_ptr p) + 544 \<le> arena_top s (arena_ptr p)"
    using ptr n W(7) by (simp_all add: arena_base_def)
  note k = device_read_at_keeps [where fs = "call_files c", OF W(5) in_arena run]
  show "at_work c p s'" "in_place c p s'" using at_work_next [OF w k(2,1)] k(4) by simp_all
  show "inside (unat (arena_ptr p), 8388640) s s'"
    using k(2,5) ptr in_arena W(8) by (force simp: inside_def in_region_def)
  show "x < unat (arena_ptr p) + 192 \<Longrightarrow> mem s' x = mem s x" using k(5) ptr by simp
qed

lemma moves_refl: "moves r r s s"
  by (auto simp: moves_def split: option.splits)

lemma stage_moves:
  assumes "at_work c p s" and "inside (unat (arena_ptr p), 8388640) s s'"
    and "r' = arena_region (arena_ptr p) \<or> r' = None"
  shows "moves (arena_region (arena_ptr p)) r' s s'"
  using inside_moves [OF at_workD(1,4) [OF assms(1)] assms(2)] assms(3) at_workD(10) [OF assms(1)]
  by (auto simp: arena_region_def)

lemma timely_cases:
  assumes "timely c i l s1 = (l', s')" and "call_knows ar rr c l s1"
  shows "s' = s1" and "call_knows ar rr c l' s1" and "stage_mapping l' = stage_mapping l \<or> stage_mapping l' = None"
  using assms by (auto simp: timely_def split: if_splits)

lemma start_confined:
  assumes k: "kernel_ok k" and run: "start_step k c s = Inr (l', s')"
  shows "call_knows ar rr c l' s'" and "moves None (stage_mapping l') s s'"
proof -
  have "call_knows ar rr c l' s' \<and> moves None (stage_mapping l') s s'"
  proof (cases "is_cancelled (call_context c) \<or> deadline (call_context c) < call_clock c 0")
    case True
    then show ?thesis using run moves_refl by (auto simp: start_step_def split: if_splits)
  next
    case False
    then obtain t where create: "arena_create k s (MiB 8) = Inr (t, s')" and l': "l' = Mapped t"
      using run by (auto simp: start_step_def andthen_eq_Inr)
    show ?thesis
    proof (cases "k s 8388640")
      case None
      then have "arena_create k s (MiB 8) = Inr (0, s)" by (intro arena_create_fail) simp
      then show ?thesis using create l' moves_refl by (simp add: arena_region_def)
    next
      case (Some t')
      obtain s1 where s1: "arena_create k s 8388608 = Inr (t', s1)" "arena_ok s1 t'"
          "regions s1 = (unat t', 8388640) # regions s"
          "arena_at s1 t' = \<lparr>current_position = 0, previous_position = 0, capacity = 8388608, base_position = t' + 32\<rparr>"
          "\<forall>x. x < unat t' \<or> unat t' + 32 + 8388608 \<le> x \<longrightarrow> mem s1 x = mem s x"
        using arena_create_run [OF k, of s 8388608 t'] Some by auto
      have eq: "t' = t" "s1 = s'" using create s1(1) by simp_all
      note kk = kernel_okD [OF k Some]
      have "call_knows ar rr c l' s'"
        using s1(2,4) eq by (simp add: l' own_def arena_top_def)
      moreover have "\<forall>q \<in> set (regions s). apart_regions (unat t, 8388640) q"
        using kk(4) eq by (force simp: apart_regions_def)
      moreover from this have "\<forall>q \<in> set (regions s). \<forall>x. in_region q x \<longrightarrow> mem s' x = mem s x"
        using s1(5) eq by (force simp: apart_regions_def apart_def in_region_def)
      ultimately show ?thesis
        using kk(1,3) s1(3) eq by (simp add: moves_def l' arena_region_def unat_gt_0)
    qed
  qed
  then show "call_knows ar rr c l' s'" "moves None (stage_mapping l') s s'" by simp_all
qed

text \<open>One structure for \<open>GetCpu\<close> and \<open>GetMemory\<close>, four for \<open>GetSystemResources\<close>.\<close>

lemma create_confined:
  assumes tidy: "tidy s" and known: "t = 0 \<or> own s t 0 \<and> arena_top s t = unat t + 32"
    and run: "create_step (call_method c) t s = Inr (l', s')"
  shows "call_knows ar rr c l' s'" and "moves (arena_region t) (stage_mapping l') s s'"
proof -
  have "call_knows ar rr c l' s' \<and> moves (arena_region t) (stage_mapping l') s s'"
  proof (cases "t = 0")
    case True
    have "arena_alloc s 0 n = Inr (0, s)" for n by (simp add: arena_alloc_def)
    then show ?thesis using run True moves_refl
      by (cases "call_method c")
        (auto simp: create_step_def cpu_create_def ram_create_def disk_create_def device_create_def arena_region_def)
  next
    case False
    then have o: "own s t 0" "arena_top s t = unat t + 32" "arena_ok s t" using known by (auto simp: own_def)
    have room: "arena_room s t = 8388608" using own_room [OF o(1)] o(2) by simp
    have base: "arena_base s t = unat t + 32" by (simp add: arena_base_def)
    have r: "(unat t, 8388640) \<in> set (regions s)" using o(1) by (auto simp: own_def arena_ok_def)
    have finish: ?thesis
      if "l' = Created p" "arena_ptr p = t" "placed (call_method c) p" "in_arena_only t s s'"
        "arena_top s' t = unat t + 32 + structs_size (call_method c)"
        "zeros s' (unat t + 32) (unat t + 32 + structs_size (call_method c))" for p
    proof -
      have rs: "regions s' = regions s" and ok': "arena_ok s' t" using that(4) by (simp_all add: in_arena_only_def)
      have t': "tidy s'" using tidy tidy_regions [OF rs] by simp
      have "own s' t (structs_size (call_method c))" using r rs that(5) by (intro ownI [OF t' _ ok']) simp_all
      moreover have "moves (Some (unat t, 8388640)) (Some (unat t, 8388640)) s s'"
        by (rule inside_moves [OF tidy r in_arena_only_inside [OF o(1) that(4)]]) simp
      ultimately show ?thesis using that False by (simp add: in_place_def arena_region_def)
    qed
    have one: "\<exists>p s1. arena_alloc s t n = Inr (p, s1) \<and> unat p = unat t + 32 \<and> in_arena_only t s s1 \<and>
        arena_top s1 t = unat t + 32 + m \<and> zeros s1 (unat t + 32) (unat t + 32 + m)"
      if nm: "unat n = m" "m \<le> 8388608" for n m
    proof -
      have m: "m \<le> arena_room s t" using nm(2) room by simp
      obtain p s1 where "arena_alloc s t n = Inr (p, s1)" "unat p = arena_top s t" "arena_ok s1 t"
          "regions s1 = regions s" "arena_base s1 t = arena_base s t"
          "arena_top s1 t = arena_top s t + m" "arena_room s1 t = arena_room s t - m"
          "mem_read (mem s1) (unat p) m = replicate m NUL"
          "\<forall>x. arena_base s t \<le> x \<and> x < arena_top s t \<longrightarrow> mem s1 x = mem s x" "in_arena_only t s s1"
        by (rule new_struct [OF o(3) nm(1) m])
      then show ?thesis using o(2) by (auto simp: mem_read_zeros zeros_def)
    qed
    show ?thesis
    proof (cases "call_method c")
      case Rpc_system
      obtain cp mp dp vp s2 s3 s4 s5 where "cpu_create s t = Inr (cp, s2)" "ram_create s2 t = Inr (mp, s3)"
          "disk_create s3 t = Inr (dp, s4)" "device_create s4 t = Inr (vp, s5)"
          "unat cp = unat t + 32" "unat mp = unat t + 32 + 120" "unat dp = unat t + 32 + 136"
          "unat vp = unat t + 32 + 160" "arena_ok s5 t" "regions s5 = regions s" "arena_base s5 t = unat t + 32"
          "arena_top s5 t = unat t + 32 + 704" "arena_room s5 t = 8387904"
          "\<forall>x. unat t + 32 \<le> x \<and> x < unat t + 32 + 704 \<longrightarrow> mem s5 x = NUL" "in_arena_only t s s5"
        by (rule four_structs [OF o(3) base o(2) room])
      then show ?thesis
        using run Rpc_system
        by (intro finish [of "\<lparr>arena_ptr = t, cpu_ptr = cp, memory_ptr = mp, disk_ptr = dp, device_ptr = vp\<rparr>"])
          (simp_all add: create_step_def placed_def structs_size_def zeros_def)
    next
      case Rpc_cpu
      obtain p s1 where "arena_alloc s t sizeof_sys_cpu = Inr (p, s1)" "unat p = unat t + 32" "in_arena_only t s s1"
          "arena_top s1 t = unat t + 32 + 120" "zeros s1 (unat t + 32) (unat t + 32 + 120)"
        using one [of sizeof_sys_cpu 120] by (auto simp: sizeof_sys_cpu_def)
      then show ?thesis
        using run Rpc_cpu
        by (intro finish [of "\<lparr>arena_ptr = t, cpu_ptr = p, memory_ptr = 0, disk_ptr = 0, device_ptr = 0\<rparr>"])
          (simp_all add: create_step_def cpu_create_def placed_def structs_size_def)
    next
      case Rpc_memory
      obtain p s1 where "arena_alloc s t sizeof_sys_memory = Inr (p, s1)" "unat p = unat t + 32" "in_arena_only t s s1"
          "arena_top s1 t = unat t + 32 + 16" "zeros s1 (unat t + 32) (unat t + 32 + 16)"
        using one [of sizeof_sys_memory 16] by (auto simp: sizeof_sys_memory_def)
      then show ?thesis
        using run Rpc_memory
        by (intro finish [of "\<lparr>arena_ptr = t, cpu_ptr = 0, memory_ptr = p, disk_ptr = 0, device_ptr = 0\<rparr>"])
          (simp_all add: create_step_def ram_create_def placed_def structs_size_def)
    qed
  qed
  then show "call_knows ar rr c l' s'" "moves (arena_region t) (stage_mapping l') s s'" by simp_all
qed

lemma copy_cpu:
  assumes w: "at_work c p s" and m: "call_method c \<noteq> Rpc_memory" and there: "cpu_there ar c p s"
    and run: "set_cpu_message s (cpu_ptr p) = Inr cm"
  shows "right_cpu ar c (Some cm)"
proof -
  obtain e v where v: "cpu_read ar (call_files c) (Some zero_cpu) = Some (Inr (e, v))" "wf_cpu v"
      "mem_read (mem s) (unat (cpu_ptr p)) 120 = en_cpu v"
    using there by (auto simp: cpu_there_def)
  note W = at_workD [OF w] and P = in_place_cpu [OF at_workD(3) [OF w] m]
  have in_arena: "arena_base s (arena_ptr p) \<le> unat (cpu_ptr p)" "unat (cpu_ptr p) + 120 \<le> arena_top s (arena_ptr p)"
    using P W(7) by (simp_all add: arena_base_def)
  have "v = de_cpu (mem_read (mem s) (unat (cpu_ptr p)) 120)" using v(2,3) by (simp add: cpu.de_en)
  moreover have "unat (cpu_ptr p) + 120 < 18446744073709551616"
    using in_arena arena.bounds [OF W(5)] by simp
  ultimately have "cpu_strings_end v \<Longrightarrow> cm = cpu_message_of v"
    using set_cpu_message_run [OF arena.reach [OF W(5) in_arena]] run by simp
  then show ?thesis using v(1) by (auto simp: right_cpu_def)
qed

lemma copy_memory:
  assumes w: "at_work c p s" and m: "call_method c \<noteq> Rpc_cpu" and there: "memory_there rr c p s"
    and run: "set_memory_message s (memory_ptr p) = Inr mm"
  shows "right_memory rr c (Some mm)"
proof -
  obtain s0 m e v s1 where v: "sane s0" "rr (call_files c) s0 (Some m) = Inr (e, v, s1)"
      "mem_read (mem s) (unat (memory_ptr p)) 16 = en_memory v"
    using there by (auto simp: memory_there_def)
  note W = at_workD [OF w] and P = in_place_memory [OF at_workD(3) [OF w] m]
  have in_arena: "arena_base s (arena_ptr p) \<le> unat (memory_ptr p)"
      "unat (memory_ptr p) + 16 \<le> arena_top s (arena_ptr p)"
    using P W(7) by (simp_all add: arena_base_def)
  have "v = de_memory (mem_read (mem s) (unat (memory_ptr p)) 16)" using v(3) by (simp add: ram.de_en)
  moreover have "unat (memory_ptr p) + 16 < 18446744073709551616"
    using in_arena arena.bounds [OF W(5)] by simp
  ultimately have "mm = memory_message_of v"
    using set_memory_message_run [OF arena.reach [OF W(5) in_arena]] run by simp
  then show ?thesis using v(1,2) unfolding right_memory_def by blast
qed

text \<open>Unmapping an arena that is not the last one mapped.\<close>

lemma munmap_member:
  assumes "sorted_wrt apart_regions rs" and "(b, n) \<in> set rs" and "0 < n"
  shows "concat (map (region_minus b n) rs) = remove1 (b, n) rs"
  using assms(1,2)
proof (induction rs)
  case (Cons r rs)
  show ?case
  proof (cases "r = (b, n)")
    case True
    have "\<forall>(b', l) \<in> set rs. apart b n b' l" using Cons.prems(1) True by (auto simp: apart_regions_def)
    then show ?thesis using True assms(3) by (simp add: concat_region_minus_apart apart_def)
  next
    case False
    then have "apart_regions r (b, n)" using Cons.prems by auto
    then have "region_minus b n r = [r]" by (cases r) (simp add: apart_regions_def apart_commute)
    then show ?thesis using Cons False by auto
  qed
qed simp

lemma destroy_regions:
  assumes "tidy s" and "own s t 0" and "arena_destroy s t = Inr s'"
  shows "regions s' = remove1 (unat t, 8388640) (regions s)" and "(unat t, 8388640) \<in> set (regions s)"
proof -
  have ok: "arena_ok s t" and cap: "unat (capacity (arena_at s t)) = 8388608" using assms(2) by (simp_all add: own_def)
  show r: "(unat t, 8388640) \<in> set (regions s)" using ok cap by (auto simp: arena_ok_def)
  have "unat (capacity (arena_at s t) + sizeof_mem_arena) = 8388640"
    using cap by (simp add: unat_add_nowrap sizeof_mem_arena_def)
  then have "s' = s\<lparr>regions := remove1 (unat t, 8388640) (regions s)\<rparr>"
    using assms(1,3) r munmap_member [of "regions s" "unat t" 8388640]
    by (simp add: arena_destroy_run [OF ok] munmap_def tidy_def)
  then show "regions s' = remove1 (unat t, 8388640) (regions s)" by simp
qed

lemma destroy_confined:
  assumes "tidy s" and o: "own s t 0" and run: "arena_destroy s t = Inr s'"
  shows "moves (arena_region t) None s s'"
proof -
  have "mem s' = mem s" using o run by (auto simp: arena_destroy_run own_def munmap_def)
  then show ?thesis using destroy_regions(1) [OF assms] own_nonzero [OF o] by (auto simp: moves_def arena_region_def)
qed

lemma at_workI:
  assumes "tidy s" and "in_place c p s"
  shows "at_work c p s"
  using assms by (auto simp: at_work_def in_place_def own_def arena_ok_def)

lemma cpu_read_null: "cpu_read_at ar fs s 0 \<noteq> Some (Inr s')"
  by (simp add: cpu_read_at_def cpu_read_def)

lemma memory_message_null: "sane s \<Longrightarrow> set_memory_message s 0 \<noteq> Inr mm"
  by (simp add: set_memory_message_def load64_null)

lemma created_confined:
  assumes tidy: "tidy s" and rr: "\<forall>fs. ram_reader_frame (rr fs)"
    and knows: "call_knows ar rr c (Created p) s"
    and run: "call_step k ar rr c (Created p) s = Some (Inr (l', s'))"
  shows "call_knows ar rr c l' s'" and "moves (arena_region (arena_ptr p)) (stage_mapping l') s s'"
proof -
  have "call_knows ar rr c l' s' \<and> moves (arena_region (arena_ptr p)) (stage_mapping l') s s'"
  proof (cases "call_method c = Rpc_memory")
    case True
    then obtain run': "ram_read_at (rr (call_files c)) s (memory_ptr p) = Inr s'" and l': "l' = Memory_done p"
      using run by (auto simp: then_run_Inr)
    show ?thesis
    proof (cases "arena_ptr p = 0 \<and> memory_ptr p = 0")
      case null: True
      then obtain e v where "rr (call_files c) s None = Inr (e, v, s')"
        using run' by (auto simp: ram_read_at_def andthen_eq_Inr)
      from ram_reader_frameD [OF rr [rule_format] _ this] tidy
      have "regions s' = regions s" "\<forall>q \<in> set (regions s). \<forall>x. in_region q x \<longrightarrow> mem s' x = mem s x"
        by (force simp: tidy_def in_region_def)+
      then show ?thesis using null True by (simp add: l' arena_region_def moves_def)
    next
      case False
      then have place: "in_place c p s" using knows by auto
      note w = at_workI [OF tidy place]
      have m: "call_method c \<noteq> Rpc_cpu" using True by simp
      note st = memory_stage [where rr = rr, OF w m rr [rule_format] run']
      show ?thesis using st(2,3) stage_moves [OF w st(4)] True by (simp add: l')
    qed
  next
    case False
    then obtain s1 where run': "cpu_read_at ar (call_files c) s (cpu_ptr p) = Some (Inr s1)"
        and l': "(l', s') = (if call_method c = Rpc_system then timely c 1 (Cpu_done p) s1 else (Cpu_done p, s1))"
      using run by (cases "call_method c") (auto simp: then_run_Inr)
    have "cpu_ptr p \<noteq> 0" using run' cpu_read_null by auto
    then have place: "in_place c p s"
        "zeros s (unat (arena_ptr p) + 32) (unat (arena_ptr p) + 32 + structs_size (call_method c))"
      using knows by auto
    note w = at_workI [OF tidy place(1)] and P = in_place_cpu [OF place(1) False]
    note st = cpu_stage [where ar = ar, OF w False place(2) run']
    have "call_knows ar rr c (Cpu_done p) s1"
      using st(2,3,5) False P by (auto simp: structs_size_def zeros_def)
    then have "s' = s1 \<and> call_knows ar rr c l' s1 \<and>
        (stage_mapping l' = arena_region (arena_ptr p) \<or> stage_mapping l' = None)"
      using timely_cases [of c 1 "Cpu_done p" s1 l' s' ar rr] l' by (cases "call_method c = Rpc_system") simp_all
    then show ?thesis using stage_moves [OF w st(4)] by auto
  qed
  then show "call_knows ar rr c l' s'" "moves (arena_region (arena_ptr p)) (stage_mapping l') s s'" by simp_all
qed

text \<open>The later stages. Each reader leaves the blocks of the readers before it alone.\<close>

lemma cpu_done_confined:
  assumes tidy: "tidy s" and rr: "\<forall>fs. ram_reader_frame (rr fs)"
    and knows: "call_knows ar rr c (Cpu_done p) s"
    and run: "call_step k ar rr c (Cpu_done p) s = Some (Inr (l', s'))"
  shows "call_knows ar rr c l' s' \<and> moves (arena_region (arena_ptr p)) (stage_mapping l') s s'"
proof -
  have place: "in_place c p s" and m: "call_method c \<noteq> Rpc_memory" and there: "cpu_there ar c p s"
    using knows by auto
  note w = at_workI [OF tidy place]
  show ?thesis
  proof (cases "call_method c = Rpc_system")
    case True
    then obtain s1 where run': "ram_read_at (rr (call_files c)) s (memory_ptr p) = Inr s1"
        and l': "timely c 2 (Memory_done p) s1 = (l', s')"
      using run by (auto simp: then_run_Inr)
    have m2: "call_method c \<noteq> Rpc_cpu" using True by simp
    note st = memory_stage [where rr = rr, OF w m2 rr [rule_format] run']
    have ptr: "unat (cpu_ptr p) = unat (arena_ptr p) + 32" "unat (memory_ptr p) = unat (arena_ptr p) + 152"
      using at_workD(9) [OF w] True by (simp_all add: placed_def)
    have size: "structs_size (call_method c) = 704" using True by (simp add: structs_size_def)
    have "mem_read (mem s1) (unat (cpu_ptr p)) 120 = mem_read (mem s) (unat (cpu_ptr p)) 120"
      using st(5) ptr by (intro mem_read_cong) simp
    then have "cpu_there ar c p s1" using there by (simp add: cpu_there_def)
    moreover have "zeros s1 (unat (arena_ptr p) + 168) (unat (arena_ptr p) + 736)"
      using knows True st(5) ptr by (simp add: zeros_def)
    ultimately have "call_knows ar rr c (Memory_done p) s1" using st(2,3) True by simp
    from timely_cases [OF l' this] show ?thesis using stage_moves [OF w st(4)] by auto
  next
    case False
    then obtain cm where cm: "set_cpu_message s (cpu_ptr p) = Inr cm" "l' = Copied (arena_ptr p) (Some cm) None" "s' = s"
      using run by (auto simp: then_run_Inr)
    have "call_method c = Rpc_cpu" using m False by (cases "call_method c") simp_all
    then have "right_answer ar rr c (Some cm) None"
      using copy_cpu [OF w m there cm(1)] by (simp add: right_answer_def)
    moreover have "own s (arena_ptr p) 0" using at_workD(6) [OF w] by (simp add: own_def)
    ultimately show ?thesis using moves_refl by (simp add: cm)
  qed
qed

lemma memory_done_confined:
  assumes tidy: "tidy s" and knows: "call_knows ar rr c (Memory_done p) s"
    and run: "call_step k ar rr c (Memory_done p) s = Some (Inr (l', s'))"
  shows "call_knows ar rr c l' s' \<and> moves (arena_region (arena_ptr p)) (stage_mapping l') s s'"
proof (cases "call_method c = Rpc_system")
  case True
  then have place: "in_place c p s" and there: "cpu_there ar c p s" "memory_there rr c p s"
    and z: "zeros s (unat (arena_ptr p) + 168) (unat (arena_ptr p) + 736)"
    using knows by auto
  note w = at_workI [OF tidy place]
  obtain s1 where run': "disk_read_at (call_files c) s (disk_ptr p) (arena_ptr p) = Inr s1"
      and l': "timely c 3 (Disk_done p) s1 = (l', s')"
    using run True by (auto simp: then_run_Inr)
  note st = disk_stage [OF w True z run']
  have ptr: "unat (cpu_ptr p) = unat (arena_ptr p) + 32" "unat (memory_ptr p) = unat (arena_ptr p) + 152"
    using at_workD(9) [OF w] True by (simp_all add: placed_def)
  have "mem_read (mem s1) (unat (cpu_ptr p)) 120 = mem_read (mem s) (unat (cpu_ptr p)) 120"
      "mem_read (mem s1) (unat (memory_ptr p)) 16 = mem_read (mem s) (unat (memory_ptr p)) 16"
    using st(4) ptr by (intro mem_read_cong; simp)+
  then have "call_knows ar rr c (Disk_done p) s1"
    using there st(2) True by (simp add: cpu_there_def memory_there_def)
  from timely_cases [OF l' this] show ?thesis using stage_moves [OF w st(3)] by auto
next
  case False
  then obtain mm where mm: "set_memory_message s (memory_ptr p) = Inr mm"
      "l' = Copied (arena_ptr p) None (Some mm)" "s' = s"
    using run by (auto simp: then_run_Inr)
  have "memory_ptr p \<noteq> 0" using mm(1) memory_message_null tidy by (auto simp: tidy_def)
  then have place: "in_place c p s" and m: "call_method c \<noteq> Rpc_cpu" and there: "memory_there rr c p s"
    using knows by auto
  note w = at_workI [OF tidy place]
  have "call_method c = Rpc_memory" using m False by (cases "call_method c") simp_all
  then have "right_answer ar rr c None (Some mm)"
    using copy_memory [OF w m there mm(1)] by (simp add: right_answer_def)
  moreover have "own s (arena_ptr p) 0" using at_workD(6) [OF w] by (simp add: own_def)
  ultimately show ?thesis using moves_refl by (simp add: mm)
qed

lemma disk_done_confined:
  assumes tidy: "tidy s" and knows: "call_knows ar rr c (Disk_done p) s"
    and run: "call_step k ar rr c (Disk_done p) s = Some (Inr (l', s'))"
  shows "call_knows ar rr c l' s' \<and> moves (arena_region (arena_ptr p)) (stage_mapping l') s s'"
proof -
  have place: "in_place c p s" and m: "call_method c = Rpc_system"
    and there: "cpu_there ar c p s" "memory_there rr c p s" using knows by auto
  note w = at_workI [OF tidy place]
  obtain s1 where run': "device_read_at (call_files c) s (device_ptr p) = Inr s1"
      and l': "timely c 4 (Device_done p) s1 = (l', s')"
    using run by (auto simp: then_run_Inr)
  note st = device_stage [OF w m run']
  have ptr: "unat (cpu_ptr p) = unat (arena_ptr p) + 32" "unat (memory_ptr p) = unat (arena_ptr p) + 152"
    using at_workD(9) [OF w] m by (simp_all add: placed_def)
  have "mem_read (mem s1) (unat (cpu_ptr p)) 120 = mem_read (mem s) (unat (cpu_ptr p)) 120"
      "mem_read (mem s1) (unat (memory_ptr p)) 16 = mem_read (mem s) (unat (memory_ptr p)) 16"
    using st(4) ptr by (intro mem_read_cong; simp)+
  then have "call_knows ar rr c (Device_done p) s1"
    using there st(2) m by (simp add: cpu_there_def memory_there_def)
  from timely_cases [OF l' this] show ?thesis using stage_moves [OF w st(3)] by auto
qed

lemma device_done_confined:
  assumes tidy: "tidy s" and knows: "call_knows ar rr c (Device_done p) s"
    and run: "call_step k ar rr c (Device_done p) s = Some (Inr (l', s'))"
  shows "call_knows ar rr c l' s' \<and> moves (arena_region (arena_ptr p)) (stage_mapping l') s s'"
proof -
  have place: "in_place c p s" and m: "call_method c = Rpc_system"
    and there: "cpu_there ar c p s" "memory_there rr c p s" using knows by auto
  note w = at_workI [OF tidy place]
  obtain cm mm where q: "set_cpu_message s (cpu_ptr p) = Inr cm" "set_memory_message s (memory_ptr p) = Inr mm"
      "l' = Copied (arena_ptr p) (Some cm) (Some mm)" "s' = s"
    using run by (auto simp: then_run_Inr)
  have "right_answer ar rr c (Some cm) (Some mm)"
    using copy_cpu [OF w _ there(1) q(1)] copy_memory [OF w _ there(2) q(2)] m by (simp add: right_answer_def)
  moreover have "own s (arena_ptr p) 0" using at_workD(6) [OF w] by (simp add: own_def)
  ultimately show ?thesis using moves_refl by (simp add: q)
qed

lemma call_confined:
  assumes k: "kernel_ok k" and rr: "\<forall>fs. ram_reader_frame (rr fs)"
    and knows: "call_knows ar rr c l s" and tidy: "tidy s"
    and run: "call_step k ar rr c l s = Some (Inr (l', s'))"
  shows "call_knows ar rr c l' s' \<and> moves (stage_mapping l) (stage_mapping l') s s'"
proof (cases l)
  case Called
  then have "start_step k c s = Inr (l', s')" using run by simp
  from start_confined(1) [OF k this, of ar rr] start_confined(2) [OF k this] show ?thesis using Called by simp
next
  case (Mapped t)
  then have "create_step (call_method c) t s = Inr (l', s')" using run by simp
  from create_confined(1) [OF tidy _ this, of ar rr] create_confined(2) [OF tidy _ this]
  show ?thesis using knows Mapped by simp
next
  case (Created p)
  show ?thesis
    using created_confined [where rr = rr and k = k, OF tidy rr knows [unfolded Created] run [unfolded Created]]
    by (simp add: Created)
next
  case (Cpu_done p)
  show ?thesis
    using cpu_done_confined [where rr = rr and k = k, OF tidy rr knows [unfolded Cpu_done] run [unfolded Cpu_done]]
    by (simp add: Cpu_done)
next
  case (Memory_done p)
  show ?thesis
    using memory_done_confined [where rr = rr and k = k, OF tidy knows [unfolded Memory_done] run [unfolded Memory_done]]
    by (simp add: Memory_done)
next
  case (Disk_done p)
  show ?thesis
    using disk_done_confined [where rr = rr and k = k, OF tidy knows [unfolded Disk_done] run [unfolded Disk_done]]
    by (simp add: Disk_done)
next
  case (Device_done p)
  show ?thesis
    using device_done_confined [where rr = rr and k = k, OF tidy knows [unfolded Device_done] run [unfolded Device_done]]
    by (simp add: Device_done)
next
  case (Copied t cm mm)
  then obtain d: "arena_destroy s t = Inr s'" and l': "l' = Answered OK \<lparr>reply_cpu = cm, reply_memory = mm\<rparr>"
    using run by (auto simp: then_run_Inr)
  have "own s t 0" "right_answer ar rr c cm mm" using knows Copied by simp_all
  then show ?thesis using destroy_confined [OF tidy _ d] by (simp add: Copied l')
next
  case (Answered st rep)
  then show ?thesis using run knows moves_refl by simp
qed

text \<open>The agent on a kernel that keeps its promise and with a memory reader that keeps to its own mapping: its
  calls are threads with private mappings.\<close>

locale agent =
  fixes k :: kernel and ar :: arch and rr :: "files \<Rightarrow> ram_reader"
  assumes kernel: "kernel_ok k" and reader: "ram_reader_frame (rr fs)"
begin

lemma step_confined:
  "call_knows ar rr c l s \<Longrightarrow> tidy s \<Longrightarrow> call_step k ar rr c l s = Some (Inr (l', s')) \<Longrightarrow>
   call_knows ar rr c l' s' \<and> moves (stage_mapping l) (stage_mapping l') s s'"
  using call_confined [OF kernel, of rr] reader by blast

end

sublocale agent \<subseteq> calls: private_mappings "call_step k ar rr" stage_mapping "call_knows ar rr" Called
  by unfold_locales (simp, simp, erule call_knows_stable, blast, erule (1) step_confined, assumption)

context agent
begin

lemma calls_safe:
  "interleave (call_step k ar rr) cs Called s0 ls s \<Longrightarrow> tidy s0 \<Longrightarrow>
   together stage_mapping (call_knows ar rr) cs s0 ls s"
  by (rule calls.interleave_safe)

lemma answer_knows:
  assumes "interleave (call_step k ar rr) cs Called s0 ls s" and "tidy s0"
    and "i < length cs" and "ls ! i = Answered st rep"
  shows "call_knows ar rr (cs ! i) (Answered st rep) s"
  using calls_safe [OF assms(1,2)] assms(3,4) unfolding together_def by metis

end

interpretation sources: agent page_kernel ar "sys_ram_read page_kernel" for ar
  by unfold_locales (simp_all add: page_kernel_ok sys_ram_read_frame)

end
