(* ===== verification/In_Flight.thy ===== *)
theory In_Flight
  imports Interleave "HOL-Library.Multiset"
begin

text \<open>
  What holds of all calls in flight, however they are interleaved: a call whose files can be read makes progress,
  every mapping is accounted for, and answers are the call's own.
\<close>

section \<open>Progress\<close>

text \<open>What a call needs that is its own: files that its readers accept, memory for its arena, and an arena
  once it is past that point.\<close>

definition can_read :: "arch \<Rightarrow> (files \<Rightarrow> ram_reader) \<Rightarrow> rpc_call \<Rightarrow> os \<Rightarrow> bool" where
  "can_read ar rr c s \<longleftrightarrow>
     (\<exists>e v. cpu_read ar (call_files c) (Some zero_cpu) = Some (Inr (e, v)) \<and> cpu_strings_end v) \<and>
     (\<forall>m. \<exists>r. rr (call_files c) s (Some m) = Inr r) \<and> call_files c ''/proc/partitions'' \<noteq> None \<and>
     (\<forall>d. wf_device d \<longrightarrow> (\<exists>r. device_read (call_files c) (Some d) = Inr r))"

lemma device_read_at_returns:
  assumes ok: "arena_ok s t" and p: "arena_base s t \<le> unat p" "unat p + 544 \<le> arena_top s t"
    and r: "\<And>d. wf_device d \<Longrightarrow> \<exists>r. device_read fs (Some d) = Inr r"
  shows "\<exists>s'. device_read_at fs s p = Inr s'"
proof -
  let ?d = "de_device (mem_read (mem s) (unat p) 544)"
  have wf: "wf_device ?d" by (rule device.wf_de) simp
  then obtain e d' where d': "device_read fs (Some ?d) = Inr (e, d')" using r by fastforce
  obtain d1 where d1: "d' = Some d1" "wf_device d1" using device_read_wf [OF d' wf] by blast
  have "unat p + length (en_device d1) \<le> arena_top s t" using p(2) d1(2) by (simp add: device.length_en)
  note w = arena_memcpy [OF ok p(1) this refl]
  have "p \<noteq> 0" using p(1) arena.bounds [OF ok] by auto
  then show ?thesis
    using w(1) d' d1(1) arena.reach [OF ok p]
    by (simp add: device_read_at_def on_struct_def load_bytes_def)
qed

lemma set_cpu_message_returns:
  assumes w: "at_work c p s" and m: "call_method c \<noteq> Rpc_memory" and there: "cpu_there ar c p s"
    and c: "cpu_read ar (call_files c) (Some zero_cpu) = Some (Inr (e, v))" "cpu_strings_end v"
  shows "\<exists>cm. set_cpu_message s (cpu_ptr p) = Inr cm"
proof -
  note W = at_workD [OF w] and P = in_place_cpu [OF at_workD(3) [OF w] m]
  have in_arena: "arena_base s (arena_ptr p) \<le> unat (cpu_ptr p)" "unat (cpu_ptr p) + 120 \<le> arena_top s (arena_ptr p)"
    using P W(7) by (simp_all add: arena_base_def)
  have "v = de_cpu (mem_read (mem s) (unat (cpu_ptr p)) 120)"
    using there c(1) by (auto simp: cpu_there_def cpu.de_en)
  moreover have "unat (cpu_ptr p) + 120 < 18446744073709551616"
    using in_arena arena.bounds [OF W(5)] by simp
  ultimately show ?thesis using set_cpu_message_run [OF arena.reach [OF W(5) in_arena] _ _ c(2)] by blast
qed

lemma set_memory_message_returns:
  assumes w: "at_work c p s" and m: "call_method c \<noteq> Rpc_cpu"
  shows "\<exists>mm. set_memory_message s (memory_ptr p) = Inr mm"
proof -
  note W = at_workD [OF w] and P = in_place_memory [OF at_workD(3) [OF w] m]
  have in_arena: "arena_base s (arena_ptr p) \<le> unat (memory_ptr p)"
      "unat (memory_ptr p) + 16 \<le> arena_top s (arena_ptr p)"
    using P W(7) by (simp_all add: arena_base_def)
  have "unat (memory_ptr p) + 16 < 18446744073709551616" using in_arena arena.bounds [OF W(5)] by simp
  from set_memory_message_run [OF arena.reach [OF W(5) in_arena] this refl] show ?thesis by blast
qed

lemma memory_read_returns:
  assumes w: "at_work c p s" and m: "call_method c \<noteq> Rpc_cpu" and rr: "ram_reader_frame (rr (call_files c))"
    and r: "\<And>m. \<exists>r. rr (call_files c) s (Some m) = Inr r"
  shows "\<exists>s'. ram_read_at (rr (call_files c)) s (memory_ptr p) = Inr s'"
proof -
  note W = at_workD [OF w] and P = in_place_memory [OF at_workD(3) [OF w] m]
  have in_arena: "arena_base s (arena_ptr p) \<le> unat (memory_ptr p)"
      "unat (memory_ptr p) + 16 \<le> arena_top s (arena_ptr p)"
    using P W(7) by (simp_all add: arena_base_def)
  obtain e v s1 where s1: "rr (call_files c) s (Some (de_memory (mem_read (mem s) (unat (memory_ptr p)) 16))) = Inr (e, v, s1)"
    using r by (metis prod.collapse)
  obtain s2 where "ram_read_at (rr (call_files c)) s (memory_ptr p) = Inr s2"
    by (rule ram_read_at_step [where ram_read = "rr (call_files c)", OF W(5) in_arena s1 ram_reader_frameD [OF rr W(2) s1]])
  then show ?thesis by blast
qed

lemma create_step_returns:
  assumes o: "own s t 0" "arena_top s t = unat t + 32"
  shows "\<exists>l' s'. create_step m t s = Inr (l', s')"
proof -
  have ok: "arena_ok s t" and base: "arena_base s t = unat t + 32" using o(1) by (simp_all add: own_def arena_base_def)
  have room: "arena_room s t = 8388608" using own_room [OF o(1)] o(2) by simp
  have one: "\<exists>p s1. arena_alloc s t n = Inr (p, s1)" if "unat n \<le> 8388608" for n
    using arena.fresh_block [OF ok, of n] that room by metis
  show ?thesis
  proof (cases m)
    case Rpc_system
    obtain cp mp dp vp s2 s3 s4 s5 where "cpu_create s t = Inr (cp, s2)" "ram_create s2 t = Inr (mp, s3)"
        "disk_create s3 t = Inr (dp, s4)" "device_create s4 t = Inr (vp, s5)"
      by (rule four_structs [OF ok base o(2) room])
    then show ?thesis using Rpc_system by (simp add: create_step_def)
  next
    case Rpc_cpu
    then show ?thesis using one [of sizeof_sys_cpu] by (auto simp: create_step_def cpu_create_def sizeof_sys_cpu_def)
  next
    case Rpc_memory
    then show ?thesis using one [of sizeof_sys_memory] by (auto simp: create_step_def ram_create_def sizeof_sys_memory_def)
  qed
qed

lemma step_returns:
  assumes k: "kernel_ok k" and rr: "\<forall>fs. ram_reader_frame (rr fs)" and knows: "call_knows ar rr c l s" and tidy: "tidy s"
    and can: "can_read ar rr c s" and live: "l = Called \<and> k s 8388640 \<noteq> None \<or> stage_mapping l \<noteq> None"
  shows "\<exists>l' s'. call_step k ar rr c l s = Some (Inr (l', s'))"
proof -
  obtain e v where cpu: "cpu_read ar (call_files c) (Some zero_cpu) = Some (Inr (e, v))" "cpu_strings_end v"
    using can unfolding can_read_def by blast
  have ram: "\<And>m. \<exists>r. rr (call_files c) s (Some m) = Inr r" and dev: "\<And>d. wf_device d \<Longrightarrow> \<exists>r. device_read (call_files c) (Some d) = Inr r"
    using can unfolding can_read_def by blast+
  obtain f where f: "call_files c ''/proc/partitions'' = Some f" using can unfolding can_read_def by blast
  have frame: "ram_reader_frame (rr (call_files c))" using rr by simp
  show ?thesis
  proof (cases l)
    case Called
    then obtain t where "k s 8388640 = Some t" using live by auto
    then obtain s1 where "arena_create k s (MiB 8) = Inr (t, s1)" by (rule handler_arena [OF k])
    then show ?thesis using Called by (simp add: start_step_def)
  next
    case (Mapped t)
    then have "own s t 0" "arena_top s t = unat t + 32" using knows live by (auto simp: arena_region_def split: if_splits)
    from create_step_returns [OF this] show ?thesis using Mapped by simp
  next
    case (Created p)
    then have place: "in_place c p s"
        "zeros s (unat (arena_ptr p) + 32) (unat (arena_ptr p) + 32 + structs_size (call_method c))"
      using knows live by (auto simp: arena_region_def)
    note w = at_workI [OF tidy place(1)]
    show ?thesis
    proof (cases "call_method c = Rpc_memory")
      case True
      then show ?thesis using memory_read_returns [where rr = rr, OF w _ frame ram] Created by auto
    next
      case False
      note W = at_workD [OF w] and P = in_place_cpu [OF place(1) False]
      have in_arena: "arena_base s (arena_ptr p) \<le> unat (cpu_ptr p)" "unat (cpu_ptr p) + 120 \<le> arena_top s (arena_ptr p)"
        using P W(7) by (simp_all add: arena_base_def)
      have "mem_read (mem s) (unat (cpu_ptr p)) 120 = replicate 120 NUL"
        using place(2) P by (simp add: mem_read_zeros zeros_def)
      from cpu_read_at_run [where fs = "call_files c", OF W(5) in_arena this cpu(1)]
      show ?thesis using Created False by (cases "call_method c") (simp_all add: timely_def)
    qed
  next
    case (Cpu_done p)
    then have place: "in_place c p s" and m: "call_method c \<noteq> Rpc_memory" and there: "cpu_there ar c p s"
      using knows by auto
    note w = at_workI [OF tidy place]
    show ?thesis
      using memory_read_returns [where rr = rr, OF w _ frame ram] set_cpu_message_returns [OF w m there cpu] Cpu_done
      by (cases "call_method c = Rpc_system") (auto simp: timely_def)
  next
    case (Memory_done p)
    then have place: "in_place c p s" and m: "call_method c \<noteq> Rpc_cpu"
        and z: "call_method c = Rpc_system \<Longrightarrow> zeros s (unat (arena_ptr p) + 168) (unat (arena_ptr p) + 736)"
      using knows live by (auto simp: arena_region_def)
    note w = at_workI [OF tidy place]
    show ?thesis
    proof (cases "call_method c = Rpc_system")
      case True
      note W = at_workD [OF w]
      have ptr: "unat (disk_ptr p) = unat (arena_ptr p) + 168" and n: "structs_size (call_method c) = 704"
        using W(9) True by (simp_all add: placed_def structs_size_def)
      have in_arena: "arena_base s (arena_ptr p) \<le> unat (disk_ptr p)"
          "unat (disk_ptr p) + 24 \<le> arena_top s (arena_ptr p)"
        using ptr n W(7) by (simp_all add: arena_base_def)
      have zd: "mem_read (mem s) (unat (disk_ptr p)) 24 = replicate 24 NUL"
        using z [OF True] ptr by (simp add: mem_read_zeros zeros_def)
      obtain s1 where "disk_read_at (call_files c) s (disk_ptr p) (arena_ptr p) = Inr s1"
        by (rule disk_read_at_run [where fs = "call_files c", OF W(5) in_arena zd f own_moderate [OF W(1,6)]])
      then show ?thesis using Memory_done True by (simp add: timely_def)
    next
      case False
      then show ?thesis using set_memory_message_returns [OF w m] Memory_done by auto
    qed
  next
    case (Disk_done p)
    then have place: "in_place c p s" and m: "call_method c = Rpc_system" using knows by auto
    note w = at_workI [OF tidy place]
    note W = at_workD [OF w]
    have ptr: "unat (device_ptr p) = unat (arena_ptr p) + 192" and n: "structs_size (call_method c) = 704"
      using W(9) m by (simp_all add: placed_def structs_size_def)
    have "arena_base s (arena_ptr p) \<le> unat (device_ptr p)" "unat (device_ptr p) + 544 \<le> arena_top s (arena_ptr p)"
      using ptr n W(7) by (simp_all add: arena_base_def)
    from device_read_at_returns [where fs = "call_files c", OF W(5) this dev]
    show ?thesis using Disk_done by (auto simp: timely_def)
  next
    case (Device_done p)
    then have place: "in_place c p s" and m: "call_method c \<noteq> Rpc_memory" "call_method c \<noteq> Rpc_cpu"
        and there: "cpu_there ar c p s" using knows by auto
    note w = at_workI [OF tidy place]
    show ?thesis
      using set_cpu_message_returns [OF w m(1) there cpu] set_memory_message_returns [OF w m(2)] Device_done by auto
  next
    case (Copied t cm mm)
    then have "arena_ok s t" using knows by (simp add: own_def)
    then show ?thesis using Copied by (simp add: arena_destroy_run)
  next
    case (Answered st rep)
    then show ?thesis by simp
  qed
qed

text \<open>A call takes at most eight steps: each one lowers its rank.\<close>

fun rank :: "stage \<Rightarrow> nat" where
  "rank Called = 8"
| "rank (Mapped t) = 7"
| "rank (Created p) = 6"
| "rank (Cpu_done p) = 5"
| "rank (Memory_done p) = 4"
| "rank (Disk_done p) = 3"
| "rank (Device_done p) = 2"
| "rank (Copied t cm mm) = 1"
| "rank (Answered st rep) = 0"

lemma step_rank:
  assumes "call_step k ar rr c l s = Some (Inr (l', s'))" and "rank l \<noteq> 0"
  shows "rank l' < rank l"
  using assms
  by (cases l; cases "call_method c")
    (auto simp: start_step_def create_step_def timely_def then_run_Inr andthen_eq_Inr split: if_splits)

section \<open>Accounting for mappings\<close>

text \<open>A call holds a mapping while it works in its arena, and for ever when it answers late.\<close>

definition holds_mapping :: "rpc_call \<times> stage \<Rightarrow> bool" where
  "holds_mapping = (\<lambda>(c, l). stage_mapping l \<noteq> None \<or> (\<exists>st rep. l = Answered st rep \<and> leaks (c, st)))"

text \<open>As the clock decides only about the answer, a late step changes the address space as the same step in time.\<close>

definition in_time :: "rpc_call \<Rightarrow> rpc_call" where
  "in_time c = c\<lparr>call_clock := \<lambda>i. deadline (call_context c)\<rparr>"

lemma in_time_simps [simp]:
  "call_method (in_time c) = call_method c" "call_files (in_time c) = call_files c"
  "call_context (in_time c) = call_context c" "call_clock (in_time c) i = deadline (call_context c)"
  by (simp_all add: in_time_def)

lemma knows_in_time: "call_knows ar rr (in_time c) l s = call_knows ar rr c l s"
  by (cases l) (simp_all add: in_place_def cpu_there_def memory_there_def right_answer_def right_cpu_def right_memory_def)

lemma late_step:
  assumes "call_knows ar rr c l s" and "call_step k ar rr c l s = Some (Inr (l', s'))" and "stage_mapping l = Some r"
    and "stage_mapping l' = None" and "\<And>t cm mm. l \<noteq> Copied t cm mm"
  shows "call_method c = Rpc_system \<and> (\<exists>rep. l' = Answered DEADLINE_EXCEEDED rep) \<and>
    (\<exists>l1. call_step k ar rr (in_time c) l s = Some (Inr (l1, s')) \<and> stage_mapping l1 = Some r)"
  using assms by (cases l; cases "call_method c")
    (auto simp: create_step_def then_run_Inr andthen_eq_Inr timely_def split: if_splits)

lemma late_regions:
  assumes k: "kernel_ok k" and rr: "\<forall>fs. ram_reader_frame (rr fs)"
    and knows: "call_knows ar rr c l s" and tidy: "tidy s" and r: "stage_mapping l = Some r"
    and step: "call_step k ar rr c l s = Some (Inr (l', s'))" "stage_mapping l' = None" and l: "\<And>t cm mm. l \<noteq> Copied t cm mm"
  shows "regions s' = regions s"
proof -
  obtain l1 where l1: "call_step k ar rr (in_time c) l s = Some (Inr (l1, s'))" "stage_mapping l1 = Some r"
    using late_step [OF knows step(1) r step(2) l] by blast
  then have "moves (Some r) (Some r) s s'"
    using call_confined [OF k rr _ tidy l1(1)] knows r by (simp add: knows_in_time)
  then show ?thesis by (simp add: moves_def)
qed

text \<open>The sizes of the mappings, before and after a step.\<close>

definition region_sizes :: "os \<Rightarrow> nat multiset" where
  "region_sizes s = mset (map snd (regions s))"

definition arenas :: "bool \<Rightarrow> nat multiset" where
  "arenas b = (if b then {#8388640#} else {#})"

lemma sizes_remove1: "(a, n) \<in> set rs \<Longrightarrow> mset (map snd rs) = add_mset n (mset (map snd (remove1 (a, n) rs)))"
  by (induction rs) auto

lemma step_sizes:
  assumes k: "kernel_ok k" and rr: "\<forall>fs. ram_reader_frame (rr fs)"
    and knows: "call_knows ar rr c l s" and tidy: "tidy s"
    and started: "l = Called \<or> (\<exists>st rep. l = Answered st rep) \<or> \<not> deadline (call_context c) < call_clock c 0"
    and step: "call_step k ar rr c l s = Some (Inr (l', s'))"
  shows "region_sizes s' + arenas (holds_mapping (c, l)) = region_sizes s + arenas (holds_mapping (c, l'))"
proof -
  have m: "moves (stage_mapping l) (stage_mapping l') s s'"
    using call_confined [OF k rr knows tidy step] by simp
  have size: "snd q = 8388640" if "stage_mapping l' = Some q" for q
    using that by (cases l') (auto simp: arena_region_def split: if_splits)
  consider (new) q where "stage_mapping l' = Some q" "stage_mapping l = None" "regions s' = q # regions s"
    | (same) q where "stage_mapping l' = Some q" "stage_mapping l = Some q" "regions s' = regions s"
    | (gone) r where "stage_mapping l' = None" "stage_mapping l = Some r"
    | (none) "stage_mapping l' = None" "stage_mapping l = None" "regions s' = regions s"
    using m by (cases "stage_mapping l'"; cases "stage_mapping l") (auto simp: moves_def)
  then show ?thesis
  proof cases
    case new
    then have "\<not> holds_mapping (c, l)" using step by (cases l) (auto simp: holds_mapping_def)
    then show ?thesis using new size by (simp add: region_sizes_def arenas_def holds_mapping_def)
  next
    case same
    then show ?thesis by (simp add: region_sizes_def arenas_def holds_mapping_def)
  next
    case gone
    show ?thesis
    proof (cases "\<exists>t cm mm. l = Copied t cm mm")
      case True
      then obtain t cm mm where l: "l = Copied t cm mm" by blast
      then have "arena_destroy s t = Inr s'" "own s t 0" "\<not> holds_mapping (c, l')"
        using step knows by (auto simp: then_run_Inr holds_mapping_def leaks_def late_def)
      moreover from this have "region_sizes s = add_mset 8388640 (region_sizes s')"
        using sizes_remove1 [OF destroy_regions(2) [OF tidy]] destroy_regions(1) [OF tidy] unfolding region_sizes_def by metis
      ultimately show ?thesis using gone by (simp add: arenas_def holds_mapping_def)
    next
      case False
      then have "regions s' = regions s" using late_regions [OF k rr knows tidy gone(2) step gone(1)] by blast
      moreover have "holds_mapping (c, l')"
        using late_step [OF knows step gone(2,1)] False started gone(2) by (auto simp: holds_mapping_def leaks_def late_def)
      ultimately show ?thesis using gone by (simp add: region_sizes_def holds_mapping_def arenas_def)
    qed
  next
    case none
    have "holds_mapping (c, l') = holds_mapping (c, l)"
      using none(1,2) step knows cpu_read_null
      by (cases l) (auto simp: holds_mapping_def leaks_def late_def start_step_def create_step_def then_run_Inr
          andthen_eq_Inr in_place_def arena_region_def split: if_splits rpc.splits dest: own_nonzero)
    then show ?thesis using none by (simp add: region_sizes_def)
  qed
qed

lemma in_flight_in_time:
  assumes "interleave (call_step k ar rr) cs Called s0 ls s" and "j < length cs"
  shows "ls ! j = Called \<or> (\<exists>st rep. ls ! j = Answered st rep) \<or>
    \<not> deadline (call_context (cs ! j)) < call_clock (cs ! j) 0"
  using assms(1)
proof induction
  case (interleave_step ls s i l' s')
  show ?case
  proof (cases "j = i")
    case True
    then show ?thesis
      using interleave_step interleave_length [OF interleave_step(1)] assms(2)
      by (cases "ls ! i") (auto simp: start_step_def andthen_eq_Inr split: if_splits)
  qed (use interleave_step.IH in simp)
qed (use assms(2) in simp)

lemma filter_update_sizes:
  assumes "i < length xs" and "M' + arenas (P (xs ! i)) = M + arenas (P x)"
    and "M = M0 + replicate_mset (length (filter P xs)) 8388640"
  shows "M' = M0 + replicate_mset (length (filter P (xs[i := x]))) 8388640"
proof -
  have "xs = take i xs @ xs ! i # drop (Suc i) xs" using assms(1) by (rule id_take_nth_drop)
  then have "length (filter P xs) = length (filter P (take i xs @ xs ! i # drop (Suc i) xs))" by simp
  then have "M + arenas (P x) = M0 + replicate_mset (length (filter P (xs[i := x]))) 8388640 + arenas (P (xs ! i))"
    unfolding upd_conv_take_nth_drop [OF assms(1)] assms(3) by (simp add: arenas_def)
  then show ?thesis using assms(2) by simp
qed

section \<open>Properties\<close>

text \<open>The memory reader gives one value, in whatever state it returns.\<close>

definition ram_answers :: "ram_reader \<Rightarrow> sys_memory \<Rightarrow> bool" where
  "ram_answers ram_read v \<longleftrightarrow>
     (\<forall>s m e v' s'. sane s \<longrightarrow> ram_read s (Some m) = Inr (e, v', s') \<longrightarrow> v' = v)"

text \<open>C3: however the calls in flight are interleaved, an answer is the call's own: an answer OK carries exactly
  the CPU fields and the memory numbers that the readers give for the call's files, and any other answer is empty.
  No call sees bytes of another.\<close>

theorem interleaved_answers:
  assumes "kernel_ok k" and "\<forall>fs. ram_reader_frame (rr fs)" and "tidy s0"
    and "interleave (call_step k ar rr) cs Called s0 ls s"
    and "i < length cs" and "ls ! i = Answered st rep" and "c = cs ! i"
  shows "if st = OK then
      (if call_method c = Rpc_memory then reply_cpu rep = None
       else \<exists>e v. cpu_read ar (call_files c) (Some zero_cpu) = Some (Inr (e, v)) \<and>
         (cpu_strings_end v \<longrightarrow> reply_cpu rep = Some (cpu_message_of v))) \<and>
      (if call_method c = Rpc_cpu then reply_memory rep = None
       else \<forall>v. ram_answers (rr (call_files c)) v \<longrightarrow> reply_memory rep = Some (memory_message_of v))
    else rep = empty_reply"
proof -
  have "agent k rr" using assms(1,2) by (simp add: agent_def)
  note right = agent.answer_knows [OF this assms(4,3,5,6), folded assms(7)]
  show ?thesis
  proof (cases "st = OK")
    case True
    then have r: "right_answer ar rr c (reply_cpu rep) (reply_memory rep)" using right by simp
    have "right_memory rr c mm \<Longrightarrow> ram_answers (rr (call_files c)) v \<Longrightarrow> mm = Some (memory_message_of v)" for mm v
      unfolding right_memory_def ram_answers_def by blast
    then show ?thesis using True r by (auto simp: right_answer_def right_cpu_def)
  next
    case False
    then show ?thesis using right by simp
  qed
qed

text \<open>A whole call between two steps of another.\<close>

lemma run_call_interleaves:
  assumes "run_call k ar rr (cs ! i) n l s = Some (Inr (st, rep, s'))" and "i < length cs"
    and "interleave (call_step k ar rr) cs Called s0 ls s" and "ls ! i = l"
  shows "interleave (call_step k ar rr) cs Called s0 (ls[i := Answered st rep]) s'"
  using assms
proof (induction n arbitrary: l ls s)
  case 0
  then have "l = Answered st rep" "s' = s" by (cases l; simp)+
  then show ?case using "0.prems"(3,4) list_update_id [of ls i] by simp
next
  case (Suc n)
  show ?case
  proof (cases "\<exists>st rep. l = Answered st rep")
    case True
    then have "l = Answered st rep" "s' = s" using Suc.prems(1) by auto
    then show ?thesis using Suc.prems(3,4) list_update_id [of ls i] by simp
  next
    case False
    then obtain l1 s1 where l1: "call_step k ar rr (cs ! i) l s = Some (Inr (l1, s1))"
        "run_call k ar rr (cs ! i) n l1 s1 = Some (Inr (st, rep, s'))"
      using Suc.prems(1) by (cases l) (auto simp: then_run_Inr simp del: call_step.simps)
    have i: "i < length ls" using interleave_length [OF Suc.prems(3)] Suc.prems(2) by simp
    have "interleave (call_step k ar rr) cs Called s0 (ls[i := l1]) s1"
      using interleave_step [OF Suc.prems(3,2)] l1(1) Suc.prems(4) by simp
    from Suc.IH [OF l1(2) Suc.prems(2) this] i show ?thesis by simp
  qed
qed

text \<open>A call of \<open>GetCpu\<close> that runs while another call has just mapped its arena.\<close>

definition demo_cpu_call :: rpc_call where
  "demo_cpu_call = \<lparr>call_method = Rpc_cpu, call_context = demo_context, call_clock = (\<lambda>i. 0), call_files = demo_files\<rparr>"

lemma demo_first_step:
  obtains s t where "interleave (call_step page_kernel X86_64 (sys_ram_read page_kernel)) [demo_late_call, demo_cpu_call]
      Called empty_os [Mapped 4096, Called] s" and "regions s = [(4096, 8388640)]" and "page_kernel s 8388640 = Some t"
proof -
  let ?step = "call_step page_kernel X86_64 (sys_ram_read page_kernel)"
  let ?cs = "[demo_late_call, demo_cpu_call]"
  obtain s1 where s1: "arena_create page_kernel empty_os (MiB 8) = Inr (4096, s1)"
      "regions s1 = (unat (4096 :: u64), 8388640) # regions empty_os"
    by (rule handler_arena [OF page_kernel_ok page_kernel_8M])
  have "?step (?cs ! 0) ([Called, Called] ! 0) empty_os = Some (Inr (Mapped 4096, s1))"
    using s1(1) by (simp add: start_step_def demo_late_call_def demo_context_def)
  from interleave_step [OF interleave_start, of 0 ?cs ?step Called empty_os] this
  have one: "interleave ?step ?cs Called empty_os [Mapped 4096, Called] s1" by simp
  have r: "regions s1 = [(4096, 8388640)]" using s1(2) by (simp add: empty_os_def)
  obtain t where "page_kernel s1 8388640 = Some t"
    using s1(2) by (auto simp: page_kernel_def end_of_regions_def empty_os_def Let_def)
  from that [OF one r this] show ?thesis .
qed

lemma demo_mapped:
  obtains s t where "interleave (call_step page_kernel X86_64 (sys_ram_read page_kernel)) [demo_late_call, demo_cpu_call]
      Called empty_os [Mapped 4096, Mapped t] s" and "t \<noteq> 0"
proof -
  obtain s1 t where one: "interleave (call_step page_kernel X86_64 (sys_ram_read page_kernel))
      [demo_late_call, demo_cpu_call] Called empty_os [Mapped 4096, Called] s1" and "regions s1 = [(4096, 8388640)]" and t: "page_kernel s1 8388640 = Some t"
    by (rule demo_first_step)
  obtain s2 where s2: "arena_create page_kernel s1 (MiB 8) = Inr (t, s2)"
    by (rule handler_arena [OF page_kernel_ok t])
  have two: "(1 :: nat) < length [demo_late_call, demo_cpu_call]" by simp
  have "call_step page_kernel X86_64 (sys_ram_read page_kernel) ([demo_late_call, demo_cpu_call] ! 1)
      ([Mapped 4096, Called] ! 1) s1 = Some (Inr (Mapped t, s2))"
    using s2 by (simp add: start_step_def demo_cpu_call_def demo_context_def)
  from interleave_step [OF one two this] that kernel_okD(1) [OF page_kernel_ok t] show ?thesis by simp
qed

lemma demo_interleaving:
  obtains s rep where "interleave (call_step page_kernel X86_64 (sys_ram_read page_kernel)) [demo_late_call, demo_cpu_call]
      Called empty_os [Mapped 4096, Answered OK rep] s"
proof -
  obtain s1 t where one: "interleave (call_step page_kernel X86_64 (sys_ram_read page_kernel))
      [demo_late_call, demo_cpu_call] Called empty_os [Mapped 4096, Called] s1" and "regions s1 = [(4096, 8388640)]" and t: "page_kernel s1 8388640 = Some t"
    by (rule demo_first_step)
  have "\<not> is_cancelled demo_context" "(\<lambda>i :: nat. 0) 0 \<le> deadline demo_context" by (simp_all add: demo_context_def)
  from get_cpu_run [where fs = demo_files and clock = "\<lambda>i. 0", OF page_kernel_ok t this demo_cpu_read demo_cpu_strings]
  obtain rep s2 where "GetCpu page_kernel X86_64 demo_files demo_context (\<lambda>i. 0) s1 empty_reply = Some (Inr (OK, rep, s2))"
    by blast
  then have "run_call page_kernel X86_64 (sys_ram_read page_kernel) ([demo_late_call, demo_cpu_call] ! 1) 8 Called s1 =
      Some (Inr (OK, rep, s2))"
    by (simp add: handler_steps dispatch_def demo_cpu_call_def del: run_call.simps)
  from run_call_interleaves [OF this _ one] that show ?thesis by simp
qed

lemma tidy_empty: "tidy empty_os"
  by (simp add: tidy_def sane_alt empty_os_def)

theorem interleaved_answers_witness:
  "\<exists>s rep m. interleave (call_step page_kernel X86_64 (sys_ram_read page_kernel)) [demo_late_call, demo_cpu_call]
      Called empty_os [Mapped 4096, Answered OK rep] s \<and>
    reply_cpu rep = Some m \<and> msg_vendor m = ''GenuineIntel'' \<and> reply_memory rep = None"
proof -
  obtain s rep where i: "interleave (call_step page_kernel X86_64 (sys_ram_read page_kernel))
      [demo_late_call, demo_cpu_call] Called empty_os [Mapped 4096, Answered OK rep] s"
    by (rule demo_interleaving)
  have rr: "\<forall>fs. ram_reader_frame (sys_ram_read page_kernel fs)"
    by (simp add: sys_ram_read_frame [OF page_kernel_ok])
  have v: "c_str (vendor demo_cpu) = ''GenuineIntel''"
    by (simp add: demo_cpu_def overlay_def c_str_def numeral_eq_Suc)
  have "reply_cpu rep = Some (cpu_message_of demo_cpu) \<and> reply_memory rep = None"
    using interleaved_answers [OF page_kernel_ok rr tidy_empty i, of 1 OK rep demo_cpu_call]
      demo_cpu_read demo_cpu_strings by (simp add: demo_cpu_call_def)
  then show ?thesis
    using i v by (intro exI [of _ s] exI [of _ rep] exI [of _ "cpu_message_of demo_cpu"]) (simp add: cpu_message_of_def)
qed

text \<open>C5: and they stay out of each other's way: the arenas of calls in flight never overlap, and whatever was mapped
  before they started is still mapped and unchanged, byte for byte.\<close>

theorem interleaved_apart:
  assumes "kernel_ok k" and "\<forall>fs. ram_reader_frame (rr fs)" and "tidy s0"
    and "interleave (call_step k ar rr) cs Called s0 ls s"
  shows "(\<forall>i < length cs. \<forall>j < length cs. \<forall>r q. i \<noteq> j \<longrightarrow>
      stage_mapping (ls ! i) = Some r \<longrightarrow> stage_mapping (ls ! j) = Some q \<longrightarrow> apart_regions r q) \<and>
    (\<forall>r \<in> set (regions s0). r \<in> set (regions s) \<and> (\<forall>x. in_region r x \<longrightarrow> mem s x = mem s0 x) \<and>
      (\<forall>i < length cs. \<forall>q. stage_mapping (ls ! i) = Some q \<longrightarrow> apart_regions r q))"
proof -
  have "agent k rr" using assms(1,2) by (simp add: agent_def)
  note t = agent.calls_safe [OF this assms(4,3), unfolded together_def]
  have tidy: "tidy s" using t by blast
  have "apart_regions r q"
    if "i < length cs" "j < length cs" "i \<noteq> j" "stage_mapping (ls ! i) = Some r" "stage_mapping (ls ! j) = Some q"
    for i j r q
  proof (rule tidy_apart [OF tidy])
    show "r \<in> set (regions s)" "q \<in> set (regions s)" using t that by blast+
    show "r \<noteq> q" using t that by fastforce
  qed
  moreover have "apart_regions r q"
    if "r \<in> set (regions s0)" "i < length cs" "stage_mapping (ls ! i) = Some q" for r i q
  proof (rule tidy_apart [OF tidy])
    show "r \<in> set (regions s)" "q \<in> set (regions s)" "r \<noteq> q" using t that by blast+
  qed
  ultimately show ?thesis using t by blast
qed

theorem interleaved_apart_witness:
  "\<exists>s t. interleave (call_step page_kernel X86_64 (sys_ram_read page_kernel)) [demo_late_call, demo_cpu_call]
      Called empty_os [Mapped 4096, Mapped t] s \<and> apart_regions (4096, 8388640) (unat t, 8388640)"
proof -
  obtain s t where i: "interleave (call_step page_kernel X86_64 (sys_ram_read page_kernel))
      [demo_late_call, demo_cpu_call] Called empty_os [Mapped 4096, Mapped t] s" "t \<noteq> 0"
    by (rule demo_mapped)
  have rr: "\<forall>fs. ram_reader_frame (sys_ram_read page_kernel fs)"
    by (simp add: sys_ram_read_frame [OF page_kernel_ok])
  have two: "0 < length [demo_late_call, demo_cpu_call]" "1 < length [demo_late_call, demo_cpu_call]" "(0 :: nat) \<noteq> 1"
    by simp_all
  have "apart_regions (unat (4096 :: u64), 8388640) (unat t, 8388640)"
    by (rule conjunct1 [OF interleaved_apart [OF page_kernel_ok rr tidy_empty i(1)], rule_format, OF two])
      (simp_all add: arena_region_def i(2))
  then show ?thesis using i(1) by auto
qed

text \<open>C4: over any interleaving of calls the address space holds what the agent started with and one mapping of 8
  MiB and a header for each call that works in its arena or was a \<open>GetSystemResources\<close> answered late, nothing else.\<close>

theorem interleaved_regions:
  assumes "kernel_ok k" and "\<forall>fs. ram_reader_frame (rr fs)" and "tidy s0"
    and "interleave (call_step k ar rr) cs Called s0 ls s"
  shows "set (regions s0) \<subseteq> set (regions s) \<and>
    region_sizes s = region_sizes s0 + replicate_mset (length (filter holds_mapping (zip cs ls))) 8388640"
proof -
  have a: "agent k rr" using assms(1,2) by (simp add: agent_def)
  have "region_sizes s = region_sizes s0 + replicate_mset (length (filter holds_mapping (zip cs ls))) 8388640"
    using assms(4)
  proof induction
    case interleave_start
    have "\<not> holds_mapping x" if "x \<in> set (zip cs (replicate (length cs) Called))" for x
      using that by (auto simp: holds_mapping_def set_zip)
    then have "filter holds_mapping (zip cs (replicate (length cs) Called)) = []" by simp
    then show ?case by simp
  next
    case (interleave_step ls s i l' s')
    note t = agent.calls_safe [OF a interleave_step(1) assms(3)]
    have n: "zip cs ls ! i = (cs ! i, ls ! i)" "i < length (zip cs ls)"
      using interleave_step(2) interleave_length [OF interleave_step(1)] by simp_all
    have "region_sizes s' + arenas (holds_mapping (cs ! i, ls ! i)) = region_sizes s + arenas (holds_mapping (cs ! i, l'))"
      using step_sizes [OF assms(1,2) _ _ _ interleave_step(3)] t interleave_step(2)
        in_flight_in_time [OF interleave_step(1,2)] unfolding together_def by blast
    from filter_update_sizes [OF n(2) _ interleave_step.IH, unfolded n(1), OF this]
    show ?case using zip_update [of cs i "cs ! i" ls l'] by simp
  qed
  then show ?thesis using agent.calls_safe [OF a assms(4,3)] unfolding together_def by blast
qed

theorem interleaved_regions_witness:
  "\<exists>s rep. interleave (call_step page_kernel X86_64 (sys_ram_read page_kernel)) [demo_late_call, demo_cpu_call]
      Called empty_os [Mapped 4096, Answered OK rep] s \<and> region_sizes s = {#8388640#}"
proof -
  obtain s rep where i: "interleave (call_step page_kernel X86_64 (sys_ram_read page_kernel))
      [demo_late_call, demo_cpu_call] Called empty_os [Mapped 4096, Answered OK rep] s"
    by (rule demo_interleaving)
  have rr: "\<forall>fs. ram_reader_frame (sys_ram_read page_kernel fs)"
    by (simp add: sys_ram_read_frame [OF page_kernel_ok])
  have n: "filter holds_mapping (zip [demo_late_call, demo_cpu_call] [Mapped 4096, Answered OK rep]) =
      [(demo_late_call, Mapped 4096)]"
    by (simp add: holds_mapping_def leaks_def late_def arena_region_def)
  have "region_sizes s = {#8388640#}"
    using interleaved_regions [OF page_kernel_ok rr tidy_empty i] unfolding n by (simp add: region_sizes_def empty_os_def)
  then show ?thesis using i by blast
qed
text \<open>C7: no call waits for another: a call whose files can be read, and which works in its arena or can still get
  one, can take its next step whatever the others do, and every step brings it nearer to its answer, in at most eight.\<close>

theorem in_flight_progress:
  assumes "kernel_ok k" and "\<forall>fs. ram_reader_frame (rr fs)" and "tidy s0"
    and i: "interleave (call_step k ar rr) cs Called s0 ls s" "i < length cs" and "can_read ar rr (cs ! i) s"
    and live: "ls ! i = Called \<and> k s 8388640 \<noteq> None \<or> stage_mapping (ls ! i) \<noteq> None"
  shows "\<exists>l' s'. interleave (call_step k ar rr) cs Called s0 (ls[i := l']) s' \<and> rank l' < rank (ls ! i)"
proof -
  have "agent k rr" using assms(1,2) by (simp add: agent_def)
  from agent.calls_safe [OF this i(1) assms(3)] i(2)
  have "call_knows ar rr (cs ! i) (ls ! i) s" "tidy s" unfolding together_def by blast+
  from step_returns [where rr = rr, OF assms(1,2) this assms(6) live]
  obtain l' s' where step: "call_step k ar rr (cs ! i) (ls ! i) s = Some (Inr (l', s'))" by blast
  have "rank (ls ! i) \<noteq> 0" using live by (cases "ls ! i") auto
  from step_rank [OF step this] interleave_step [OF i step] show ?thesis by blast
qed

lemma demo_can_read:
  assumes "regions s = [(4096, 8388640)]" and "call_files c = demo_files"
  shows "can_read X86_64 (sys_ram_read page_kernel) c s"
proof -
  have "\<exists>r. sys_ram_read page_kernel demo_files s (Some m) = Inr r" for m
    using demo_ram assms(1) unfolding ram_reader_gives_def by (simp add: empty_os_def) blast
  moreover have "demo_files ''/proc/partitions'' \<noteq> None" by (simp add: demo_files_def)
  ultimately show ?thesis
    using demo_cpu_read demo_cpu_strings demo_device_read unfolding can_read_def assms(2) by blast
qed

theorem in_flight_progress_witness:
  "\<exists>s l' s'. interleave (call_step page_kernel X86_64 (sys_ram_read page_kernel)) [demo_late_call, demo_cpu_call]
      Called empty_os [Mapped 4096, Called] s \<and>
    interleave (call_step page_kernel X86_64 (sys_ram_read page_kernel)) [demo_late_call, demo_cpu_call]
      Called empty_os [l', Called] s' \<and> rank l' < 7"
proof -
  obtain s and t :: u64 where i: "interleave (call_step page_kernel X86_64 (sys_ram_read page_kernel))
      [demo_late_call, demo_cpu_call] Called empty_os [Mapped 4096, Called] s" and r: "regions s = [(4096, 8388640)]"
    by (rule demo_first_step)
  have rr: "\<forall>fs. ram_reader_frame (sys_ram_read page_kernel fs)"
    by (simp add: sys_ram_read_frame [OF page_kernel_ok])
  have n: "0 < length [demo_late_call, demo_cpu_call]" by simp
  have c: "can_read X86_64 (sys_ram_read page_kernel) ([demo_late_call, demo_cpu_call] ! 0) s"
    by (rule demo_can_read [OF r]) (simp add: demo_late_call_def)
  show ?thesis
    using in_flight_progress [OF page_kernel_ok rr tidy_empty i n c] i by (auto simp: arena_region_def)
qed
text \<open>The memory reader of the sources is one that gives one value.\<close>

lemma sys_ram_read_answers:
  assumes k: "kernel_ok k" and f: "fs ''/proc/meminfo'' = Some f"
    and bufs: "bufs = fgets_lines BUFF_SMALL f" "values_length bufs \<le> 8192"
    and vs: "mem_values ''MemTotal'' bufs \<noteq> []" "mem_values ''MemFree'' bufs \<noteq> []"
      "last (mem_values ''MemTotal'' bufs) \<noteq> []"
  shows "ram_answers (sys_ram_read k fs)
    \<lparr>mem_total = leading_number (last (mem_values ''MemTotal'' bufs)),
     mem_free = leading_number (last (mem_values ''MemFree'' bufs))\<rparr>"
  unfolding ram_answers_def
proof (intro allI impI)
  fix s m e v s'
  assume sane: "sane s" and run: "sys_ram_read k fs s (Some m) = Inr (e, v, s')"
  show "v = \<lparr>mem_total = leading_number (last (mem_values ''MemTotal'' bufs)),
      mem_free = leading_number (last (mem_values ''MemFree'' bufs))\<rparr>"
  proof (cases "k s 8224")
    case None
    then have "arena_create k s (KiB 8) = Inr (0, s)" by (intro arena_create_fail) simp
    then obtain tot fre s1 where "meminfo_lines bufs s 0 None None = Inr (tot, fre, s1)"
      using run f bufs(1) by (auto simp: sys_ram_read_def andthen_eq_Inr)
    from meminfo_lines_null_values [OF sane this last_in_set [OF vs(1)]] vs(3) show ?thesis by simp
  next
    case (Some t)
    obtain s2 where "sys_ram_read k fs s (Some m) = Inr (ERR_OK,
        \<lparr>mem_total = leading_number (last (mem_values ''MemTotal'' bufs)),
         mem_free = leading_number (last (mem_values ''MemFree'' bufs))\<rparr>, s2)"
      by (rule sys_ram_read_run [where fs = fs and m = m, OF k Some f bufs vs(1,2)])
    then show ?thesis using run by simp
  qed
qed

end
