(* ===== verification/File_Io.thy ===== *)
theory File_Io
  imports Resources Arena Parse
begin

text \<open>
  The system call \<open>read\<close> on an open regular file, and the string comparison of
  \<open>base/base_parse.c\<close> on a buffer that lies in the byte store. An open file is what is left to read
  of it. Closing a file has no effect the code can see.
\<close>

section \<open>Reading into memory\<close>

text \<open>\<open>read(fd, p, n)\<close>: the number of bytes copied, 0 at the end of the file, or \<open>-1\<close>
  (\<open>EFAULT\<close>) when the bytes do not fit the memory at \<open>p\<close>.\<close>

definition sys_read :: "os \<Rightarrow> char list \<Rightarrow> u64 \<Rightarrow> nat \<Rightarrow> u64 \<times> char list \<times> os" where
  "sys_read s fd p n =
     (let bs = take n fd in
      if accessible s (unat p) (length bs)
      then (of_nat (length bs), drop n fd, s\<lparr>mem := mem_write (unat p) bs (mem s)\<rparr>)
      else (- 1, fd, s))"

fun compare_from_at :: "nat \<Rightarrow> os \<Rightarrow> u64 \<Rightarrow> char list \<Rightarrow> u8 run" where
  "compare_from_at 0 s c1 c2 = Inr 0"
| "compare_from_at (Suc n) s c1 [] = Inl Bad_read"
| "compare_from_at (Suc n) s c1 (y # ys) =
     andthen (load8 s c1) (\<lambda>x. if x \<noteq> y then Inr (- 1) else compare_from_at n s (c1 + 1) ys)"

definition compare_string_at :: "os \<Rightarrow> u64 \<Rightarrow> char list \<Rightarrow> u8 run" where
  "compare_string_at s c1 c2 = compare_from_at (Suc sizeof_char) s c1 c2"

section \<open>Their results\<close>

lemma sys_read_run:
  assumes "accessible s (unat p) n"
  shows "sys_read s fd p n =
    (of_nat (length (take n fd)), drop n fd, s\<lparr>mem := mem_write (unat p) (take n fd) (mem s)\<rparr>)"
  using accessible_sub [OF assms, of "unat p" "length (take n fd)"] by (simp add: sys_read_def)

lemma load8_run: "accessible s (unat p) 1 \<Longrightarrow> load8 s p = Inr (mem s (unat p))"
  by (simp add: load8_def)

text \<open>On mapped memory it is \<^const>\<open>compare_string\<close> of the bytes there.\<close>

lemma compare_string_at_eq:
  assumes "accessible s (unat p) n" and "2 \<le> n" and "unat p + n < 18446744073709551616"
  shows "compare_string_at s p t = compare_string (mem_read (mem s) (unat p) n) t"
proof -
  obtain m where n: "n = Suc (Suc m)" using assms(2) by (metis add_2_eq_Suc le_add_diff_inverse)
  have u: "unat (p + 1) = Suc (unat p)" using assms(2,3) by (simp add: unat_add_nowrap)
  have "accessible s (unat p) 1" "accessible s (unat (p + 1)) 1"
    using assms(1,2) u by (auto intro: accessible_sub)
  then show ?thesis
    unfolding n mem_read_Suc compare_string_at_def compare_string_def sizeof_char_def
    by (cases t; cases "tl t") (auto simp: load8_run u)
qed

end
