(* ===== verification/Net.thy ===== *)
theory Net
  imports File_Io
begin

text \<open>
  \<open>libnet/net.cc\<close>: the two port readers. They differ in the file they open; \<open>port_read\<close> is the
  body they share. The loop reads one byte at a time into the start of a zeroed buffer for as long as
  the buffer holds exactly a newline; it may not end, so it is an option and looping is
  \<^const>\<open>None\<close>.
\<close>

section \<open>Operations\<close>

partial_function (option) skip_newlines :: "os \<Rightarrow> char list \<Rightarrow> u64 \<Rightarrow> os run option" where
  "skip_newlines s fd buffer =
     (let (_, fd1, s1) = sys_read s fd buffer 1;
          r = compare_string_at s1 buffer [NL, NUL] in
      if r = Inr 0 then skip_newlines s1 fd1 buffer
      else Some (andthen r (\<lambda>_. Inr s1)))"

definition port_read :: "string \<Rightarrow> kernel \<Rightarrow> files \<Rightarrow> os \<Rightarrow> u64 \<Rightarrow> (err_code \<times> os) run option" where
  "port_read path k fs s device =
     (if device = 0 then Some (Inr (ERR_INVALID, s))
      else then_run (Some (arena_create k s (KiB 8))) (\<lambda>(temp_arena, s).
        case fs path of
          None \<Rightarrow> Some (Inr (ERR_IO, s))
        | Some fd \<Rightarrow>
            then_run (Some (arena_alloc s temp_arena (of_nat BUFF_SMALL))) (\<lambda>(buffer, s).
            then_run (skip_newlines s fd buffer) (\<lambda>s.
            then_run (Some (arena_destroy s temp_arena)) (\<lambda>s. Some (Inr (ERR_OK, s)))))))"

definition port_read_tcp4 :: "kernel \<Rightarrow> files \<Rightarrow> os \<Rightarrow> u64 \<Rightarrow> (err_code \<times> os) run option" where
  "port_read_tcp4 k fs s device = port_read ''/etc/tcp'' k fs s device"

definition port_read_tcp6 :: "kernel \<Rightarrow> files \<Rightarrow> os \<Rightarrow> u64 \<Rightarrow> (err_code \<times> os) run option" where
  "port_read_tcp6 k fs s device = port_read ''/etc/tcp6'' k fs s device"

text \<open>The loop ends on a file that is empty or has a byte other than a newline.\<close>

definition ends_on :: "char list \<Rightarrow> bool" where
  "ends_on fd \<longleftrightarrow> fd = [] \<or> list_ex (\<lambda>c. c \<noteq> NL) fd"

section \<open>The loop\<close>

text \<open>The buffer: two bytes in mapped memory, the second one zero.\<close>

definition buffer_ready :: "os \<Rightarrow> u64 \<Rightarrow> bool" where
  "buffer_ready s p \<longleftrightarrow> accessible s (unat p) 2 \<and> unat p + 2 < 18446744073709551616 \<and>
     mem s (Suc (unat p)) = NUL"

lemma buffer_ready_write [simp]:
  "buffer_ready s p \<Longrightarrow> length bs \<le> 1 \<Longrightarrow> buffer_ready (s\<lparr>mem := mem_write (unat p) bs (mem s)\<rparr>) p"
  by (simp add: buffer_ready_def mem_outside_write)

lemma compare_newline:
  assumes "buffer_ready s p"
  shows "compare_string_at s p [NL, NUL] = Inr (if mem s (unat p) = NL then 0 else - 1)"
  using assms compare_string_at_eq [of s p 2 "[NL, NUL]"]
  by (auto simp: buffer_ready_def compare_string_def sizeof_char_def numeral_2_eq_2 mem_read_Suc)

lemma sys_read_byte:
  assumes "buffer_ready s p"
  shows "sys_read s fd p (Suc 0) =
    (case fd of [] \<Rightarrow> (0, [], s) | c # cs \<Rightarrow> (1, cs, s\<lparr>mem := mem_write (unat p) [c] (mem s)\<rparr>))"
  using assms sys_read_run [of s p 1 fd] accessible_sub [of s "unat p" 2 "unat p" 1]
  by (cases fd) (auto simp: buffer_ready_def)

lemma skip_newlines_step:
  assumes "buffer_ready s p"
  shows "skip_newlines s (c # cs) p =
    (let s1 = s\<lparr>mem := mem_write (unat p) [c] (mem s)\<rparr> in
     if c = NL then skip_newlines s1 cs p else Some (Inr s1))"
proof -
  let ?s1 = "s\<lparr>mem := mem_write (unat p) [c] (mem s)\<rparr>"
  have "mem ?s1 (unat p) = c" by (simp add: mem_write_def)
  then show ?thesis
    using compare_newline [of ?s1 p] assms
    by (subst skip_newlines.simps) (simp add: sys_read_byte Let_def)
qed

lemma skip_newlines_ends:
  "buffer_ready s p \<Longrightarrow> list_ex (\<lambda>c. c \<noteq> NL) fd \<Longrightarrow>
   \<exists>c. skip_newlines s fd p = Some (Inr (s\<lparr>mem := mem_write (unat p) [c] (mem s)\<rparr>))"
proof (induction fd arbitrary: s)
  case (Cons c cs)
  let ?s1 = "s\<lparr>mem := mem_write (unat p) [c] (mem s)\<rparr>"
  have over: "mem_write (unat p) [d] (mem ?s1) = mem_write (unat p) [d] (mem s)" for d
    by (rule ext) (simp add: mem_write_def)
  show ?case
  proof (cases "c = NL")
    case True
    then show ?thesis
      using Cons.IH [of ?s1] Cons.prems over by (simp add: skip_newlines_step Let_def)
  next
    case False
    then show ?thesis using Cons.prems(1) by (auto simp: skip_newlines_step Let_def)
  qed
qed simp

lemma skip_newlines_empty:
  assumes "buffer_ready s p" and "mem s (unat p) \<noteq> NL"
  shows "skip_newlines s [] p = Some (Inr s)"
  using assms by (subst skip_newlines.simps) (simp add: sys_read_byte compare_newline)

text \<open>On nothing but newlines, with a newline already in the buffer at the end of the file, no
  run returns.\<close>

lemma skip_newlines_returns:
  assumes "skip_newlines s fd p = Some r"
  shows "buffer_ready s p \<longrightarrow> mem s (unat p) = NL \<longrightarrow> list_ex (\<lambda>c. c \<noteq> NL) fd"
proof (rule skip_newlines.raw_induct
    [where P = "\<lambda>s fd p r. buffer_ready s p \<longrightarrow> mem s (unat p) = NL \<longrightarrow> list_ex (\<lambda>c. c \<noteq> NL) fd",
      OF _ assms])
  fix f and s and fd :: "char list" and p :: u64 and r
  assume hyp: "\<And>s fd p r. f s fd p = Some r \<Longrightarrow>
      buffer_ready s p \<longrightarrow> mem s (unat p) = NL \<longrightarrow> list_ex (\<lambda>c. c \<noteq> NL) fd"
    and run: "(let (_, fd1, s1) = sys_read s fd p 1; r = compare_string_at s1 p [NL, NUL] in
      if r = Inr 0 then f s1 fd1 p else Some (andthen r (\<lambda>_. Inr s1))) = Some r"
  show "buffer_ready s p \<longrightarrow> mem s (unat p) = NL \<longrightarrow> list_ex (\<lambda>c. c \<noteq> NL) fd"
  proof (intro impI)
    assume rdy: "buffer_ready s p" and nl: "mem s (unat p) = NL"
    show "list_ex (\<lambda>c. c \<noteq> NL) fd"
    proof (cases fd)
      case Nil
      then have "f s [] p = Some r" using run rdy nl by (simp add: sys_read_byte compare_newline)
      then show ?thesis using hyp rdy nl Nil by blast
    next
      case (Cons c cs)
      let ?s1 = "s\<lparr>mem := mem_write (unat p) [c] (mem s)\<rparr>"
      have m: "mem ?s1 (unat p) = c" by (simp add: mem_write_def)
      show ?thesis
      proof (cases "c = NL")
        case True
        then have "f ?s1 cs p = Some r"
          using run rdy Cons m compare_newline [of ?s1 p] by (simp add: sys_read_byte Let_def)
        then show ?thesis using hyp [of ?s1 cs p r] rdy m True Cons by simp
      qed (simp add: Cons)
    qed
  qed
qed

lemma skip_newlines_iff:
  assumes "buffer_ready s p" and "mem s (unat p) \<noteq> NL"
  shows "skip_newlines s fd p = None \<longleftrightarrow> \<not> ends_on fd"
proof (cases fd)
  case Nil
  then show ?thesis using assms by (simp add: skip_newlines_empty ends_on_def)
next
  case (Cons c cs)
  let ?s1 = "s\<lparr>mem := mem_write (unat p) [c] (mem s)\<rparr>"
  have "mem ?s1 (unat p) = c" by (simp add: mem_write_def)
  then have "c = NL \<Longrightarrow> skip_newlines ?s1 cs p = None \<longleftrightarrow> \<not> list_ex (\<lambda>c. c \<noteq> NL) cs"
    using assms(1) skip_newlines_returns [of ?s1 cs p] skip_newlines_ends [of ?s1 p cs]
    by (cases "skip_newlines ?s1 cs p") auto
  then show ?thesis
    using assms(1) Cons by (auto simp: skip_newlines_step Let_def ends_on_def)
qed

lemma skip_newlines_result:
  assumes "buffer_ready s p" and "mem s (unat p) \<noteq> NL" and "ends_on fd"
  obtains bs s' where "skip_newlines s fd p = Some (Inr s')" and "length bs \<le> 1"
    and "s' = s\<lparr>mem := mem_write (unat p) bs (mem s)\<rparr>"
proof (cases fd)
  case Nil
  then show ?thesis using skip_newlines_empty [OF assms(1,2)] that [of s "[]"] by simp
next
  case (Cons c cs)
  then obtain d where "skip_newlines s fd p = Some (Inr (s\<lparr>mem := mem_write (unat p) [d] (mem s)\<rparr>))"
    using skip_newlines_ends [OF assms(1), of fd] assms(3) unfolding ends_on_def by blast
  from that [OF this, of "[d]"] show ?thesis by simp
qed

section \<open>The readers\<close>

lemma port_read_run:
  assumes k: "kernel_ok k" "k s 8224 = Some a" and dev: "device \<noteq> 0" and fd: "fs path = Some fd"
  shows "if ends_on fd
    then \<exists>s'. port_read path k fs s device = Some (Inr (ERR_OK, s')) \<and> regions s' = regions s \<and>
           (\<forall>x. x < unat a \<or> unat a + 8224 \<le> x \<longrightarrow> mem s' x = mem s x)
    else port_read path k fs s device = None"
proof -
  have k': "k s (KiB 8 + 32) = Some a" using k by simp
  obtain s1 where s1: "arena_create k s (KiB 8) = Inr (a, s1)" "arena_ok s1 a"
      "regions s1 = (unat a, 8224) # regions s" "arena_top s1 a = unat a + 32"
      "arena_room s1 a = 8192" "\<forall>x. x < unat a \<or> unat a + 8224 \<le> x \<longrightarrow> mem s1 x = mem s x"
    using arena_create_run [OF k(1) k'] by (auto simp: arena_top_def arena_room_def)
  have fit: "unat (128 :: u64) \<le> arena_room s1 a" using s1(5) by simp
  obtain p s2 where s2: "arena_alloc s1 a 128 = Inr (p, s2)" "unat p = arena_top s1 a"
      "arena_ok s2 a" "regions s2 = regions s1" "arena_base s2 a = arena_base s1 a"
      "arena_top s2 a = arena_top s1 a + 128" "arena_room s2 a = arena_room s1 a - 128"
      "mem_read (mem s2) (arena_top s1 a) 128 = replicate 128 NUL"
      "\<forall>x. x < unat a \<or> arena_top s1 a + arena_room s1 a \<le> x \<longrightarrow> mem s2 x = mem s1 x"
    by (rule arena.fresh_block [OF s1(2) fit]) simp
  have z: "mem s2 x = NUL" if "unat p \<le> x" "x < unat p + 128" for x
    using that s2(2,8) by (simp add: mem_read_zeros)
  have "accessible s2 (unat p) 2"
    using s1 s2 by (intro arena.reach [OF s2(3)]) (simp_all add: arena_base_def)
  then have rdy: "buffer_ready s2 p" and nn: "mem s2 (unat p) \<noteq> NL"
    using z [of "unat p"] z [of "Suc (unat p)"] arena.bounds [OF s2(3)] s2(2,6)
    by (simp_all add: buffer_ready_def)
  have pre: "port_read path k fs s device = then_run (skip_newlines s2 fd p) (\<lambda>s.
      then_run (Some (arena_destroy s a)) (\<lambda>s. Some (Inr (ERR_OK, s))))"
    using s1(1) s2(1) dev fd by (simp add: port_read_def BUFF_SMALL_def)
  show ?thesis
  proof (cases "ends_on fd")
    case True
    then obtain bs s3 where s3: "skip_newlines s2 fd p = Some (Inr s3)" "length bs \<le> 1"
        "s3 = s2\<lparr>mem := mem_write (unat p) bs (mem s2)\<rparr>"
      by (rule skip_newlines_result [OF rdy nn])
    have ok3: "arena_ok s3 a" "arena_top s3 a = arena_top s2 a" "arena_room s3 a = arena_room s2 a"
      using s3(2,3) s2 s1 arena.frame [OF s2(3), of "unat p" bs s3] by (simp_all add: arena_base_def)
    have "\<forall>(b, l) \<in> set (regions s). apart (unat a) 8224 b l"
      using kernel_okD(4) [OF k] by simp
    then obtain s4 where s4: "arena_destroy s3 a = Inr s4" "regions s4 = regions s" "mem s4 = mem s3"
      using arena_destroy_last [OF ok3(1), of 8224 "regions s"] s3(3) s2 s1 ok3 by auto
    have "mem s4 x = mem s x" if "x < unat a \<or> unat a + 8224 \<le> x" for x
      using that s4(3) s3(2,3) s2(2,9) s1(4,5,6) by (auto simp: mem_outside_write)
    then show ?thesis using True pre s3(1) s4 by simp
  next
    case False
    then show ?thesis using pre skip_newlines_iff [OF rdy nn, of fd] by simp
  qed
qed

lemma port_read_missing:
  assumes "kernel_ok k" "k s 8224 = Some a" and "device \<noteq> 0" and "fs path = None"
  shows "\<exists>s'. port_read path k fs s device = Some (Inr (ERR_IO, s')) \<and>
    regions s' = (unat a, 8224) # regions s"
proof -
  have "k s (KiB 8 + 32) = Some a" using assms(2) by simp
  from arena_create_run [OF assms(1) this] show ?thesis
    using assms(3,4) by (auto simp: port_read_def)
qed

section \<open>Properties\<close>

text \<open>C33: the port readers return exactly when their file is empty or has a byte other than a
  newline; then the answer is \<open>ERR_OK\<close> and the temporary arena is unmapped. On a file of newlines
  only they read the end of the file for ever. (They read \<open>/etc/tcp\<close> and \<open>/etc/tcp6\<close>.)\<close>

theorem port_read_returns:
  assumes "kernel_ok k" and "k s 8224 = Some a" and "device \<noteq> 0"
    and "fs ''/etc/tcp'' = Some fd4" and "fs ''/etc/tcp6'' = Some fd6"
  shows "(port_read_tcp4 k fs s device = None \<longleftrightarrow> \<not> ends_on fd4) \<and>
    (port_read_tcp6 k fs s device = None \<longleftrightarrow> \<not> ends_on fd6) \<and>
    (\<forall>r. port_read_tcp4 k fs s device = Some r \<or> port_read_tcp6 k fs s device = Some r \<longrightarrow>
      (\<exists>s'. r = Inr (ERR_OK, s') \<and> regions s' = regions s))"
  using port_read_run [where path = "''/etc/tcp''" and fs = fs, OF assms(1-4)]
    port_read_run [where path = "''/etc/tcp6''" and fs = fs, OF assms(1-3,5)]
  by (auto simp: port_read_tcp4_def port_read_tcp6_def split: if_splits)

definition demo_net :: files where
  "demo_net = [''/etc/tcp'' \<mapsto> [NL, CHR ''x''], ''/etc/tcp6'' \<mapsto> [NL]]"

theorem port_read_returns_witness:
  "port_read_tcp4 page_kernel demo_net empty_os 4096 \<noteq> None \<and>
   port_read_tcp6 page_kernel demo_net empty_os 4096 = None"
proof -
  have "page_kernel empty_os 8224 = Some 4096" by (intro page_kernel_empty) simp_all
  from port_read_returns [where fs = demo_net, OF page_kernel_ok this, of 4096 "[NL, CHR ''x'']" "[NL]"]
  show ?thesis by (simp add: demo_net_def ends_on_def)
qed

text \<open>When the file cannot be opened, the port readers answer \<open>ERR_IO\<close> and leave the
  temporary arena of 8224 bytes mapped; without a device they answer \<open>ERR_INVALID\<close> and
  change nothing.\<close>

theorem port_read_errors:
  assumes "kernel_ok k" and "k s 8224 = Some a" and "device \<noteq> 0" and "fs ''/etc/tcp'' = None"
  shows "(\<exists>s'. port_read_tcp4 k fs s device = Some (Inr (ERR_IO, s')) \<and>
      regions s' = (unat a, 8224) # regions s) \<and>
    port_read_tcp4 k fs s 0 = Some (Inr (ERR_INVALID, s))"
  using port_read_missing [where path = "''/etc/tcp''" and fs = fs, OF assms]
  by (simp add: port_read_tcp4_def) (simp add: port_read_def)

end
