(* ===== verification/Proc_Files.thy ===== *)
theory Proc_Files
  imports File_Io
begin

text \<open>
  \<open>parse_proc_files\<close> of \<open>base/base_parse.c\<close>: splits a file of lines \<open>key: value\<close> into an array of
  entries in an arena. A \<open>proc_file\<close> is 16 bytes, the count at offset 0 and the array at offset 8;
  a \<open>proc_entry\<close> is 32 bytes, 16 of value and then 16 of key.
\<close>

section \<open>Operations\<close>

record proc_entry =
  entry_value :: "char list"
  entry_key :: "char list"

record scan_state =
  line_start :: u64
  delim :: u64
  entry_index :: u64

definition sizeof_proc_file :: u64 where "sizeof_proc_file = 16"
definition sizeof_proc_entry :: u64 where "sizeof_proc_entry = 32"
definition off_entries :: u64 where "off_entries = 8"
definition off_key :: u64 where "off_key = 16"

lemmas proc_file_offsets [layout_simps] =
  sizeof_proc_file_def sizeof_proc_entry_def off_entries_def off_key_def

function skip_blanks :: "os \<Rightarrow> u64 \<Rightarrow> u64 \<Rightarrow> u64 \<Rightarrow> u64 run" where
  "skip_blanks s buffer index val_start =
     (if val_start < index
      then andthen (load8 s (buffer + val_start)) (\<lambda>c.
        if c = CHR '' '' \<or> c = TAB then skip_blanks s buffer index (val_start + 1)
        else Inr val_start)
      else Inr val_start)"
  by pat_completeness auto
termination
proof (relation "measure (\<lambda>(s, buffer, index, v). unat index - unat v)")
  fix s and buffer index v :: u64
  assume "v < index"
  then have "unat v < unat index" by (simp add: word_less_nat_alt)
  moreover from this have "unat (v + 1) = unat v + 1"
    using unat_less_2_64 [of index] by (simp add: unat_add_nowrap)
  ultimately show "((s, buffer, index, v + 1), s, buffer, index, v) \<in>
      measure (\<lambda>(s, buffer, index, v). unat index - unat v)" by simp
qed simp

declare skip_blanks.simps [simp del]

text \<open>The lengths that fit a field of 16 bytes with its terminator.\<close>

definition clip :: "u64 \<Rightarrow> u64" where
  "clip n = (if 16 \<le> n then 15 else n)"

definition store_entry :: "os \<Rightarrow> u64 \<Rightarrow> u64 \<Rightarrow> u64 \<Rightarrow> scan_state \<Rightarrow> os run" where
  "store_entry s pf buffer index st =
     (let key_len = clip (delim st - line_start st) in
      andthen (skip_blanks s buffer index (delim st + 1)) (\<lambda>val_start.
      let val_len = clip (index - val_start) in
      andthen (load64 s (pf + off_entries)) (\<lambda>entries.
      let e = entries + entry_index st * sizeof_proc_entry in
      andthen (memmove s (e + off_key) (buffer + line_start st) (key_len - 1)) (\<lambda>s.
      andthen (memmove s e (buffer + val_start) val_len) (\<lambda>s.
      andthen (store8 s (e + off_key + key_len) NUL) (\<lambda>s.
      andthen (store8 s (e + val_len) NUL) (\<lambda>s.
      andthen (load32 s pf) (\<lambda>count.
      if count = 2147483647 then Inl Signed_overflow else store32 s pf (count + 1)))))))))"

definition scan_byte :: "os \<Rightarrow> u64 \<Rightarrow> u64 \<Rightarrow> u64 \<Rightarrow> scan_state \<Rightarrow> (scan_state \<times> os) run" where
  "scan_byte s pf buffer index st =
     andthen (load8 s (buffer + index)) (\<lambda>c.
     if c = CHR '':'' \<and> delim st = - 1 then Inr (st\<lparr>delim := index\<rparr>, s)
     else if c = NL then
       (if delim st \<noteq> - 1
        then andthen (store_entry s pf buffer index st) (\<lambda>s.
          Inr (\<lparr>line_start = index + 1, delim = - 1, entry_index = entry_index st + 1\<rparr>, s))
        else Inr (st\<lparr>line_start := index + 1, delim := - 1\<rparr>, s))
     else Inr (st, s))"

text \<open>\<open>for (index = 0; index < bytes; ++index)\<close>, with the number of rounds left.\<close>

fun scan_bytes :: "nat \<Rightarrow> os \<Rightarrow> u64 \<Rightarrow> u64 \<Rightarrow> u64 \<Rightarrow> scan_state \<Rightarrow> os run" where
  "scan_bytes 0 s pf buffer index st = Inr s"
| "scan_bytes (Suc n) s pf buffer index st =
     andthen (scan_byte s pf buffer index st) (\<lambda>(st, s). scan_bytes n s pf buffer (index + 1) st)"

definition parse_proc_files :: "files \<Rightarrow> os \<Rightarrow> string option \<Rightarrow> u64 \<Rightarrow> (u64 \<times> os) run" where
  "parse_proc_files fs s path a = (case path of
     None \<Rightarrow> Inr (0, s)
   | Some path \<Rightarrow>
     if a = 0 then Inr (0, s)
     else case fs path of
       None \<Rightarrow> Inr (0, s)
     | Some fd \<Rightarrow>
         andthen (arena_alloc s a (KiB 4)) (\<lambda>(buffer, s).
         let (bytes, _, s) = sys_read s fd buffer (unat (KiB 4)) in
         if bytes = 0 then Inr (0, s)
         else
           andthen (arena_alloc s a sizeof_proc_file) (\<lambda>(pf, s).
           andthen (arena_alloc s a (sizeof_proc_entry * 256)) (\<lambda>(entries, s).
           andthen (store64 s (pf + off_entries) entries) (\<lambda>s.
           andthen (scan_bytes (unat bytes) s pf buffer 0
                      \<lparr>line_start = 0, delim = - 1, entry_index = 0\<rparr>) (\<lambda>s.
           Inr (pf, s)))))))"

section \<open>What the entries are\<close>

definition pad16 :: "char list \<Rightarrow> char list" where
  "pad16 v = v @ replicate (16 - length v) NUL"

text \<open>The key loses its last character: \<open>key_len - 1\<close> of its \<open>key_len\<close> bytes are copied.\<close>

definition line_entry :: "char list \<Rightarrow> proc_entry" where
  "line_entry line =
     (let key = takeWhile (\<lambda>c. c \<noteq> CHR '':'') line;
          val = dropWhile (\<lambda>c. c = CHR '' '' \<or> c = TAB) (drop (Suc (length key)) line) in
      \<lparr>entry_value = pad16 (take 15 val), entry_key = pad16 (butlast (take 15 key))\<rparr>)"

text \<open>The entry the code leaves where \<open>old\<close> was: four writes, none of which reaches the byte before the key's end.\<close>

definition put_entry :: "proc_entry \<Rightarrow> char list \<Rightarrow> char list \<Rightarrow> proc_entry" where
  "put_entry old k v = \<lparr>entry_value = terminated (entry_value old) v,
     entry_key = k @ entry_key old ! length k # NUL # drop (length k + 2) (entry_key old)\<rparr>"

definition entry_over :: "proc_entry \<Rightarrow> char list \<Rightarrow> proc_entry" where
  "entry_over old line =
     (let key = takeWhile (\<lambda>c. c \<noteq> CHR '':'') line;
          val = dropWhile (\<lambda>c. c = CHR '' '' \<or> c = TAB) (drop (Suc (length key)) line) in
      put_entry old (butlast (take 15 key)) (take 15 val))"

definition has_delim :: "char list \<Rightarrow> bool" where
  "has_delim line \<longleftrightarrow> CHR '':'' \<in> set line"

text \<open>The lines of a text that end in a newline; \<open>line\<close> is what has been read of the current one.\<close>

fun text_lines :: "char list \<Rightarrow> char list \<Rightarrow> char list list" where
  "text_lines line [] = []"
| "text_lines line (c # cs) = (if c = NL then line # text_lines [] cs else text_lines (line @ [c]) cs)"

definition proc_entries :: "char list list \<Rightarrow> proc_entry list" where
  "proc_entries ls = map line_entry (filter has_delim ls)"

definition keys_ok :: "char list list \<Rightarrow> bool" where
  "keys_ok ls \<longleftrightarrow> list_all (\<lambda>l. l = [] \<or> hd l \<noteq> CHR '':'') ls"

definition en_entry :: "proc_entry \<Rightarrow> char list" where
  "en_entry e = entry_value e @ entry_key e"

definition de_entry :: "char list \<Rightarrow> proc_entry" where
  "de_entry bs = \<lparr>entry_value = field 0 16 bs, entry_key = field 16 16 bs\<rparr>"

definition wf_entry :: "proc_entry \<Rightarrow> bool" where
  "wf_entry e \<longleftrightarrow> length (entry_value e) = 16 \<and> length (entry_key e) = 16"

interpretation entry: struct_codec 32 en_entry de_entry wf_entry
  by unfold_locales (auto simp: en_entry_def de_entry_def wf_entry_def field_def)

lemma wf_line_entry: "wf_entry (line_entry l)"
  by (simp add: wf_entry_def line_entry_def Let_def pad16_def)

definition zero_entry :: proc_entry where
  "zero_entry = \<lparr>entry_value = replicate 16 NUL, entry_key = replicate 16 NUL\<rparr>"

lemma put_entry_zero: "length k \<le> 14 \<Longrightarrow> length v \<le> 15 \<Longrightarrow> put_entry zero_entry k v = \<lparr>entry_value = pad16 v, entry_key = pad16 k\<rparr>"
  by (simp add: put_entry_def zero_entry_def pad16_def terminated_def numeral_eq_Suc Suc_diff_le flip: replicate_Suc)

lemma wf_put_entry: "wf_entry old \<Longrightarrow> length k \<le> 14 \<Longrightarrow> length v \<le> 15 \<Longrightarrow> wf_entry (put_entry old k v)"
  by (simp add: wf_entry_def put_entry_def length_terminated)

lemma entry_over_zero: "entry_over zero_entry line = line_entry line"
  by (simp add: entry_over_def line_entry_def Let_def put_entry_zero)

lemma wf_entry_over: "wf_entry old \<Longrightarrow> wf_entry (entry_over old line)"
  by (simp add: entry_over_def Let_def wf_put_entry)

text \<open>As strings the values do not depend on what was there.\<close>

lemma c_str_terminated_any: "c_str (terminated old v) = c_str v"
  by (simp add: terminated_def c_str_def takeWhile_tail)

lemma entry_over_value: "c_str (entry_value (entry_over old line)) = c_str (entry_value (line_entry line))"
  unfolding entry_over_zero [symmetric] entry_over_def Let_def put_entry_def by (simp add: c_str_terminated_any)

section \<open>One entry\<close>

text \<open>The memory of the parser from the buffer at \<open>b\<close> on: 4096 bytes that start with the text, the
  \<open>proc_file\<close>, its array of 256 entries, and, past the end of the array, room for \<open>N\<close> entries in all. The first
  entries are \<open>es\<close>; what is left of the array is still zero.\<close>

definition text_mem :: "os \<Rightarrow> nat \<Rightarrow> nat \<Rightarrow> char list \<Rightarrow> bool" where
  "text_mem s b N t \<longleftrightarrow>
     os_ok s \<and> 0 < b \<and> accessible s b (4112 + 32 * N) \<and> b + 4112 + 32 * N < 18446744073709551616 \<and>
     256 \<le> N \<and> N \<le> 4096 \<and> length t \<le> 4096 \<and> mem_read (mem s) b (length t) = t"

definition parser_mem :: "os \<Rightarrow> nat \<Rightarrow> nat \<Rightarrow> char list \<Rightarrow> proc_entry list \<Rightarrow> bool" where
  "parser_mem s b N t es \<longleftrightarrow> text_mem s b N t \<and> length es \<le> N \<and>
     dec (mem_read (mem s) (b + 4096) 4) = length es \<and> get64 (mem s) (b + 4104) = of_nat (b + 4112) \<and>
     array_at 32 de_entry (mem s) (b + 4112) (length es) = es \<and>
     (\<forall>x. b + 4112 + 32 * length es \<le> x \<and> x < b + 12304 \<longrightarrow> mem s x = NUL)"

lemma text_memD:
  assumes "text_mem s b N t"
  shows "os_ok s" "0 < b" "accessible s b (4112 + 32 * N)" "b + 4112 + 32 * N < 18446744073709551616"
    "length t \<le> 4096" "mem_read (mem s) b (length t) = t" "256 \<le> N" "N \<le> 4096"
  using assms unfolding text_mem_def by blast+

lemma parser_memD:
  assumes "parser_mem s b N t es"
  shows "text_mem s b N t" "length es \<le> N"
    "dec (mem_read (mem s) (b + 4096) 4) = length es" "get64 (mem s) (b + 4104) = of_nat (b + 4112)"
    "array_at 32 de_entry (mem s) (b + 4112) (length es) = es"
    "b + 4112 + 32 * length es \<le> x \<Longrightarrow> x < b + 12304 \<Longrightarrow> mem s x = NUL"
  using assms unfolding parser_mem_def by blast+

lemma text_mem_write [simp]:
  "text_mem s b N t \<Longrightarrow> b + 4096 \<le> q \<Longrightarrow> text_mem (s\<lparr>mem := mem_write q bs (mem s)\<rparr>) b N t"
  by (simp add: text_mem_def mem_simps apart_def)

lemma text_accessible: "text_mem s b N t \<Longrightarrow> b \<le> q \<Longrightarrow> q + n \<le> b + (4112 + 32 * N) \<Longrightarrow> accessible s q n"
  by (rule accessible_sub [OF text_memD(3)])

lemma text_unat:
  assumes "text_mem s b N t" and "unat (p :: u64) = b" and "i \<le> 12304"
  shows "unat (p + of_nat i) = b + i"
proof -
  have "unat (of_nat i :: u64) = i" using assms(3) by (intro unat_of_nat_u64) simp
  then show ?thesis
    using assms text_memD(4,7) [OF assms(1)] unat_add_nowrap [of p "of_nat i"] by simp
qed

lemma text_load8:
  assumes "text_mem s b N t" and "unat p = b" and "i < length t"
  shows "load8 s (p + of_nat i) = Inr (t ! i)"
proof -
  note inv = text_memD [OF assms(1)]
  have u: "unat (p + of_nat i) = b + i" using assms inv(5) by (intro text_unat [OF assms(1)]) simp_all
  have "accessible s (b + i) 1" using inv(5,7) assms(3) by (intro text_accessible [OF assms(1)]) simp_all
  moreover have "mem s (b + i) = t ! i" using nth_mem_read [OF assms(3), of "mem s" b] inv(6) by simp
  ultimately show ?thesis by (simp add: load8_def u)
qed

lemma text_memmove:
  assumes "text_mem s b N t" and "unat p = b" and "i + unat n \<le> length t" and "accessible s (unat q) (unat n)"
  shows "memmove s q (p + of_nat i) n =
    Inr (s\<lparr>mem := mem_write (unat q) (take (unat n) (drop i t)) (mem s)\<rparr>)"
proof -
  note inv = text_memD [OF assms(1)]
  have u: "unat (p + of_nat i) = b + i"
    using assms(3) inv(5) by (intro text_unat [OF assms(1,2)]) simp
  have "accessible s (b + i) (unat n)"
    using inv(5,7) assms(3) by (intro text_accessible [OF assms(1)]) simp_all
  then show ?thesis
    using assms(3,4) u mem_read_sub [OF inv(6) assms(3)]
    by (simp add: memmove_def load_bytes_def memcpy_def)
qed

lemma skip_blanks_run:
  assumes "text_mem s b N t" and "unat p = b" and "j \<le> length t" and "i \<le> j"
  shows "skip_blanks s p (of_nat j) (of_nat i) =
    Inr (of_nat (i + length (takeWhile (\<lambda>c. c = CHR '' '' \<or> c = TAB) (take (j - i) (drop i t)))))"
  using assms(4)
proof (induction "j - i" arbitrary: i)
  case 0
  then show ?case by (subst skip_blanks.simps) simp
next
  case (Suc n)
  have "length t \<le> 4096" using text_memD(5) [OF assms(1)] .
  then have lt: "(of_nat i :: u64) < of_nat j"
    using Suc.hyps(2) assms(3) by (simp add: word_less_nat_alt unat_of_nat_u64)
  have i: "i < length t" using Suc.hyps(2) assms(3) by simp
  have d: "take (j - i) (drop i t) = t ! i # take (j - Suc i) (drop (Suc i) t)"
    using Suc.hyps(2) i by (simp add: Cons_nth_drop_Suc [symmetric] Suc_diff_Suc take_Cons')
  have "n = j - Suc i" "Suc i \<le> j" using Suc.hyps(2) by simp_all
  from Suc.hyps(1) [OF this] show ?case
    using lt text_load8 [OF assms(1,2) i]
    by (subst skip_blanks.simps) (simp add: d add.commute)
qed

text \<open>The four writes of an entry.\<close>

lemma mem_read_halves: "mem_read m q 32 = mem_read m q 16 @ mem_read m (q + 16) 16"
  by (rule nth_equalityI) (auto simp: nth_append)

lemma entry_writes:
  assumes "length k \<le> 14" and "length v \<le> 15"
  shows "mem_write (q + length v) [NUL] (mem_write (q + 16 + Suc (length k)) [NUL]
      (mem_write q v (mem_write (q + 16) k m))) =
    mem_write q (en_entry (put_entry (de_entry (mem_read m q 32)) k v)) m" (is "?l = ?r")
proof
  fix x
  have de: "de_entry (mem_read m q 32) = \<lparr>entry_value = mem_read m q 16, entry_key = mem_read m (q + 16) 16\<rparr>"
    by (simp add: de_entry_def mem_read_halves field_def)
  have len: "length (terminated (mem_read m q 16) v) = 16" using assms(2) by (simp add: length_terminated)
  let ?k = "k @ mem_read m (q + 16) 16 ! length k # NUL # drop (length k + 2) (mem_read m (q + 16) 16)"
  have lk: "length ?k = 16" using assms(1) by simp
  have en: "en_entry (put_entry (de_entry (mem_read m q 32)) k v) = terminated (mem_read m q 16) v @ ?k"
    by (simp add: de en_entry_def put_entry_def)
  consider "x < q \<or> q + 32 \<le> x" | (v) "q \<le> x" "x < q + 16" | (k) "q + 16 \<le> x" "x < q + 32" by linarith
  then show "?l x = ?r x"
  proof cases
    case 1
    then show ?thesis using assms len lk by (auto simp: mem_write_def en)
  next
    case v
    then have "x - q < 16" by simp
    with v have "?r x = terminated (mem_read m q 16) v ! (x - q)" using len lk by (simp add: mem_write_def en nth_append)
    also have "\<dots> = (if x < q + length v then v ! (x - q) else if x = q + length v then NUL else m x)"
      using v assms(2) by (auto simp: terminated_def nth_append nth_Cons')
    finally show ?thesis using v assms by (auto simp: mem_write_def)
  next
    case k
    then have "\<not> x - q < 16" "x - q < 32" by simp_all
    with k have "?r x = ?k ! (x - q - 16)" using len lk by (simp add: mem_write_def en nth_append)
    also have "\<dots> = (if x < q + 16 + length k then k ! (x - q - 16)
        else if x = q + 16 + Suc (length k) then NUL else m x)"
    proof -
      obtain d where d: "x = q + 16 + d" using k(1) le_Suc_ex by blast
      then show ?thesis using k(2) assms(1) by (auto simp: nth_append nth_Cons' ac_simps)
    qed
    finally show ?thesis using k assms by (auto simp: mem_write_def)
  qed
qed

lemma unat_clip: "n < 18446744073709551616 \<Longrightarrow> unat (clip (of_nat n)) = min n 15"
  by (auto simp: clip_def word_le_nat_alt unat_of_nat_u64)

lemma of_nat_sub_word: "i \<le> j \<Longrightarrow> (of_nat j :: u64) - of_nat i = of_nat (j - i)"
  by (simp add: of_nat_diff)

text \<open>The pieces of a line: its key, the blanks after the colon and its value.\<close>

lemma line_pieces:
  fixes line :: "char list"
  defines "blank \<equiv> \<lambda>c. c = CHR '' '' \<or> c = TAB"
    and "d \<equiv> length (takeWhile (\<lambda>c. c \<noteq> CHR '':'') line)"
  defines "w \<equiv> length (takeWhile blank (drop (Suc d) line))"
  assumes "t = pre @ line @ NL # cs" and "has_delim line" and "hd line \<noteq> CHR '':''"
  shows "0 < d" "Suc d + w \<le> length line"
    "take (length line - Suc d) (drop (length pre + Suc d) t) = drop (Suc d) line"
    "take (min d 15 - 1) (drop (length pre) t) = butlast (take 15 (take d line))"
    "take (min (length line - (Suc d + w)) 15) (drop (length pre + (Suc d + w)) t) =
     take 15 (dropWhile blank (drop (Suc d) line))"
proof -
  have d: "d < length line"
    using assms(5) takeWhile_eq_all_conv [of "\<lambda>c. c \<noteq> CHR '':''" line] takeWhile_eq_take [of _ line]
    by (metis d_def has_delim_def length_takeWhile_le nat_less_le take_all_iff)
  then show "0 < d" using assms(6) by (cases line) (auto simp: d_def)
  have "w \<le> length (drop (Suc d) line)" unfolding w_def by (rule length_takeWhile_le)
  then show w: "Suc d + w \<le> length line" using d by simp
  show "take (length line - Suc d) (drop (length pre + Suc d) t) = drop (Suc d) line"
    using d by (simp add: assms(4))
  have "take (min d 15 - 1) line = butlast (take 15 (take d line))"
    using d by (simp add: butlast_take min_def butlast_conv_take)
  then show "take (min d 15 - 1) (drop (length pre) t) = butlast (take 15 (take d line))"
    using d by (simp add: assms(4))
  have "dropWhile blank (drop (Suc d) line) = drop (Suc d + w) line"
    by (simp add: w_def dropWhile_eq_drop add.commute)
  then show "take (min (length line - (Suc d + w)) 15) (drop (length pre + (Suc d + w)) t) =
      take 15 (dropWhile blank (drop (Suc d) line))"
    using w by (simp add: assms(4) min_def)
qed

definition entry_store :: "os \<Rightarrow> nat \<Rightarrow> nat \<Rightarrow> proc_entry \<Rightarrow> os" where
  "entry_store s b n e = s\<lparr>mem := mem_write (b + 4096) (enc 4 (Suc n))
     (mem_write (b + 4112 + 32 * n) (en_entry e) (mem s))\<rparr>"

definition line_state :: "char list \<Rightarrow> char list \<Rightarrow> nat \<Rightarrow> scan_state" where
  "line_state pre line n = \<lparr>line_start = of_nat (length pre),
     delim = (if has_delim line then of_nat (length pre + length (takeWhile (\<lambda>c. c \<noteq> CHR '':'') line))
              else - 1),
     entry_index = of_nat n\<rparr>"

text \<open>Copying a key and a value into the entry at \<open>q\<close> and counting it.\<close>

lemma entry_copies:
  assumes inv: "parser_mem s b N t es" "length es < N" and p: "unat p = b" "unat pf = b + 4096"
    and e: "unat e = b + 4112 + 32 * length es" and K: "1 \<le> unat K" "unat K \<le> 15"
    and V: "unat V \<le> 15" and i: "i + (unat K - 1) \<le> length t" and j: "j + unat V \<le> length t"
  shows "andthen (memmove s (e + off_key) (p + of_nat i) (K - 1)) (\<lambda>s.
      andthen (memmove s e (p + of_nat j) V) (\<lambda>s.
      andthen (store8 s (e + off_key + K) NUL) (\<lambda>s.
      andthen (store8 s (e + V) NUL) (\<lambda>s.
      andthen (load32 s pf) (\<lambda>count.
      if count = 2147483647 then Inl Signed_overflow else store32 s pf (count + 1)))))) =
    Inr (entry_store s b (length es) (put_entry (de_entry (mem_read (mem s) (b + 4112 + 32 * length es) 32))
      (take (unat K - 1) (drop i t)) (take (unat V) (drop j t))))"
proof -
  let ?q = "b + 4112 + 32 * length es" and ?k = "take (unat K - 1) (drop i t)"
    and ?v = "take (unat V) (drop j t)"
  note inv' = parser_memD [OF inv(1)]
  note tm = text_memD [OF inv'(1)]
  have lk: "length ?k = unat K - 1" "length ?v = unat V" using i j by simp_all
  have u: "unat (K - 1) = unat K - 1" using K(1) by (simp add: unat_sub word_le_nat_alt)
  have q: "?q + 32 \<le> b + (4112 + 32 * N)" "?q + 32 < 18446744073709551616" "length es < 4096"
    using inv(2) tm(4,8) by linarith+
  have uo: "unat (e + off_key) = ?q + 16"
    using e q by (simp add: unat_add_nowrap off_key_def)
  moreover from this have "unat (e + off_key + K) = ?q + 16 + unat K"
    using q K(2) by (simp add: unat_add_nowrap)
  moreover have "unat (e + V) = ?q + unat V" using e q V by (simp add: unat_add_nowrap)
  ultimately have us: "unat (e + off_key) = ?q + 16" "unat (e + off_key + K) = ?q + 16 + unat K"
      "unat (e + V) = ?q + unat V" .
  define s1 where "s1 = s\<lparr>mem := mem_write (?q + 16) ?k (mem s)\<rparr>"
  define s2 where "s2 = s1\<lparr>mem := mem_write ?q ?v (mem s1)\<rparr>"
  define s3 where "s3 = s2\<lparr>mem := mem_write (?q + 16 + unat K) [NUL] (mem s2)\<rparr>"
  define s4 where "s4 = s3\<lparr>mem := mem_write (?q + unat V) [NUL] (mem s3)\<rparr>"
  have "text_mem s1 b N t" unfolding s1_def by (rule text_mem_write [OF inv'(1)]) simp
  moreover from this have "text_mem s2 b N t" unfolding s2_def by (rule text_mem_write) simp
  moreover from this have "text_mem s3 b N t" unfolding s3_def by (rule text_mem_write) simp
  moreover from this have "text_mem s4 b N t" unfolding s4_def by (rule text_mem_write) simp
  ultimately have t1: "text_mem s1 b N t" "text_mem s2 b N t" "text_mem s3 b N t" "text_mem s4 b N t" .
  note acc = text_accessible [OF inv'(1)] text_accessible [OF t1(1)] text_accessible [OF t1(2)]
    text_accessible [OF t1(3)] text_accessible [OF t1(4)]
  have r1: "memmove s (e + off_key) (p + of_nat i) (K - 1) = Inr s1"
    using text_memmove [OF inv'(1) p(1), of i "K - 1" "e + off_key"] i us u acc(1) q K(2)
    by (simp add: s1_def)
  have r2: "memmove s1 e (p + of_nat j) V = Inr s2"
    using text_memmove [OF t1(1) p(1), of j V e] j e V acc(2) q by (simp add: s2_def)
  have r3: "store8 s2 (e + off_key + K) NUL = Inr s3"
    using us acc(3) [of "?q + 16 + unat K" 1] q K(2) by (simp add: s3_def store8_def)
  have r4: "store8 s3 (e + V) NUL = Inr s4"
    using us acc(4) [of "?q + unat V" 1] q V by (simp add: s4_def store8_def)
  have sk: "Suc (length ?k) = unat K" using lk K(1) by simp
  let ?e = "put_entry (de_entry (mem_read (mem s) ?q 32)) ?k ?v"
  have m4: "mem s4 = mem_write ?q (en_entry ?e) (mem s)"
    using entry_writes [of ?k ?v ?q "mem s", unfolded sk lk(2)] K V lk
    by (simp add: s4_def s3_def s2_def s1_def)
  have s4: "s4 = s\<lparr>mem := mem_write ?q (en_entry ?e) (mem s)\<rparr>"
    using m4 by (simp add: s4_def s3_def s2_def s1_def)
  have "dec (mem_read (mem s4) (b + 4096) 4) = length es"
    using inv'(3) by (simp add: m4 mem_simps apart_def)
  then have r5: "load32 s4 pf = Inr (of_nat (length es))"
    using acc(5) [of "b + 4096" 4] p(2) by (simp add: load32_def load_bytes_def)
  have c: "unat (of_nat n :: u32) = n" if "n \<le> 4096" for n
    using that by (simp add: unat_of_nat)
  have "unat (of_nat (length es) + 1 :: u32) = Suc (length es)"
    using c [of "Suc (length es)"] q(3) by (simp add: add.commute)
  moreover have "unat (of_nat (length es) :: u32) \<noteq> unat (2147483647 :: u32)"
    using c [of "length es"] q(3) by simp
  then have "(of_nat (length es) :: u32) \<noteq> 2147483647" by metis
  ultimately show ?thesis
    using r1 r2 r3 r4 r5 acc(5) [of "b + 4096" 4] p(2)
    by (simp add: store32_def memcpy_def) (simp add: s4 entry_store_def)
qed

lemma store_entry_run:
  assumes inv: "parser_mem s b N t es" "length es < N" and p: "unat p = b" "unat pf = b + 4096"
    and t: "t = pre @ line @ NL # cs" and line: "has_delim line" "hd line \<noteq> CHR '':''"
  shows "store_entry s pf p (of_nat (length pre + length line)) (line_state pre line (length es)) =
    Inr (entry_store s b (length es)
      (entry_over (de_entry (mem_read (mem s) (b + 4112 + 32 * length es) 32)) line))"
proof -
  note inv' = parser_memD [OF inv(1)]
  note tm = text_memD [OF inv'(1)]
  define d where "d = length (takeWhile (\<lambda>c. c \<noteq> CHR '':'') line)"
  define w where "w = length (takeWhile (\<lambda>c. c = CHR '' '' \<or> c = TAB) (drop (Suc d) line))"
  note pieces = line_pieces [OF t line, folded d_def, folded w_def]
  have key: "takeWhile (\<lambda>c. c \<noteq> CHR '':'') line = take d line"
    unfolding d_def by (rule takeWhile_eq_take)
  have len: "length pre + length line < length t" "length t \<le> 4096" using t tm(5) by simp_all
  have K: "unat (clip (of_nat (length pre + d) - of_nat (length pre))) = min d 15"
    using pieces(2) len unat_clip [of d] by simp
  have vs: "skip_blanks s p (of_nat (length pre + length line)) (of_nat (length pre + d) + 1) =
      Inr (of_nat (length pre + (Suc d + w)))"
    using skip_blanks_run [OF inv'(1) p(1), of "length pre + length line" "length pre + Suc d"]
      pieces(2,3) len by (simp add: w_def ac_simps)
  have V: "unat (clip (of_nat (length pre + length line) - of_nat (length pre + (Suc d + w)))) =
      min (length line - (Suc d + w)) 15"
  proof -
    have "length pre + (Suc d + w) \<le> length pre + length line" using pieces(2) by simp
    from of_nat_sub_word [OF this] have "(of_nat (length pre + length line) :: u64) -
        of_nat (length pre + (Suc d + w)) = of_nat (length line - (Suc d + w))"
      by (simp only: add_diff_cancel_left)
    moreover have "length line - (Suc d + w) < 18446744073709551616" using len by simp
    ultimately show ?thesis by (simp only: unat_clip)
  qed
  have "unat (pf + off_entries) = b + 4104"
    using p(2) tm(4) by (simp add: off_entries_def unat_add_nowrap)
  then have ents: "load64 s (pf + off_entries) = Inr (of_nat (b + 4112))"
    using inv'(4) text_accessible [OF inv'(1), of "b + 4104" 8] by (simp add: load64_def)
  have "unat (of_nat (b + 4112) + of_nat (length es) * sizeof_proc_entry) =
      unat (of_nat (b + 4112 + 32 * length es) :: u64)"
    by (simp add: sizeof_proc_entry_def mult.commute)
  also have "\<dots> = b + 4112 + 32 * length es" using inv(2) tm(4) by (intro unat_of_nat_u64) simp
  finally have e: "unat (of_nat (b + 4112) + of_nat (length es) * sizeof_proc_entry) =
      b + 4112 + 32 * length es" .
  have ks: "1 \<le> min d 15" "length pre + (min d 15 - 1) \<le> length t"
      "length pre + (Suc d + w) + min (length line - (Suc d + w)) 15 \<le> length t"
    using pieces(1,2) len by linarith+
  note run = entry_copies [OF inv p e, where
      K = "clip (of_nat (length pre + d) - of_nat (length pre))" and
      V = "clip (of_nat (length pre + length line) - of_nat (length pre + (Suc d + w)))" and
      i = "length pre" and j = "length pre + (Suc d + w)", unfolded K V, OF ks(1) _ _ ks(2,3)]
  have entry: "entry_over old line = put_entry old (take (min d 15 - 1) (drop (length pre) t))
      (take (min (length line - (Suc d + w)) 15) (drop (length pre + (Suc d + w)) t))" for old
    unfolding pieces(4,5) entry_over_def Let_def key using pieces(2) by simp
  show ?thesis
    unfolding entry store_entry_def Let_def line_state_def
    using line(1) run vs ents by (simp add: d_def [symmetric])
qed

lemma parser_mem_entry:
  assumes inv: "parser_mem s b N t es" "length es < N" and e: "wf_entry e"
  shows "parser_mem (entry_store s b (length es) e) b N t (es @ [e])"
proof -
  let ?q = "b + 4112 + 32 * length es"
  note inv' = parser_memD [OF inv(1)]
  let ?m1 = "mem_write ?q (en_entry e) (mem s)"
  have l: "length (en_entry e) = 32" using e by (rule entry.length_en)
  have "text_mem (s\<lparr>mem := ?m1\<rparr>) b N t" by (rule text_mem_write [OF inv'(1)]) simp
  then have "text_mem (entry_store s b (length es) e) b N t"
    using text_mem_write [of "s\<lparr>mem := ?m1\<rparr>" b N t "b + 4096"] by (simp add: entry_store_def)
  moreover have "array_at 32 de_entry (mem (entry_store s b (length es) e)) (b + 4112) (Suc (length es)) =
      es @ [e]"
    using array_at_write_apart [of "b + 4112" "Suc (length es)" 32 "b + 4096" "enc 4 (Suc (length es))" de_entry]
      entry.array_snoc [OF e, of "b + 4112" "length es" "mem s"] inv'(5)
    by (simp add: entry_store_def apart_def mult.commute)
  moreover have "Suc (length es) mod 256 ^ 4 = Suc (length es)" using inv(2) text_memD(8) [OF inv'(1)] by (intro mod_less) simp
  then have "dec (mem_read (mem (entry_store s b (length es) e)) (b + 4096) 4) = Suc (length es)"
    by (simp add: entry_store_def mem_simps dec_enc)
  moreover have "get64 (mem (entry_store s b (length es) e)) (b + 4104) = of_nat (b + 4112)"
    using inv'(4) by (simp add: entry_store_def mem_simps apart_def)
  moreover have "mem (entry_store s b (length es) e) x = NUL"
    if "b + 4112 + 32 * length (es @ [e]) \<le> x" "x < b + 12304" for x
    using that inv'(6) [of x] l by (simp add: entry_store_def mem_outside_write)
  ultimately show ?thesis using inv(2) by (simp add: parser_mem_def)
qed

lemma store_entry_no_key:
  assumes inv: "parser_mem s b N t es" and p: "unat p = b" "unat pf = b + 4096"
    and t: "t = pre @ line @ NL # cs" and line: "line \<noteq> []" "hd line = CHR '':''"
  shows "store_entry s pf p (of_nat (length pre + length line)) (line_state pre line (length es)) =
    Inl Segfault"
proof -
  note inv' = parser_memD [OF inv]
  note tm = text_memD [OF inv'(1)]
  have len: "length pre + length line < length t" "length t \<le> 4096" using t tm(5) by simp_all
  have st: "line_state pre line (length es) =
      \<lparr>line_start = of_nat (length pre), delim = of_nat (length pre), entry_index = of_nat (length es)\<rparr>"
    using line by (cases line) (auto simp: line_state_def has_delim_def)
  obtain v where vs: "skip_blanks s p (of_nat (length pre + length line)) (of_nat (length pre) + 1) = Inr v"
    using skip_blanks_run [OF inv'(1) p(1), of "length pre + length line" "length pre + 1"] len line(1)
    by (cases line) (simp_all add: ac_simps)
  have "unat (pf + off_entries) = b + 4104"
    using p(2) tm(4) by (simp add: off_entries_def unat_add_nowrap)
  then have ents: "load64 s (pf + off_entries) = Inr (of_nat (b + 4112))"
    using inv'(4) text_accessible [OF inv'(1), of "b + 4104" 8] by (simp add: load64_def)
  have "unat (p + of_nat (length pre)) = b + length pre"
    using len by (intro text_unat [OF inv'(1) p(1)]) simp
  then have "\<not> accessible s (unat (p + of_nat (length pre))) (unat (- 1 :: u64))"
    using accessible_bound [OF tm(1), of "b + length pre" "unat (- 1 :: u64)"] tm(2)
    by (auto simp: unsigned_minus_1_eq_mask mask_eq_exp_minus_1)
  then have "memmove s q (p + of_nat (length pre)) (- 1) = Inl Segfault" for q
    by (simp add: memmove_def load_bytes_def)
  then show ?thesis
    using vs by (simp add: store_entry_def st ents Let_def clip_def)
qed

section \<open>The whole file\<close>

lemma line_state_snoc:
  "line_state pre (line @ [c]) n =
     (if c = CHR '':'' \<and> \<not> has_delim line
      then (line_state pre line n)\<lparr>delim := of_nat (length pre + length line)\<rparr>
      else line_state pre line n)"
proof (cases "has_delim line")
  case True
  then show ?thesis by (simp add: line_state_def has_delim_def takeWhile_append1)
next
  case False
  then have "takeWhile (\<lambda>c. c \<noteq> CHR '':'') (line @ [CHR '':'']) = line @ takeWhile (\<lambda>c. c \<noteq> CHR '':'') [CHR '':'']"
    by (intro takeWhile_append2) (auto simp: has_delim_def)
  then show ?thesis using False by (auto simp: line_state_def has_delim_def)
qed

lemma line_state_delim:
  assumes "length pre + length line \<le> 4096"
  shows "delim (line_state pre line n) = - 1 \<longleftrightarrow> \<not> has_delim line"
proof -
  let ?d = "length pre + length (takeWhile (\<lambda>c. c \<noteq> CHR '':'') line)"
  have "?d \<le> 4096" using assms length_takeWhile_le [of "\<lambda>c. c \<noteq> CHR '':''" line] by linarith
  then have "unat (of_nat ?d :: u64) \<noteq> unat (- 1 :: u64)"
    by (simp add: unat_of_nat_u64 unsigned_minus_1_eq_mask mask_eq_exp_minus_1 del: of_nat_add)
  then have "(of_nat ?d :: u64) \<noteq> - 1" by metis
  then show ?thesis by (simp add: line_state_def)
qed

lemma line_state_fields [simp]:
  "entry_index (line_state pre line n) = of_nat n" "line_start (line_state pre line n) = of_nat (length pre)"
  by (simp_all add: line_state_def)

lemma line_state_Nil:
  "line_state pre [] n = \<lparr>line_start = of_nat (length pre), delim = - 1, entry_index = of_nat n\<rparr>"
  by (simp add: line_state_def has_delim_def)

text \<open>One byte of the text: within a line, and at its end.\<close>

lemma scan_byte_inside:
  assumes inv: "parser_mem s b N t es" "unat p = b" and t: "t = pre @ line @ c # cs" and c: "c \<noteq> NL"
  shows "scan_byte s pf p (of_nat (length pre + length line)) (line_state pre line n) =
    Inr (line_state pre (line @ [c]) n, s)"
proof -
  note tm = parser_memD(1) [OF inv(1)]
  have "load8 s (p + of_nat (length pre + length line)) = Inr c"
    using text_load8 [OF tm inv(2), of "length pre + length line"] t by (simp add: nth_append)
  moreover have "length pre + length line \<le> 4096" using text_memD(5) [OF tm] t by simp
  ultimately show ?thesis
    using c by (auto simp: scan_byte_def line_state_snoc line_state_delim simp del: of_nat_add)
qed

text \<open>The entries \<open>es\<close>, from index \<open>n\<close> on, are those of the lines \<open>ls\<close>: in the array exactly, past its end over
  whatever was there.\<close>

definition stores :: "nat \<Rightarrow> proc_entry list \<Rightarrow> char list list \<Rightarrow> bool" where
  "stores n es ls \<longleftrightarrow> length es = length ls \<and> (\<forall>i < length ls.
     (\<exists>old. es ! i = entry_over old (ls ! i)) \<and> (n + i < 256 \<longrightarrow> es ! i = line_entry (ls ! i)))"

lemma stores_Nil [simp]: "stores n [] []"
  by (simp add: stores_def)

lemma stores_append:
  "stores n es ls \<Longrightarrow> stores (n + length ls) es' ls' \<Longrightarrow> stores n (es @ es') (ls @ ls')"
  by (auto simp: stores_def nth_append)

lemma stores_take: "stores 0 es ls \<Longrightarrow> take 256 es = take 256 (map line_entry ls)"
  by (rule nth_equalityI) (auto simp: stores_def)

lemma stores_values: "stores n es ls \<Longrightarrow> map (c_str \<circ> entry_value) es = map (c_str \<circ> entry_value) (map line_entry ls)"
  by (rule nth_equalityI) (auto simp: stores_def, metis entry_over_value)

lemma stores_next:
  assumes "parser_mem s b N t es"
  shows "stores (length es) [entry_over (de_entry (mem_read (mem s) (b + 4112 + 32 * length es) 32)) line] [line]"
proof -
  let ?q = "b + 4112 + 32 * length es"
  have "entry_over (de_entry (mem_read (mem s) ?q 32)) line = line_entry line" if "length es < 256"
  proof -
    have "mem_read (mem s) ?q 32 = replicate 32 NUL"
      using parser_memD(6) [OF assms] that by (simp add: mem_read_zeros)
    moreover have "de_entry (replicate 32 NUL) = zero_entry" by (simp add: de_entry_def zero_entry_def field_def)
    ultimately show ?thesis by (simp add: entry_over_zero)
  qed
  then show ?thesis by (auto simp: stores_def)
qed

lemma scan_byte_newline:
  assumes inv: "parser_mem s b N t es" "unat p = b" "unat pf = b + 4096"
    and t: "t = pre @ line @ NL # cs" and room: "length es + length (filter has_delim [line]) \<le> N"
  shows "if keys_ok [line]
    then \<exists>s' es'. scan_byte s pf p (of_nat (length pre + length line)) (line_state pre line (length es)) =
        Inr (line_state (pre @ line @ [NL]) [] (length (es @ es')), s') \<and>
      parser_mem s' b N t (es @ es') \<and> stores (length es) es' (filter has_delim [line]) \<and> regions s' = regions s \<and>
      (\<forall>x. x < b + 4096 \<or> b + 4112 + 32 * N \<le> x \<longrightarrow> mem s' x = mem s x)
    else scan_byte s pf p (of_nat (length pre + length line)) (line_state pre line (length es)) =
      Inl Segfault"
proof -
  note tm = parser_memD(1) [OF inv(1)]
  have ld: "load8 s (p + of_nat (length pre + length line)) = Inr NL"
    using text_load8 [OF tm inv(2), of "length pre + length line"] t by (simp add: nth_append)
  have len: "length pre + length line \<le> 4096" using text_memD(5) [OF tm] t by simp
  let ?st = "line_state pre line (length es)"
  have run: "scan_byte s pf p (of_nat (length pre + length line)) ?st =
      (if has_delim line
       then andthen (store_entry s pf p (of_nat (length pre + length line)) ?st)
         (\<lambda>s. Inr (line_state (pre @ line @ [NL]) [] (Suc (length es)), s))
       else Inr (line_state (pre @ line @ [NL]) [] (length es), s))"
    using ld len by (simp add: scan_byte_def line_state_delim line_state_Nil ac_simps)
  show ?thesis
  proof (cases "has_delim line")
    case False
    then have "keys_ok [line]" by (cases line) (auto simp: keys_ok_def has_delim_def)
    then show ?thesis using False run inv(1) by (auto intro!: exI [of _ s] exI [of _ "[]"])
  next
    case True
    then have lt: "length es < N" using room by simp
    have ne: "line \<noteq> []" using True by (auto simp: has_delim_def)
    show ?thesis
    proof (cases "hd line = CHR '':''")
      case False
      let ?e = "entry_over (de_entry (mem_read (mem s) (b + 4112 + 32 * length es) 32)) line"
      let ?s = "entry_store s b (length es) ?e"
      have wf: "wf_entry ?e" by (rule wf_entry_over [OF entry.wf_de]) simp
      have l: "length (en_entry ?e) = 32" by (rule entry.length_en [OF wf])
      have N: "256 \<le> N" by (rule text_memD(7) [OF tm])
      have "mem ?s x = mem s x" if "x < b + 4096 \<or> b + 4112 + 32 * N \<le> x" for x
        using that l lt N by (auto simp: entry_store_def mem_outside_write)
      moreover have "regions ?s = regions s" by (simp add: entry_store_def)
      moreover have "keys_ok [line]" using False by (simp add: keys_ok_def)
      ultimately show ?thesis
        using store_entry_run [OF inv(1) lt inv(2,3) t True False] True run
          parser_mem_entry [OF inv(1) lt wf] stores_next [OF inv(1), of line]
        by (auto intro!: exI [of _ ?s] exI [of _ "[?e]"])
    next
      case hd: True
      then show ?thesis
        using store_entry_no_key [OF inv t ne hd] True ne run by (simp add: keys_ok_def)
    qed
  qed
qed

lemma scan_bytes_run:
  assumes "parser_mem s b N t es" and "unat p = b" and "unat pf = b + 4096"
    and "t = pre @ line @ cs" and "length es + length (filter has_delim (text_lines line cs)) \<le> N"
  shows "if keys_ok (text_lines line cs)
    then \<exists>s' es'. scan_bytes (length cs) s pf p (of_nat (length pre + length line))
          (line_state pre line (length es)) = Inr s' \<and>
      parser_mem s' b N t (es @ es') \<and> stores (length es) es' (filter has_delim (text_lines line cs)) \<and>
      regions s' = regions s \<and> (\<forall>x. x < b + 4096 \<or> b + 4112 + 32 * N \<le> x \<longrightarrow> mem s' x = mem s x)
    else scan_bytes (length cs) s pf p (of_nat (length pre + length line))
      (line_state pre line (length es)) = Inl Segfault"
  using assms
proof (induction cs arbitrary: s es pre line)
  case Nil
  then show ?case by (auto simp: keys_ok_def intro!: exI [of _ s] exI [of _ "[]"])
next
  case (Cons c cs)
  let ?i = "of_nat (length pre + length line) :: u64"
  show ?case
  proof (cases "c = NL")
    case False
    have step: "scan_byte s pf p ?i (line_state pre line (length es)) =
        Inr (line_state pre (line @ [c]) (length es), s)"
      by (rule scan_byte_inside [OF Cons.prems(1,2,4) False])
    have t: "t = pre @ (line @ [c]) @ cs" using Cons.prems(4) by simp
    have room: "length es + length (filter has_delim (text_lines (line @ [c]) cs)) \<le> N"
      using Cons.prems(5) False by simp
    have i: "of_nat (length pre + length (line @ [c])) = ?i + 1" by simp
    show ?thesis
      using Cons.IH [OF Cons.prems(1-3) t room, unfolded i] step False
      by (cases "keys_ok (text_lines (line @ [c]) cs)") simp_all
  next
    case True
    let ?pre = "pre @ line @ [NL]" and ?ls = "text_lines [] cs"
    have ko: "keys_ok (line # ls) \<longleftrightarrow> keys_ok [line] \<and> keys_ok ls" for ls by (simp add: keys_ok_def)
    have fl: "filter has_delim (line # ls) = filter has_delim [line] @ filter has_delim ls" for ls by simp
    have t: "t = pre @ line @ NL # cs" using Cons.prems(4) True by simp
    have tl: "text_lines line (c # cs) = line # ?ls" using True by simp
    have room: "length es + length (filter has_delim [line]) \<le> N"
        "length es + length (filter has_delim [line]) + length (filter has_delim ?ls) \<le> N"
      using Cons.prems(5) unfolding tl fl [of ?ls] by simp_all
    have i: "?i + 1 = of_nat (length ?pre + length ([] :: char list))" by simp
    note step = scan_byte_newline [OF Cons.prems(1-3) t room(1)]
    show ?thesis
    proof (cases "keys_ok [line]")
      case ok: True
      then obtain s1 es1 where s1: "scan_byte s pf p ?i (line_state pre line (length es)) =
            Inr (line_state ?pre [] (length (es @ es1)), s1)"
          "parser_mem s1 b N t (es @ es1)" "stores (length es) es1 (filter has_delim [line])" "regions s1 = regions s"
          "\<forall>x. x < b + 4096 \<or> b + 4112 + 32 * N \<le> x \<longrightarrow> mem s1 x = mem s x"
        using step by auto
      have l1: "length es1 = length (filter has_delim [line])" using s1(3) by (simp add: stores_def)
      have "t = ?pre @ [] @ cs" using t by simp
      moreover have "length (es @ es1) + length (filter has_delim ?ls) \<le> N" using room(2) l1 by simp
      ultimately have ih: "if keys_ok ?ls
        then \<exists>s' es'. scan_bytes (length cs) s1 pf p (?i + 1) (line_state ?pre [] (length (es @ es1))) = Inr s' \<and>
          parser_mem s' b N t ((es @ es1) @ es') \<and> stores (length (es @ es1)) es' (filter has_delim ?ls) \<and>
          regions s' = regions s1 \<and> (\<forall>x. x < b + 4096 \<or> b + 4112 + 32 * N \<le> x \<longrightarrow> mem s' x = mem s1 x)
        else scan_bytes (length cs) s1 pf p (?i + 1) (line_state ?pre [] (length (es @ es1))) = Inl Segfault"
        unfolding i by (rule Cons.IH [OF s1(2) Cons.prems(2,3)])
      have run: "scan_bytes (length (c # cs)) s pf p ?i (line_state pre line (length es)) =
          scan_bytes (length cs) s1 pf p (?i + 1) (line_state ?pre [] (length (es @ es1)))"
        using s1(1) by simp
      show ?thesis
      proof (cases "keys_ok ?ls")
        case True
        then obtain s2 es2 where s2: "scan_bytes (length cs) s1 pf p (?i + 1) (line_state ?pre [] (length (es @ es1))) = Inr s2"
            "parser_mem s2 b N t (es @ es1 @ es2)" "stores (length es + length (filter has_delim [line])) es2 (filter has_delim ?ls)"
            "regions s2 = regions s1" "\<forall>x. x < b + 4096 \<or> b + 4112 + 32 * N \<le> x \<longrightarrow> mem s2 x = mem s1 x"
          using ih l1 by auto
        have "stores (length es) (es1 @ es2) (filter has_delim (line # ?ls))"
          unfolding fl [of ?ls] by (rule stores_append [OF s1(3) s2(3)])
        then show ?thesis
          unfolding run tl ko [of ?ls] using s1(4,5) s2 ok True by (intro if_P [THEN iffD2]) auto
      next
        case False
        then show ?thesis using ih unfolding run tl ko [of ?ls] by simp
      qed
    next
      case False
      then show ?thesis using step True ko [of ?ls] by simp
    qed
  qed
qed

section \<open>On an arena\<close>

definition proc_file_at :: "os \<Rightarrow> u64 \<Rightarrow> proc_entry list" where
  "proc_file_at s pf = array_at 32 de_entry (mem s) (unat (get64 (mem s) (unat pf + 8)))
     (dec (mem_read (mem s) (unat pf) 4))"

lemma parser_mem_result:
  assumes "parser_mem s b N t es" and "unat pf = b + 4096"
  shows "proc_file_at s pf = es" and "unat (get64 (mem s) (unat pf + 8)) = b + 4112"
proof -
  note inv = parser_memD [OF assms(1)]
  have "unat (of_nat (b + 4112) :: u64) = b + 4112"
    using text_memD(4) [OF inv(1)] by (intro unat_of_nat_u64) simp
  moreover have "b + 4096 + 8 = b + 4104" by simp
  ultimately have "get64 (mem s) (b + 4096 + 8) = of_nat (b + 4112)"
      "unat (of_nat (b + 4112) :: u64) = b + 4112" using inv(4) by metis+
  then show "proc_file_at s pf = es" "unat (get64 (mem s) (unat pf + 8)) = b + 4112"
    using inv(3,5) unfolding proc_file_at_def assms(2) by (simp_all only:)
qed

text \<open>The three blocks of the parser, the text read into the first and the pointer to the third
  stored in the second.\<close>

lemma parser_blocks:
  assumes ok: "arena_ok s a" "os_ok s" "4112 + 32 * N \<le> arena_room s a" and t: "length t \<le> 4096"
    and N: "256 \<le> N" "N \<le> 4096"
  obtains p s1 pf s2 e s3 s4 where "arena_alloc s a 4096 = Inr (p, s1)"
    and "accessible s1 (unat p) 4096"
    and "arena_alloc (s1\<lparr>mem := mem_write (unat p) t (mem s1)\<rparr>) a 16 = Inr (pf, s2)"
    and "arena_alloc s2 a 8192 = Inr (e, s3)" and "store64 s3 (pf + off_entries) e = Inr s4"
    and "parser_mem s4 (arena_top s a) N t []" and "unat p = arena_top s a"
    and "unat pf = arena_top s a + 4096" and "arena_ok s4 a" and "regions s4 = regions s"
    and "arena_base s4 a = arena_base s a" and "arena_top s4 a = arena_top s a + 12304"
    and "\<forall>x. arena_base s a \<le> x \<and> x < arena_top s a \<longrightarrow> mem s4 x = mem s x"
proof -
  let ?b = "arena_top s a"
  have f1: "unat (4096 :: u64) \<le> arena_room s a" using ok(3) N by simp
  obtain p s1 where s1: "arena_alloc s a 4096 = Inr (p, s1)" "unat p = ?b" "arena_ok s1 a"
      "regions s1 = regions s" "arena_base s1 a = arena_base s a" "arena_top s1 a = ?b + 4096"
      "arena_room s1 a = arena_room s a - 4096"
      "\<forall>x. arena_base s a \<le> x \<and> x < ?b \<longrightarrow> mem s1 x = mem s x"
    by (rule arena.fresh_block [OF ok(1) f1]) simp
  note b = arena.bounds [OF ok(1)]
  have acc: "accessible s1 (unat p) 4096"
    using s1 b by (intro arena.reach [OF s1(3)]) simp_all
  define s1' where "s1' = s1\<lparr>mem := mem_write (unat p) t (mem s1)\<rparr>"
  have s1': "arena_ok s1' a" "arena_base s1' a = arena_base s a" "arena_top s1' a = ?b + 4096"
      "arena_room s1' a = arena_room s a - 4096" "regions s1' = regions s"
    using arena.frame [OF s1(3), of "unat p" t s1'] s1 b t by (simp_all add: s1'_def)
  have f2: "unat (16 :: u64) \<le> arena_room s1' a" using ok(3) N s1'(4) by simp
  obtain pf s2 where s2: "arena_alloc s1' a 16 = Inr (pf, s2)" "unat pf = arena_top s1' a" "arena_ok s2 a"
      "regions s2 = regions s1'" "arena_base s2 a = arena_base s1' a" "arena_top s2 a = arena_top s1' a + 16"
      "arena_room s2 a = arena_room s1' a - 16"
      "\<forall>x. arena_base s1' a \<le> x \<and> x < arena_top s1' a \<longrightarrow> mem s2 x = mem s1' x"
      "mem_read (mem s2) (arena_top s1' a) 16 = replicate 16 NUL"
    by (rule arena.fresh_block [OF s1'(1) f2]) simp
  have f3: "unat (8192 :: u64) \<le> arena_room s2 a" using ok(3) N s1'(4) s2(7) by simp
  obtain e s3 where s3: "arena_alloc s2 a 8192 = Inr (e, s3)" "unat e = arena_top s2 a" "arena_ok s3 a"
      "regions s3 = regions s2" "arena_base s3 a = arena_base s2 a" "arena_top s3 a = arena_top s2 a + 8192"
      "\<forall>x. arena_base s2 a \<le> x \<and> x < arena_top s2 a \<longrightarrow> mem s3 x = mem s2 x"
      "mem_read (mem s3) (arena_top s2 a) 8192 = replicate 8192 NUL"
    by (rule arena.fresh_block [OF s2(3) f3]) simp
  define s4 where "s4 = s3\<lparr>mem := put64 (?b + 4104) e (mem s3)\<rparr>"
  have top: "arena_top s2 a = ?b + 4112" "arena_top s3 a = ?b + 12304" "unat pf = ?b + 4096"
      "?b + 12304 < 18446744073709551616"
    using s2 s3 s1' ok(3) N b by simp_all
  have acc4: "accessible s3 ?b 12304" using s3 s2 s1' b top by (intro arena.reach [OF s3(3)]) simp_all
  have "unat (pf + off_entries) = ?b + 4104"
    using top by (simp add: off_entries_def unat_add_nowrap)
  then have st: "store64 s3 (pf + off_entries) e = Inr s4"
    using accessible_sub [OF acc4, of "?b + 4104" 8] by (simp add: store64_def s4_def)
  have ok4: "arena_ok s4 a" "arena_base s4 a = arena_base s a" "arena_top s4 a = ?b + 12304"
    using arena.frame [OF s3(3), of "?b + 4104" "enc 8 (unat e)" s4] s3 s2 s1' b top
    by (simp_all add: s4_def put64_def)
  have all: "accessible s4 ?b (4112 + 32 * N)" "?b + 4112 + 32 * N < 18446744073709551616"
  proof -
    have r: "(unat a, unat (capacity (arena_at s a)) + 32) \<in> set (regions s)" "unat a + 32 = arena_base s a"
      using ok(1) by (simp_all add: arena_ok_def arena_base_def)
    have c: "?b + (4112 + 32 * N) \<le> unat a + (unat (capacity (arena_at s a)) + 32)"
      using arena_capacity [OF ok(1)] ok(3) b r(2) by simp
    have "regions s4 = regions s" using s3(4) s2(4) s1'(5) by (simp add: s4_def)
    then show "accessible s4 ?b (4112 + 32 * N)"
      using accessible_region [OF r(1) _ c] b r(2) by (simp add: accessible_def)
    show "?b + 4112 + 32 * N < 18446744073709551616" using ok(1) c by (simp add: arena_ok_def)
  qed
  have m3: "mem s3 x = mem s1' x" if "arena_base s a \<le> x" "x < ?b + 4096" for x
    using that s3(7) s2(8) s1'(2,3) s2(5) top by simp
  have z2: "mem s3 x = NUL" if "?b + 4096 \<le> x" "x < ?b + 4112" for x
  proof -
    have "mem s3 x = mem s2 x" using that s3(7) s2(5) s1'(2) top b by simp
    then show ?thesis using that s2(9) s1'(3) by (simp add: mem_read_zeros)
  qed
  have z3: "mem s3 x = NUL" if "?b + 4112 \<le> x" "x < ?b + 12304" for x
    using that s3(8) top by (simp add: mem_read_zeros)
  have "mem_read (mem s4) ?b (length t) = mem_read (mem s1') ?b (length t)"
    using t m3 b by (intro mem_read_cong) (simp add: s4_def mem_outside_put64)
  also have "\<dots> = t" by (simp add: s1'_def s1(2) [symmetric] mem_simps)
  finally have "text_mem s4 ?b N t"
    using ok(2) t b top s3(4) s2(4) s1'(5) all N by (simp add: text_mem_def) (simp add: s4_def os_ok_def)
  moreover have "mem_read (mem s4) (?b + 4096) 4 = replicate 4 NUL"
    unfolding mem_read_zeros using z2 by (simp add: s4_def mem_outside_put64)
  then have "dec (mem_read (mem s4) (?b + 4096) 4) = 0" by simp
  moreover have "get64 (mem s4) (?b + 4104) = of_nat (?b + 4112)"
  proof -
    have "e = of_nat (unat e)" by simp
    also have "\<dots> = of_nat (?b + 4112)" using s3(2) top by (simp only:)
    finally show ?thesis by (simp add: s4_def mem_simps)
  qed
  moreover have "mem s4 x = NUL" if "?b + 4112 \<le> x" "x < ?b + 12304" for x
    using that z3 by (simp add: s4_def mem_outside_put64)
  ultimately have pm: "parser_mem s4 ?b N t []" by (simp add: parser_mem_def)
  have "\<forall>x. arena_base s a \<le> x \<and> x < ?b \<longrightarrow> mem s4 x = mem s x"
    using m3 s1(8) s1(2) by (auto simp: s4_def mem_outside_put64 s1'_def mem_outside_write)
  then show ?thesis
    using that [of p s1 pf s2 e s3 s4] s1(1) acc s2(1) [unfolded s1'_def] s3(1) st pm s1(2) top(3) ok4
      s3(4) s2(4) s1'(5) by (simp add: s4_def)
qed

lemma length_text_lines: "length (text_lines line cs) \<le> length cs"
  by (induction line cs rule: text_lines.induct) (auto simp: le_SucI)

section \<open>Properties\<close>

text \<open>C23: \<open>parse_proc_files\<close> on any file that is not empty. Of the lines in its first 4096 bytes those with a
  colon count. When none of them begins with the colon, there are as many entries as such lines, in order; the value of
  each is the text after the blanks that follow the colon, cut to 15 characters; the first 256 entries are in fresh
  zeroed memory and so are exact, with the key what stands before the colon without its last character, cut to 14.
  The array is the last block handed out and has 256 entries: with more lines than that the further entries are written
  past its end, into memory the arena has not handed out. Blocks handed out before keep their contents. A line that
  begins with the colon makes the call fault. The arena is assumed to have room for all that is written.\<close>

theorem parse_proc_files_result:
  assumes ok: "arena_ok s a" "os_ok s" and fd: "fs path = Some fd" "fd \<noteq> []"
    and ls: "ls = filter has_delim (text_lines [] (take 4096 fd))"
    and room: "4112 + 32 * max 256 (length ls) \<le> arena_room s a"
  shows "if keys_ok (text_lines [] (take 4096 fd))
    then \<exists>pf s'. parse_proc_files fs s (Some path) a = Inr (pf, s') \<and> pf \<noteq> 0 \<and>
      length (proc_file_at s' pf) = length ls \<and>
      map (c_str \<circ> entry_value) (proc_file_at s' pf) = map (c_str \<circ> entry_value) (map line_entry ls) \<and>
      take 256 (proc_file_at s' pf) = take 256 (map line_entry ls) \<and>
      unat (get64 (mem s') (unat pf + 8)) + 32 * 256 = arena_top s' a \<and> arena_top s' a = arena_top s a + 12304 \<and>
      arena_ok s' a \<and> regions s' = regions s \<and>
      (\<forall>x. arena_base s a \<le> x \<and> x < arena_top s a \<longrightarrow> mem s' x = mem s x)
    else parse_proc_files fs s (Some path) a = Inl Segfault"
proof -
  let ?t = "take 4096 fd" and ?b = "arena_top s a" and ?N = "max 256 (length ls)"
  have t: "length ?t \<le> 4096" by simp
  have N: "256 \<le> ?N" "?N \<le> 4096"
  proof -
    have "length (filter has_delim (text_lines [] ?t)) \<le> length (text_lines [] ?t)" by (rule length_filter_le)
    also have "\<dots> \<le> length ?t" by (rule length_text_lines)
    finally show "256 \<le> ?N" "?N \<le> 4096" using ls by simp_all
  qed
  obtain p s1 pf s2 e s3 s4 where blocks: "arena_alloc s a 4096 = Inr (p, s1)"
      "accessible s1 (unat p) 4096"
      "arena_alloc (s1\<lparr>mem := mem_write (unat p) ?t (mem s1)\<rparr>) a 16 = Inr (pf, s2)"
      "arena_alloc s2 a 8192 = Inr (e, s3)" "store64 s3 (pf + off_entries) e = Inr s4"
      and pm: "parser_mem s4 ?b ?N ?t []" "unat p = ?b" "unat pf = ?b + 4096"
      and s4: "arena_ok s4 a" "regions s4 = regions s" "arena_base s4 a = arena_base s a" "arena_top s4 a = ?b + 12304"
        "\<forall>x. arena_base s a \<le> x \<and> x < ?b \<longrightarrow> mem s4 x = mem s x"
    by (rule parser_blocks [OF ok room t N])
  have rd: "sys_read s1 fd p 4096 = (of_nat (length ?t), drop 4096 fd,
      s1\<lparr>mem := mem_write (unat p) ?t (mem s1)\<rparr>)" by (rule sys_read_run [OF blocks(2)])
  have u: "unat (of_nat (length ?t) :: u64) = length ?t" by (intro unat_of_nat_u64) simp
  have nz: "(of_nat (length ?t) :: u64) \<noteq> 0" using u fd(2) by (cases fd) auto
  have run: "parse_proc_files fs s (Some path) a =
      andthen (scan_bytes (length ?t) s4 pf p 0 \<lparr>line_start = 0, delim = - 1, entry_index = 0\<rparr>)
        (\<lambda>s. Inr (pf, s))"
    using arena_ok_nz [OF ok(1)] fd(1) blocks rd nz u
    unfolding parse_proc_files_def by (simp add: layout_simps Let_def)
  have st: "\<lparr>line_start = 0, delim = - 1, entry_index = 0\<rparr> = line_state [] [] 0"
    by (simp add: line_state_Nil)
  have eq: "?t = [] @ [] @ ?t" by simp
  have "length ([] :: proc_entry list) + length (filter has_delim (text_lines [] ?t)) \<le> ?N" using ls by simp
  note scan = scan_bytes_run [OF pm eq this]
  show ?thesis
  proof (cases "keys_ok (text_lines [] ?t)")
    case True
    then obtain s5 es where s5: "scan_bytes (length ?t) s4 pf p 0 (line_state [] [] 0) = Inr s5"
        "parser_mem s5 ?b ?N ?t es" "stores 0 es ls" "regions s5 = regions s4"
        "\<forall>x. x < ?b + 4096 \<or> ?b + 4112 + 32 * ?N \<le> x \<longrightarrow> mem s5 x = mem s4 x"
      using scan ls by auto
    have b: "unat a + 32 \<le> ?b" using arena.bounds [OF ok(1)] by (simp add: arena_base_def)
    have same: "mem s5 x = mem s4 x" if "x < unat a + 32" for x using s5(5) b that by simp
    have s5': "arena_ok s5 a" "arena_top s5 a = ?b + 12304"
      using arena_ok_cong [OF s4(1), of s5] s5(4) same s4(4) by simp_all
    have pf: "pf \<noteq> 0" using pm(3) by (metis add_is_0 unat_0 zero_neq_numeral)
    have keep: "\<forall>x. arena_base s a \<le> x \<and> x < ?b \<longrightarrow> mem s5 x = mem s x"
      using s4(5) s5(5) by simp
    have "parse_proc_files fs s (Some path) a = Inr (pf, s5)"
      using run s5(1) st by simp
    note res = parser_mem_result [OF s5(2) pm(3)]
    have len: "length es = length ls" using s5(3) by (simp add: stores_def)
    show ?thesis
      unfolding if_P [OF True]
      by (intro exI [of _ pf] exI [of _ s5] conjI)
        (use \<open>parse_proc_files fs s (Some path) a = Inr (pf, s5)\<close> pf res len stores_take [OF s5(3)] stores_values [OF s5(3)]
          s5' s4(2) s5(4) keep in \<open>simp_all only: \<close>, simp_all)
  next
    case False
    then show ?thesis using scan run st by simp
  qed
qed

definition demo_status :: files where
  "demo_status = [''/proc/1/status'' \<mapsto> ''Name:'' @ [TAB] @ ''init'' @ [NL] @ ''Pid: 1'' @ [NL]]"

text \<open>300 lines: 44 entries are written past the array.\<close>

definition demo_many :: files where
  "demo_many = [''/proc/many'' \<mapsto> concat (replicate 300 (''a:b'' @ [NL]))]"

lemma demo_many_lines: "text_lines [] (concat (replicate n (''a:b'' @ [NL]))) = replicate n ''a:b''"
  by (induction n) simp_all

theorem parse_proc_files_result_witness:
  "(\<exists>s a pf s'. parse_proc_files demo_status s (Some ''/proc/1/status'') a = Inr (pf, s') \<and>
     proc_file_at s' pf = [\<lparr>entry_value = pad16 ''init'', entry_key = pad16 ''Nam''\<rparr>,
       \<lparr>entry_value = pad16 ''1'', entry_key = pad16 ''Pi''\<rparr>]) \<and>
   (\<exists>s a pf s'. parse_proc_files demo_many s (Some ''/proc/many'') a = Inr (pf, s') \<and>
     length (proc_file_at s' pf) = 300 \<and> unat (get64 (mem s') (unat pf + 8)) + 32 * 256 = arena_top s' a)"
proof -
  obtain s where s: "arena_ok s 4096" "os_ok s" "arena_room s 4096 = unat (65536 :: u64)"
    by (rule page_arena [of 65536]) simp_all
  let ?fd = "''Name:'' @ [TAB] @ ''init'' @ [NL] @ ''Pid: 1'' @ [NL]"
  have t: "text_lines [] (take 4096 ?fd) = [''Name:'' @ [TAB] @ ''init'', ''Pid: 1'']" by simp
  have ls: "filter has_delim [''Name:'' @ [TAB] @ ''init'', ''Pid: 1''] = [''Name:'' @ [TAB] @ ''init'', ''Pid: 1'']"
    by (simp add: has_delim_def)
  have e: "map line_entry [''Name:'' @ [TAB] @ ''init'', ''Pid: 1''] =
      [\<lparr>entry_value = pad16 ''init'', entry_key = pad16 ''Nam''\<rparr>,
       \<lparr>entry_value = pad16 ''1'', entry_key = pad16 ''Pi''\<rparr>]"
    by (simp add: line_entry_def Let_def)
  have k: "keys_ok [''Name:'' @ [TAB] @ ''init'', ''Pid: 1'']" by (simp add: keys_ok_def)
  have fd: "demo_status ''/proc/1/status'' = Some ?fd" "?fd \<noteq> []" by (simp_all add: demo_status_def)
  have r: "4112 + 32 * max 256 (length [''Name:'' @ [TAB] @ ''init'', ''Pid: 1'']) \<le> arena_room s 4096"
    using s(3) by simp
  obtain pf s' where p: "parse_proc_files demo_status s (Some ''/proc/1/status'') 4096 = Inr (pf, s')"
      "length (proc_file_at s' pf) = length [''Name:'' @ [TAB] @ ''init'', ''Pid: 1'']"
      "take 256 (proc_file_at s' pf) = take 256 (map line_entry [''Name:'' @ [TAB] @ ''init'', ''Pid: 1''])"
    using parse_proc_files_result [where fs = demo_status, OF s(1,2) fd, unfolded t ls, OF refl r, unfolded if_P [OF k]]
    by (elim exE conjE) (rule that)
  have one: "proc_file_at s' pf = map line_entry [''Name:'' @ [TAB] @ ''init'', ''Pid: 1'']" using p(2,3) by simp
  let ?fd = "concat (replicate 300 (''a:b'' @ [NL]))"
  have len: "length (concat (replicate n (''a:b'' @ [NL]))) = 4 * n" for n by (induction n) simp_all
  have "length ?fd \<le> 4096" unfolding len by simp
  then have t: "text_lines [] (take 4096 ?fd) = replicate 300 ''a:b''" by (simp only: take_all demo_many_lines)
  have ls: "filter has_delim (replicate 300 ''a:b'') = replicate 300 ''a:b''" by (simp add: has_delim_def)
  have k: "keys_ok (replicate 300 ''a:b'')" by (simp add: keys_ok_def list_all_iff)
  have fd: "demo_many ''/proc/many'' = Some ?fd" by (simp add: demo_many_def)
  have ne: "?fd \<noteq> []" using len [of 300] by (metis list.size(3) mult_eq_0_iff zero_neq_numeral)
  have r: "4112 + 32 * max 256 (length (replicate 300 ''a:b'')) \<le> arena_room s 4096" using s(3) by simp
  obtain pf' s2 where q: "parse_proc_files demo_many s (Some ''/proc/many'') 4096 = Inr (pf', s2)"
      "length (proc_file_at s2 pf') = length (replicate 300 ''a:b'')"
      "unat (get64 (mem s2) (unat pf' + 8)) + 32 * 256 = arena_top s2 4096"
    using parse_proc_files_result [where fs = demo_many, OF s(1,2) fd ne, unfolded t ls, OF refl r, unfolded if_P [OF k]]
    by (elim exE conjE) (rule that)
  show ?thesis
  proof
    show "\<exists>s a pf s'. parse_proc_files demo_status s (Some ''/proc/1/status'') a = Inr (pf, s') \<and>
       proc_file_at s' pf = [\<lparr>entry_value = pad16 ''init'', entry_key = pad16 ''Nam''\<rparr>,
         \<lparr>entry_value = pad16 ''1'', entry_key = pad16 ''Pi''\<rparr>]"
      using p(1) one unfolding e by blast
    show "\<exists>s a pf s'. parse_proc_files demo_many s (Some ''/proc/many'') a = Inr (pf, s') \<and>
       length (proc_file_at s' pf) = 300 \<and> unat (get64 (mem s') (unat pf + 8)) + 32 * 256 = arena_top s' a"
      using q by (intro exI [of _ s] exI [of _ 4096] exI [of _ pf'] exI [of _ s2]) simp
  qed
qed

end
