(* ===== verification/Pkg.thy ===== *)
theory Pkg
  imports Service
begin

text \<open>
  \<open>libpkg/pkg.c\<close> and \<open>pkg.h\<close>: the name of the distribution in lower case, and the table of the known
  distributions. The code counts characters with an \<open>i32\<close>; \<open>char\<close> is signed on x86-64 and
  unsigned on AArch64.
\<close>

section \<open>The table\<close>

datatype LinuxDistro =
    DISTRO_UNKNOWN
  | DISTRO_ARCH_LINUX | DISTRO_MANJARO | DISTRO_ENDEAVOUROS | DISTRO_ARCO | DISTRO_GARUDA
  | DISTRO_DEBIAN | DISTRO_UBUNTU | DISTRO_LINUX_MINT | DISTRO_POP_OS
  | DISTRO_FEDORA | DISTRO_RHEL | DISTRO_CENTOS_STREAM | DISTRO_ROCKY | DISTRO_ALMA
  | DISTRO_GENTOO | DISTRO_NIXOS | DISTRO_OPENSUSE
  | DISTRO_COUNT

record DistroStack =
  distro_name :: string
  linux_distro :: LinuxDistro

definition distro_map :: "DistroStack list" where
  "distro_map = map (\<lambda>(n, d). \<lparr>distro_name = n, linux_distro = d\<rparr>)
    [(''arch'', DISTRO_ARCH_LINUX), (''manjaro'', DISTRO_MANJARO), (''endeavouros'', DISTRO_ENDEAVOUROS),
     (''arco'', DISTRO_ARCO), (''garuda'', DISTRO_GARUDA),
     (''debian'', DISTRO_DEBIAN), (''ubuntu'', DISTRO_UBUNTU), (''mint'', DISTRO_LINUX_MINT),
     (''pop'', DISTRO_POP_OS),
     (''fedora'', DISTRO_FEDORA), (''rhel'', DISTRO_RHEL), (''centos'', DISTRO_CENTOS_STREAM),
     (''rocky'', DISTRO_ROCKY), (''alma'', DISTRO_ALMA),
     (''gentoo'', DISTRO_GENTOO), (''nixos'', DISTRO_NIXOS), (''opensuse'', DISTRO_OPENSUSE)]"

section \<open>Operations\<close>

definition char_value :: "arch \<Rightarrow> char \<Rightarrow> int" where
  "char_value ar c = (if ar = X86_64 then sint (of_char c :: 8 word) else of_char c)"

text \<open>\<open>if (c < 'a') c += 'a' - 'A'\<close>.\<close>

definition lower_char :: "arch \<Rightarrow> char \<Rightarrow> char" where
  "lower_char ar c = (if char_value ar c < 97 then char_of (of_char c + 32 :: nat) else c)"

function lower_from :: "arch \<Rightarrow> os \<Rightarrow> u64 \<Rightarrow> u64 \<Rightarrow> nat \<Rightarrow> (nat \<times> os) run" where
  "lower_from ar s distro buffer i =
     andthen (load8 s (distro + of_nat i)) (\<lambda>c.
     if c = NUL then Inr (i, s)
     else
       andthen (if c = CHR '' '' then Inr s
                else andthen (store8 s (distro + of_nat i) (lower_char ar c)) (\<lambda>s.
                     store8 s (buffer + of_nat i) (lower_char ar c))) (\<lambda>s.
       if 2147483647 \<le> i then Inl Signed_overflow else lower_from ar s distro buffer (i + 1)))"
  by pat_completeness auto
termination by (relation "measure (\<lambda>(ar, s, d, b, i). 2147483648 - i)") auto

declare lower_from.simps [simp del]

definition find_lxd_pkgm :: "arch \<Rightarrow> files \<Rightarrow> os \<Rightarrow> u64 \<Rightarrow> (u64 \<times> os) run" where
  "find_lxd_pkgm ar fs s a =
     andthen (device_create s a) (\<lambda>(dev, s).
     andthen (device_read_at fs s dev) (\<lambda>s.
     andthen (arena_alloc s a 256) (\<lambda>(distro_unparsed, s).
     andthen (memmove s distro_unparsed dev 256) (\<lambda>s.
     andthen (arena_alloc s a 256) (\<lambda>(buffer, s).
     andthen (lower_from ar s distro_unparsed buffer 0) (\<lambda>(word_idx, s).
     andthen (store8 s (buffer + of_nat word_idx) NUL) (\<lambda>s.
     Inr (buffer, s))))))))"

section \<open>The loop\<close>

text \<open>What it leaves of a name in the buffer: a space leaves the zero byte that was there.\<close>

definition lower_name :: "arch \<Rightarrow> string \<Rightarrow> char list" where
  "lower_name ar = map (\<lambda>c. if c = CHR '' '' then NUL else lower_char ar c)"

lemma load8_at: "accessible s b n \<Longrightarrow> b + i < b + n \<Longrightarrow> unat p = b + i \<Longrightarrow> load8 s p = Inr (mem s (b + i))"
  using accessible_sub [of s b n "b + i" 1] by (simp add: load8_def)

lemma store8_at: "accessible s b n \<Longrightarrow> b + i < b + n \<Longrightarrow> unat p = b + i \<Longrightarrow>
    store8 s p c = Inr (s\<lparr>mem := mem_write (b + i) [c] (mem s)\<rparr>)"
  using accessible_sub [of s b n "b + i" 1] by (simp add: store8_def)

lemma lower_from_run:
  assumes "accessible s d 256" "accessible s b 256" and "d + 256 \<le> b" "b + 256 < 18446744073709551616"
    and "unat p = d" "unat q = b" and "i + length cs < 256" and "NUL \<notin> set cs"
    and "mem_read (mem s) (d + i) (Suc (length cs)) = cs @ [NUL]"
    and "\<forall>x. b + i \<le> x \<and> x < b + 256 \<longrightarrow> mem s x = NUL"
  shows "\<exists>s'. lower_from ar s p q i = Inr (i + length cs, s') \<and> regions s' = regions s \<and>
    mem_read (mem s') (b + i) (length cs) = lower_name ar cs \<and>
    (\<forall>x. b + i + length cs \<le> x \<and> x < b + 256 \<longrightarrow> mem s' x = NUL) \<and>
    (\<forall>x. (x < d + i \<or> d + 256 \<le> x) \<and> (x < b + i \<or> b + 256 \<le> x) \<longrightarrow> mem s' x = mem s x)"
  using assms(1,2,7-)
proof (induction cs arbitrary: s i)
  case Nil
  have "unat (p + of_nat i) = d + i"
    using assms(3-5) Nil.prems(3) by (subst unat_add_nowrap) (simp_all add: unat_of_nat_u64)
  then have "load8 s (p + of_nat i) = Inr NUL"
    using Nil.prems load8_at [of s d 256 i] by (simp add: mem_read_Suc)
  then show ?case using Nil.prems by (subst lower_from.simps) (simp add: lower_name_def)
next
  case (Cons c cs)
  have u: "unat (p + of_nat i) = d + i" "unat (q + of_nat i) = b + i"
    using assms(3-6) Cons.prems(3) by (subst unat_add_nowrap; simp add: unat_of_nat_u64)+
  have ld: "load8 s (p + of_nat i) = Inr c" "c \<noteq> NUL"
      "mem_read (mem s) (d + Suc i) (Suc (length cs)) = cs @ [NUL]"
    using Cons.prems load8_at [of s d 256 i] u by (auto simp: mem_read_Suc [of _ "d + i"])
  define s1 where "s1 = (if c = CHR '' '' then s else s\<lparr>mem := mem_write (b + i) [lower_char ar c]
      (mem_write (d + i) [lower_char ar c] (mem s))\<rparr>)"
  have step: "lower_from ar s p q i = lower_from ar s1 p q (Suc i)"
    using ld Cons.prems(1-3) u
      store8_at [of s d 256 i "p + of_nat i" "lower_char ar c"]
      store8_at [of "s\<lparr>mem := mem_write (d + i) [lower_char ar c] (mem s)\<rparr>" b 256 i "q + of_nat i" "lower_char ar c"]
    by (subst lower_from.simps) (simp add: s1_def)
  have "mem_read (mem s1) (d + Suc i) (Suc (length cs)) = mem_read (mem s) (d + Suc i) (Suc (length cs))"
    using assms(3) Cons.prems(3) by (intro mem_read_cong) (simp add: s1_def mem_outside_write)
  then have p1: "accessible s1 d 256" "accessible s1 b 256" "Suc i + length cs < 256" "NUL \<notin> set cs"
      "mem_read (mem s1) (d + Suc i) (Suc (length cs)) = cs @ [NUL]"
      "\<forall>x. b + Suc i \<le> x \<and> x < b + 256 \<longrightarrow> mem s1 x = NUL" "regions s1 = regions s"
    using Cons.prems ld(3) assms(3) by (simp_all add: s1_def mem_outside_write)
  obtain s2 where s2: "lower_from ar s1 p q (Suc i) = Inr (Suc i + length cs, s2)" "regions s2 = regions s1"
      "mem_read (mem s2) (b + Suc i) (length cs) = lower_name ar cs"
      "\<forall>x. b + Suc i + length cs \<le> x \<and> x < b + 256 \<longrightarrow> mem s2 x = NUL"
      "\<forall>x. (x < d + Suc i \<or> d + 256 \<le> x) \<and> (x < b + Suc i \<or> b + 256 \<le> x) \<longrightarrow> mem s2 x = mem s1 x"
    using Cons.IH [OF p1(1-6)] by blast
  have "mem s2 (b + i) = mem s1 (b + i)" using s2(5) assms(3) by simp
  then have "mem s2 (b + i) = (if c = CHR '' '' then NUL else lower_char ar c)"
    using Cons.prems(3,6) by (simp add: s1_def) (simp add: mem_write_def)
  then have "mem_read (mem s2) (b + i) (length (c # cs)) = lower_name ar (c # cs)"
    using s2(3) by (simp add: mem_read_Suc lower_name_def)
  moreover have "mem s2 x = mem s x" if "(x < d + i \<or> d + 256 \<le> x) \<and> (x < b + i \<or> b + 256 \<le> x)" for x
    using that s2(5) Cons.prems(3) by (auto simp: s1_def mem_outside_write)
  ultimately show ?case using step s2(1,2,4) p1(7) by auto
qed

section \<open>The name\<close>

text \<open>The three blocks: the device, the copy of its system name and the buffer.\<close>

lemma pkg_blocks:
  assumes ok: "arena_ok s a" "1056 \<le> arena_room s a"
    and r: "device_read fs (Some zero_device) = Inr (e, Some d)" "wf_device d"
  obtains dev p q s1 s2 s3 s4 s5 where "device_create s a = Inr (dev, s1)"
    and "device_read_at fs s1 dev = Inr s2" and "arena_alloc s2 a 256 = Inr (p, s3)"
    and "memmove s3 p dev 256 = Inr s4" and "arena_alloc s4 a 256 = Inr (q, s5)"
    and "unat p = arena_top s a + 544" and "unat q = arena_top s a + 800" and "arena_ok s5 a"
    and "regions s5 = regions s" and "arena_base s5 a = arena_base s a"
    and "arena_top s5 a = arena_top s a + 1056"
    and "mem_read (mem s5) (arena_top s a + 544) 256 = os_version d"
    and "mem_read (mem s5) (arena_top s a + 800) 256 = replicate 256 NUL"
    and "\<forall>x. arena_base s a \<le> x \<and> x < arena_top s a \<longrightarrow> mem s5 x = mem s x"
proof -
  let ?b = "arena_top s a"
  note b = arena.bounds [OF ok(1)]
  have "unat sizeof_sys_device = 544" "544 \<le> arena_room s a" using ok(2) by (simp_all add: layout_simps)
  then obtain dev s1 where s1: "arena_alloc s a sizeof_sys_device = Inr (dev, s1)" "unat dev = ?b"
      "arena_ok s1 a" "regions s1 = regions s" "arena_base s1 a = arena_base s a" "arena_top s1 a = ?b + 544"
      "arena_room s1 a = arena_room s a - 544" "mem_read (mem s1) (unat dev) 544 = replicate 544 NUL"
      "\<forall>x. arena_base s a \<le> x \<and> x < ?b \<longrightarrow> mem s1 x = mem s x"
    by (rule new_struct [OF ok(1)])
  define s2 where "s2 = s1\<lparr>mem := mem_write ?b (en_device d) (mem s1)\<rparr>"
  have len: "length (en_device d) = 544" by (rule device.length_en [OF r(2)])
  have p1: "arena_base s1 a \<le> unat dev" "unat dev + 544 \<le> arena_top s1 a" using s1 b by simp_all
  have r2: "device_read_at fs s1 dev = Inr s2"
    using device_read_at_eq [OF s1(3) p1 s1(8) r] s1(2) by (simp add: s2_def)
  have "unat dev + length (en_device d) \<le> arena_top s1 a" using p1 len by simp
  note w = arena_memcpy(2-) [OF s1(3) p1(1) this, of s2]
  have s2: "arena_ok s2 a" "arena_base s2 a = arena_base s a" "arena_top s2 a = ?b + 544"
      "arena_room s2 a = arena_room s a - 544" "regions s2 = regions s"
    using w s1 by (simp_all add: s2_def)
  have "take 256 (en_device d) = os_version d" using r(2) by (simp add: en_device_def wf_device_def)
  then have v2: "mem_read (mem s2) ?b 256 = os_version d"
    using mem_read_sub [of "mem s2" ?b "en_device d" 0 256] len by (simp add: s2_def mem_simps)
  have u: "unat (256 :: u64) = 256" "256 \<le> arena_room s2 a" using s2(4) ok(2) by simp_all
  obtain p s3 where s3: "arena_alloc s2 a 256 = Inr (p, s3)" "unat p = ?b + 544" "arena_ok s3 a"
      "regions s3 = regions s" "arena_base s3 a = arena_base s a" "arena_top s3 a = ?b + 800"
      "arena_room s3 a = arena_room s a - 800"
      "\<forall>x. arena_base s a \<le> x \<and> x < ?b + 544 \<longrightarrow> mem s3 x = mem s2 x"
    by (rule new_struct [OF s2(1) u]) (use s2 in simp)
  define s4 where "s4 = s3\<lparr>mem := mem_write (?b + 544) (os_version d) (mem s3)\<rparr>"
  have lv: "length (os_version d) = 256" using r(2) by (simp add: wf_device_def)
  have "mem_read (mem s3) ?b 256 = mem_read (mem s2) ?b 256"
    using s3(8) b by (intro mem_read_cong) simp
  moreover have "accessible s3 ?b 256" using s3 b by (intro arena.reach [OF s3(3)]) simp_all
  ultimately have ld: "load_bytes s3 dev 256 = Inr (os_version d)"
    using v2 s1(2) by (simp add: load_bytes_def)
  have "arena_base s3 a \<le> unat p" "unat p + length (os_version d) \<le> arena_top s3 a"
    using s3 b lv by simp_all
  note w = arena_memcpy [OF s3(3) this, of s4]
  have s4: "arena_ok s4 a" "arena_base s4 a = arena_base s a" "arena_top s4 a = ?b + 800"
      "arena_room s4 a = arena_room s a - 800" "regions s4 = regions s" "memmove s3 p dev 256 = Inr s4"
    using w s3 ld by (simp_all add: s4_def memmove_def)
  have u: "unat (256 :: u64) = 256" "256 \<le> arena_room s4 a" using s4(4) ok(2) by simp_all
  obtain q s5 where s5: "arena_alloc s4 a 256 = Inr (q, s5)" "unat q = ?b + 800" "arena_ok s5 a"
      "regions s5 = regions s" "arena_base s5 a = arena_base s a" "arena_top s5 a = ?b + 1056"
      "mem_read (mem s5) (unat q) 256 = replicate 256 NUL"
      "\<forall>x. arena_base s a \<le> x \<and> x < ?b + 800 \<longrightarrow> mem s5 x = mem s4 x"
    by (rule new_struct [OF s4(1) u]) (use s4 in simp)
  have "mem_read (mem s5) (?b + 544) 256 = mem_read (mem s4) (?b + 544) 256"
    using s5(8) b by (intro mem_read_cong) simp
  then have v5: "mem_read (mem s5) (?b + 544) 256 = os_version d"
    using lv by (simp add: s4_def mem_simps)
  have fr: "\<forall>x. arena_base s a \<le> x \<and> x < ?b \<longrightarrow> mem s5 x = mem s x"
    using s5(8) s3(8) s1(9) by (simp add: s4_def s2_def mem_outside_write)
  show ?thesis
    using that [of dev s1 s2 p s3 s4 q s5] s1(1) r2 s3(1,2) s4(6) s5 v5 fr by (simp add: device_create_def)
qed

lemma os_names_length: "nm \<in> set (os_names (fgets_lines 256 f)) \<Longrightarrow> length nm < 255 \<and> NUL \<notin> set nm"
proof -
  assume "nm \<in> set (os_names (fgets_lines 256 f))"
  then obtain buf where buf: "buf \<in> set (fgets_lines 256 f)" "os_name buf = Some nm"
    by (auto simp: os_names_def List.map_filter_def)
  then show ?thesis
    using os_name_sub [OF buf(2)] fgets_lines_length [OF buf(1)] fgets_lines_NUL [OF buf(1)] by auto
qed

lemma c_str_split: "length (c_str v) < length v \<Longrightarrow> \<exists>r. v = c_str v @ NUL # r \<and> NUL \<notin> set (c_str v)"
proof (induction v)
  case (Cons c v)
  then show ?case by (cases "c = NUL") (auto simp: c_str_def)
qed simp

lemma find_lxd_pkgm_run:
  assumes ok: "arena_ok s a" "1056 \<le> arena_room s a"
    and r: "device_read fs (Some zero_device) = Inr (e, Some d)" "wf_device d"
    and nm: "nm = c_str (os_version d)" "length nm < 256"
  obtains q s' where "find_lxd_pkgm ar fs s a = Inr (q, s')" and "unat q = arena_top s a + 800"
    and "c_string_at s' q = Inr (c_str (lower_name ar nm @ [NUL]))" and "arena_ok s' a"
    and "regions s' = regions s" and "\<forall>x. arena_base s a \<le> x \<and> x < arena_top s a \<longrightarrow> mem s' x = mem s x"
proof -
  let ?b = "arena_top s a"
  obtain dev p q s1 s2 s3 s4 s5 where run: "device_create s a = Inr (dev, s1)"
      "device_read_at fs s1 dev = Inr s2" "arena_alloc s2 a 256 = Inr (p, s3)"
      "memmove s3 p dev 256 = Inr s4" "arena_alloc s4 a 256 = Inr (q, s5)"
    and pq: "unat p = ?b + 544" "unat q = ?b + 800"
    and s5: "arena_ok s5 a" "regions s5 = regions s" "arena_base s5 a = arena_base s a"
      "arena_top s5 a = ?b + 1056" "mem_read (mem s5) (?b + 544) 256 = os_version d"
      "mem_read (mem s5) (?b + 800) 256 = replicate 256 NUL"
      "\<forall>x. arena_base s a \<le> x \<and> x < ?b \<longrightarrow> mem s5 x = mem s x"
    by (rule pkg_blocks [OF ok r])
  note b = arena.bounds [OF s5(1)]
  have acc: "accessible s5 (?b + 544) 256" "accessible s5 (?b + 800) 256"
    using s5(3,4) arena.bounds [OF ok(1)] arena.reach [OF s5(1)] by simp_all
  have lv: "length (os_version d) = 256" using r(2) by (simp add: wf_device_def)
  obtain rest where v: "os_version d = nm @ NUL # rest" "NUL \<notin> set nm"
    using c_str_split [of "os_version d"] nm lv by auto
  have "mem_read (mem s5) (?b + 544 + 0) (Suc (length nm)) = take (Suc (length nm)) (drop 0 (os_version d))"
    using s5(5) lv nm(2) by (intro mem_read_sub) simp_all
  then have src: "mem_read (mem s5) (?b + 544 + 0) (Suc (length nm)) = nm @ [NUL]" by (simp add: v(1))
  have z: "\<forall>x. ?b + 800 + 0 \<le> x \<and> x < ?b + 800 + 256 \<longrightarrow> mem s5 x = NUL"
    using s5(6) by (simp add: mem_read_zeros)
  have bounds: "?b + 544 + 256 \<le> ?b + 800" "?b + 800 + 256 < 18446744073709551616" "0 + length nm < 256"
    using b s5(4) nm(2) by simp_all
  have eqs: "?b + 544 + 0 = ?b + 544" "?b + 800 + 0 = ?b + 800" "?b + 544 + 256 = ?b + 800"
      "?b + 800 + 256 = ?b + 1056" "0 + length nm = length nm" by simp_all
  obtain s6 where s6: "lower_from ar s5 p q 0 = Inr (length nm, s6)" "regions s6 = regions s5"
      "mem_read (mem s6) (?b + 800) (length nm) = lower_name ar nm"
      "\<forall>x. ?b + 800 + length nm \<le> x \<and> x < ?b + 1056 \<longrightarrow> mem s6 x = NUL"
      "\<forall>x. (x < ?b + 544 \<or> ?b + 800 \<le> x) \<and> (x < ?b + 800 \<or> ?b + 1056 \<le> x) \<longrightarrow> mem s6 x = mem s5 x"
    using lower_from_run [OF acc bounds(1,2) pq bounds(3) v(2) src z, of ar, unfolded eqs] by blast
  define s7 where "s7 = s6\<lparr>mem := mem_write (?b + 800 + length nm) [NUL] (mem s6)\<rparr>"
  have acc6: "accessible s6 (?b + 800) 256" using acc(2) s6(2) by (simp add: accessible_def)
  have uq: "unat (q + of_nat (length nm)) = ?b + 800 + length nm"
    using pq(2) b s5(4) nm(2) unat_add_nowrap [of q "of_nat (length nm)"] by (simp add: unat_of_nat_u64)
  have st: "store8 s6 (q + of_nat (length nm)) NUL = Inr s7"
    using store8_at [OF acc6, of "length nm"] uq nm(2) by (simp add: s7_def)
  have "mem s7 = mem s6"
    using s6(4) nm(2) by (intro ext) (simp add: s7_def mem_write_def)
  then have s7: "s7 = s6" by (simp add: s7_def)
  have "mem_read (mem s6) (?b + 800 + length nm) (256 - length nm) = replicate (256 - length nm) NUL"
    using s6(4) nm(2) by (simp add: mem_read_zeros)
  then have buf: "mem_read (mem s6) (unat q) 256 = lower_name ar nm @ replicate (256 - length nm) NUL"
    using s6(3) mem_read_add [of "mem s6" "?b + 800" "length nm" "256 - length nm"] nm(2) pq(2) by simp
  have "256 - length nm = Suc (255 - length nm)" using nm(2) by simp
  then have rep: "replicate (256 - length nm) NUL = NUL # replicate (255 - length nm) NUL" by simp
  have "field 0 256 (mem_read (mem s6) (unat q) 256) = mem_read (mem s6) (unat q) 256"
    by (simp add: field_def)
  then have "lower_name ar nm @ replicate (256 - length nm) NUL = field 0 256 (mem_read (mem s6) (unat q) 256)"
    using buf by simp
  moreover have "NUL \<in> set (lower_name ar nm @ replicate (256 - length nm) NUL)" using rep by simp
  ultimately have "c_string_at s6 (q + 0) = Inr (c_str (lower_name ar nm @ replicate (256 - length nm) NUL))"
    using acc6 pq(2) b s5(4) by (intro c_string_at_field [of _ _ 256 0 256]) simp_all
  moreover have "c_str (lower_name ar nm @ NUL # r) = c_str (lower_name ar nm @ [NUL])" for r
    by (simp add: c_str_def takeWhile_tail)
  ultimately have cs: "c_string_at s6 q = Inr (c_str (lower_name ar nm @ [NUL]))" using rep by simp
  have "arena_ok s6 a"
    using s6(2,5) arena.bounds [OF ok(1)] by (intro arena_ok_cong(1) [OF s5(1)]) (auto simp: arena_base_def)
  moreover have "\<forall>x. arena_base s a \<le> x \<and> x < ?b \<longrightarrow> mem s6 x = mem s x" using s6(5) s5(7) by simp
  moreover have "find_lxd_pkgm ar fs s a = Inr (q, s6)"
    using run s6(1) st s7 by (simp add: find_lxd_pkgm_def)
  ultimately show ?thesis using that pq(2) cs s6(2) s5(2) by simp
qed

section \<open>Properties\<close>

text \<open>C34: \<open>find_lxd_pkgm\<close> with both device files readable, in an arena with 1056 bytes left, returns
  a fresh C string: the system name with its spaces turned into terminators, so the string ends at the first of
  them, and 32 added to every character below \<open>'a'\<close>. The arena stays well formed and earlier blocks keep
  their contents.\<close>

theorem find_lxd_pkgm_name:
  assumes "arena_ok s a" and "1056 \<le> arena_room s a"
    and "fs ''/etc/os-release'' = Some f" and "fs ''/proc/uptime'' = Some u" and "scan_ld u = Some (secs, r)"
    and "nm = (if os_names (fgets_lines 256 f) = [] then [] else last (os_names (fgets_lines 256 f)))"
  shows "\<exists>q s'. find_lxd_pkgm ar fs s a = Inr (q, s') \<and> unat q = arena_top s a + 800 \<and>
    c_string_at s' q = Inr (c_str (lower_name ar nm @ [NUL])) \<and> arena_ok s' a \<and> regions s' = regions s \<and>
    (\<forall>x. arena_base s a \<le> x \<and> x < arena_top s a \<longrightarrow> mem s' x = mem s x)"
proof -
  obtain d where d: "device_read fs (Some zero_device) = Inr (ERR_OK, Some d)" "wf_device d"
      "c_str (os_version d) = nm"
    using device_read_run [where fs = fs, OF wf_zero(2) assms(3-5)] assms(6)
    by (auto simp: zero_device_def c_str_def)
  have "length nm < 256"
    using os_names_length [of "last (os_names (fgets_lines 256 f))" f] assms(6) by fastforce
  then obtain q s' where "find_lxd_pkgm ar fs s a = Inr (q, s')" "unat q = arena_top s a + 800"
      "c_string_at s' q = Inr (c_str (lower_name ar nm @ [NUL]))" "arena_ok s' a" "regions s' = regions s"
      "\<forall>x. arena_base s a \<le> x \<and> x < arena_top s a \<longrightarrow> mem s' x = mem s x"
    by (rule find_lxd_pkgm_run [OF assms(1,2) d(1,2) d(3) [symmetric]])
  then show ?thesis by blast
qed

text \<open>Names whose first word is a key of \<^const>\<open>distro_map\<close> give that key. The punctuation of
  \<open>Pop!_OS\<close> is shifted like a letter, and the second word of \<open>Linux Mint\<close> is lost.\<close>

lemma lower_examples:
  "c_str (lower_name ar ''Fedora Linux'' @ [NUL]) = ''fedora''"
  "c_str (lower_name ar ''NixOS'' @ [NUL]) = ''nixos''"
  "c_str (lower_name ar ''Pop!_OS'' @ [NUL]) = ''popA'' @ [CHR 0x7F] @ ''os''"
  "c_str (lower_name ar ''Linux Mint'' @ [NUL]) = ''linux''"
  by (simp_all add: lower_name_def lower_char_def char_value_def c_str_def char_of_def bit_0)

theorem find_lxd_pkgm_name_witness:
  "\<exists>s a q s'. find_lxd_pkgm X86_64 demo_device_files s a = Inr (q, s') \<and> c_string_at s' q = Inr ''arch''"
proof -
  obtain s where s: "arena_ok s 4096" "arena_room s 4096 = unat (65536 :: u64)"
    by (rule page_arena [of 65536]) simp_all
  have r: "1056 \<le> arena_room s 4096" using s(2) by simp
  have "scan_ld ([] @ show_nat 93784 @ ''.12 5.3'' @ [NL]) = Some (int 93784, ''.12 5.3'' @ [NL])"
    by (rule scan_ld_show) (simp_all add: is_digit_def)
  then have scan: "scan_ld (show_nat 93784 @ ''.12 5.3'' @ [NL]) = Some (93784, ''.12 5.3'' @ [NL])" by simp
  have f: "demo_device_files ''/etc/os-release'' = Some (''NAME='' @ [CHR 0x22] @ ''Arch'' @ [CHR 0x22, NL])"
      "demo_device_files ''/proc/uptime'' = Some (show_nat 93784 @ ''.12 5.3'' @ [NL])"
    by (simp_all add: demo_device_files_def)
  have "c_str (lower_name X86_64 ''Arch'' @ [NUL]) = ''arch''"
    by (simp add: lower_name_def lower_char_def char_value_def c_str_def char_of_def bit_0)
  then show ?thesis
    using find_lxd_pkgm_name [of s 4096 demo_device_files, OF s(1) r f scan refl, of X86_64,
        unfolded demo_os_names] by auto
qed

end
