(* ===== verification/Dnf.thy ===== *)
theory Dnf
  imports Prelude
begin

text \<open>
  \<open>libpkg/distro/fedora_dnf.cc\<close>: the set-up, the query and the transaction of the Fedora package
  manager. libdnf5 is a parameter, a record of the functions the code calls on a state \<open>'l\<close>; a call
  that throws is \<^const>\<open>Inl\<close> of the exception, which no function of the file catches.
\<close>

section \<open>The library\<close>

record ('b, 'k, 'g, 't, 'p, 'a, 'd, 'r, 'l, 'x) libdnf5 =
  new_base :: "'l \<Rightarrow> 'x + ('b \<times> 'l)"
  base_setup :: "'b \<Rightarrow> 'l \<Rightarrow> 'x + 'l"
  create_repos_from_system_configuration :: "'b \<Rightarrow> 'l \<Rightarrow> 'x + 'l"
  load_repos :: "'b \<Rightarrow> 'l \<Rightarrow> 'x + 'l"
  filter_name :: "'b \<Rightarrow> string \<Rightarrow> 'l \<Rightarrow> 'x + 'k list"
  get_nevra :: "'k \<Rightarrow> string"
  new_goal :: "'b \<Rightarrow> 'x + 'g"
  add_rpm_install :: "'g \<Rightarrow> string \<Rightarrow> 'x + 'g"
  goal_resolve :: "'g \<Rightarrow> 'l \<Rightarrow> 'x + ('t \<times> 'l)"
  get_transaction_packages :: "'t \<Rightarrow> 'p list"
  get_action :: "'p \<Rightarrow> 'a"
  transaction_item_action_is_inbound :: "'a \<Rightarrow> bool"
  get_package :: "'p \<Rightarrow> 'k"
  new_downloader :: "'b \<Rightarrow> 'x + 'd"
  downloader_add :: "'k \<Rightarrow> 'd \<Rightarrow> 'x + 'd"
  downloader_download :: "'d \<Rightarrow> 'l \<Rightarrow> 'x + ('d \<times> 'l)"
  set_callbacks_null :: "'t \<Rightarrow> 't"
  set_description :: "'t \<Rightarrow> string \<Rightarrow> 't"
  transaction_run :: "'t \<Rightarrow> 'l \<Rightarrow> 'x + ('r \<times> 'l)"

text \<open>An exception leaves the function at the call that threw it.\<close>

fun unless_thrown :: "'x + 'a \<Rightarrow> ('a \<Rightarrow> 'x + 'c) \<Rightarrow> 'x + 'c" where
  "unless_thrown (Inl e) f = Inl e"
| "unless_thrown (Inr v) f = f v"

lemma unless_thrown_Inr: "unless_thrown r f = Inr y \<longleftrightarrow> (\<exists>v. r = Inr v \<and> f v = Inr y)"
  by (cases r) auto

section \<open>Operations\<close>

definition dnf_setup :: "('b, 'k, 'g, 't, 'p, 'a, 'd, 'r, 'l, 'x) libdnf5 \<Rightarrow> 'l \<Rightarrow> 'x + ('b \<times> 'l)" where
  "dnf_setup lib l =
     unless_thrown (new_base lib l) (\<lambda>(b, l).
     unless_thrown (base_setup lib b l) (\<lambda>l.
     unless_thrown (create_repos_from_system_configuration lib b l) (\<lambda>l.
     unless_thrown (load_repos lib b l) (\<lambda>l. Inr (b, l)))))"

definition dnf_query ::
  "('b, 'k, 'g, 't, 'p, 'a, 'd, 'r, 'l, 'x) libdnf5 \<Rightarrow> 'b \<Rightarrow> string \<Rightarrow> 'l \<Rightarrow> 'x + string list" where
  "dnf_query lib b package_name l =
     unless_thrown (filter_name lib b package_name l) (\<lambda>pkgs.
     Inr (foldl (\<lambda>packages pkg. packages @ [get_nevra lib pkg]) [] pkgs))"

fun download_inbound ::
  "('b, 'k, 'g, 't, 'p, 'a, 'd, 'r, 'l, 'x) libdnf5 \<Rightarrow> 'p list \<Rightarrow> 'd \<Rightarrow> 'l \<Rightarrow> 'x + ('d \<times> 'l)" where
  "download_inbound lib [] d l = Inr (d, l)"
| "download_inbound lib (tspkg # tspkgs) d l =
     (if transaction_item_action_is_inbound lib (get_action lib tspkg)
      then unless_thrown (downloader_add lib (get_package lib tspkg) d) (\<lambda>d.
        unless_thrown (downloader_download lib d l) (\<lambda>(d, l).
        download_inbound lib tspkgs d l))
      else download_inbound lib tspkgs d l)"

definition prepared ::
  "('b, 'k, 'g, 't, 'p, 'a, 'd, 'r, 'l, 'x) libdnf5 \<Rightarrow> 't \<Rightarrow> 't" where
  "prepared lib t =
     set_description lib (set_callbacks_null lib t) ''installing a package for the first time''"

definition run_transaction ::
  "('b, 'k, 'g, 't, 'p, 'a, 'd, 'r, 'l, 'x) libdnf5 \<Rightarrow> 'b \<Rightarrow> string \<Rightarrow> 'l \<Rightarrow> 'x + 'l" where
  "run_transaction lib b package_name l =
     unless_thrown (new_goal lib b) (\<lambda>goal.
     unless_thrown (add_rpm_install lib goal package_name) (\<lambda>goal.
     unless_thrown (goal_resolve lib goal l) (\<lambda>(t, l).
     unless_thrown (new_downloader lib b) (\<lambda>d.
     unless_thrown (download_inbound lib (get_transaction_packages lib t) d l) (\<lambda>(d, l).
     unless_thrown (downloader_download lib d l) (\<lambda>(_, l).
     unless_thrown (transaction_run lib (prepared lib t) l) (\<lambda>(_, l). Inr l)))))))"

section \<open>Results\<close>

lemma push_back_map: "foldl (\<lambda>xs x. xs @ [f x]) ys xs = ys @ map f xs"
  by (induction xs arbitrary: ys) simp_all

text \<open>The query answers the names of the packages found, in the order found.\<close>

theorem dnf_query_names:
  "dnf_query lib b name l = (case filter_name lib b name l of
     Inl e \<Rightarrow> Inl e | Inr pkgs \<Rightarrow> Inr (map (get_nevra lib) pkgs))"
  by (simp add: dnf_query_def push_back_map split: sum.splits)

text \<open>What is documented of a downloader: a package that was added is queued; a download that does not throw
  has fetched what was queued and keeps what was fetched before.\<close>

definition downloader_law ::
  "('b, 'k, 'g, 't, 'p, 'a, 'd, 'r, 'l, 'x) libdnf5 \<Rightarrow> ('d \<Rightarrow> 'k set) \<Rightarrow> ('l \<Rightarrow> 'k set) \<Rightarrow> bool" where
  "downloader_law lib queued fetched \<longleftrightarrow>
     (\<forall>k d d'. downloader_add lib k d = Inr d' \<longrightarrow> k \<in> queued d') \<and>
     (\<forall>d l d' l'. downloader_download lib d l = Inr (d', l') \<longrightarrow>
        queued d \<subseteq> fetched l' \<and> fetched l \<subseteq> fetched l')"

lemma download_inbound_fetches:
  assumes "downloader_law lib queued fetched" and "download_inbound lib tspkgs d l = Inr (d', l')"
  shows "fetched l \<subseteq> fetched l' \<and>
    (\<forall>p \<in> set tspkgs. transaction_item_action_is_inbound lib (get_action lib p) \<longrightarrow>
      get_package lib p \<in> fetched l')"
  using assms(2)
proof (induction tspkgs arbitrary: d l)
  case (Cons p tspkgs)
  show ?case
  proof (cases "transaction_item_action_is_inbound lib (get_action lib p)")
    case True
    then obtain d0 d1 l1 where
      d1: "downloader_add lib (get_package lib p) d = Inr d0" "downloader_download lib d0 l = Inr (d1, l1)"
        "download_inbound lib tspkgs d1 l1 = Inr (d', l')"
      using Cons.prems by (auto simp: unless_thrown_Inr)
    have "fetched l \<subseteq> fetched l1" "get_package lib p \<in> fetched l1"
      using assms(1) d1(1,2) unfolding downloader_law_def by blast+
    then show ?thesis using Cons.IH [OF d1(3)] by auto
  next
    case False
    then show ?thesis using Cons by simp
  qed
qed simp

text \<open>C27: a transaction that completes was run only after every package it installs had been
  fetched, whatever the library resolved the request to.\<close>

theorem run_transaction_fetches_first:
  assumes "downloader_law lib queued fetched" and "run_transaction lib b name l = Inr l'"
  shows "\<exists>g0 g t l1 l2 r. new_goal lib b = Inr g0 \<and> add_rpm_install lib g0 name = Inr g \<and>
    goal_resolve lib g l = Inr (t, l1) \<and>
    (\<forall>p \<in> set (get_transaction_packages lib t).
       transaction_item_action_is_inbound lib (get_action lib p) \<longrightarrow> get_package lib p \<in> fetched l2) \<and>
    transaction_run lib (prepared lib t) l2 = Inr (r, l')"
proof -
  obtain g0 g t l1 d0 d l0 d' l2 r where r: "new_goal lib b = Inr g0" "add_rpm_install lib g0 name = Inr g"
      "goal_resolve lib g l = Inr (t, l1)"
      "download_inbound lib (get_transaction_packages lib t) d0 l1 = Inr (d, l0)"
      "downloader_download lib d l0 = Inr (d', l2)" "transaction_run lib (prepared lib t) l2 = Inr (r, l')"
    using assms(2) by (auto simp: run_transaction_def unless_thrown_Inr)
  moreover have "fetched l0 \<subseteq> fetched l2" using assms(1) r(5) unfolding downloader_law_def by blast
  ultimately show ?thesis using download_inbound_fetches [OF assms(1) r(4)] by blast
qed

text \<open>A library on package names: the request resolves to the package and one it replaces, the state
  lists what was fetched and what was installed.\<close>

definition demo_dnf ::
  "(unit, string, string list, string list, string, bool, string list, unit, string list \<times> string list, unit) libdnf5"
where
  "demo_dnf = \<lparr>new_base = (\<lambda>l. Inr ((), l)), base_setup = (\<lambda>b. Inr),
     create_repos_from_system_configuration = (\<lambda>b. Inr), load_repos = (\<lambda>b. Inr),
     filter_name = (\<lambda>b n l. Inr [n]), get_nevra = (\<lambda>k. k @ ''-1''), new_goal = (\<lambda>b. Inr []),
     add_rpm_install = (\<lambda>g n. Inr (g @ [n])), goal_resolve = (\<lambda>g l. Inr (g @ [''old''], l)),
     get_transaction_packages = id, get_action = (\<lambda>p. p \<noteq> ''old''),
     transaction_item_action_is_inbound = id, get_package = id, new_downloader = (\<lambda>b. Inr []),
     downloader_add = (\<lambda>k d. Inr (k # d)), downloader_download = (\<lambda>d (f, i). Inr ([], d @ f, i)),
     set_callbacks_null = id, set_description = (\<lambda>t s. t),
     transaction_run = (\<lambda>t (f, i). Inr ((), f, t @ i))\<rparr>"

lemma demo_dnf_law: "downloader_law demo_dnf set (set \<circ> fst)"
  by (auto simp: downloader_law_def demo_dnf_def)

lemma demo_dnf_run: "run_transaction demo_dnf () ''vim'' ([], []) = Inr ([''vim''], [''vim'', ''old''])"
  by (simp add: run_transaction_def prepared_def demo_dnf_def)

theorem run_transaction_fetches_first_witness:
  "\<exists>l2. ''vim'' \<in> set (fst l2) \<and> transaction_run demo_dnf [''vim'', ''old''] l2 = Inr ((), [''vim''], [''vim'', ''old''])"
proof -
  obtain g0 g t l1 l2 r where g: "new_goal demo_dnf () = Inr g0" "add_rpm_install demo_dnf g0 ''vim'' = Inr g"
    and t: "goal_resolve demo_dnf g ([], []) = Inr (t, l1)"
      "\<forall>p \<in> set (get_transaction_packages demo_dnf t).
         transaction_item_action_is_inbound demo_dnf (get_action demo_dnf p) \<longrightarrow>
         get_package demo_dnf p \<in> (set \<circ> fst) l2"
      "transaction_run demo_dnf (prepared demo_dnf t) l2 = Inr (r, [''vim''], [''vim'', ''old''])"
    using run_transaction_fetches_first [OF demo_dnf_law demo_dnf_run] by blast
  have "t = [''vim'', ''old'']" using g t(1) by (auto simp: demo_dnf_def)
  then show ?thesis using t(2,3) by (auto simp: demo_dnf_def prepared_def)
qed

end
