(* ===== verification/Base_Test.thy ===== *)
theory Base_Test
  imports Libc
begin

text \<open>
  \<open>base/base_test.c\<close> and \<open>base_test.h\<close>: the reporting macros. What a program writes is a
  \<open>console\<close>, the two standard streams; \<open>_exit\<close> ends the run, so a macro continues or exits
  with a status. An \<open>i32\<close> is its value, within the range of 32 bits.
\<close>

section \<open>Operations\<close>

record console =
  con_out :: string
  con_err :: string

definition write_out :: "string \<Rightarrow> console \<Rightarrow> console" where
  "write_out t c = c\<lparr>con_out := con_out c @ t\<rparr>"

definition write_err :: "string \<Rightarrow> console \<Rightarrow> console" where
  "write_err t c = c\<lparr>con_err := con_err c @ t\<rparr>"

function write_int :: "int \<Rightarrow> console \<Rightarrow> console run" where
  "write_int num c =
     andthen (if num < 0
              then let c = write_err ''-'' c in
                   if num = - 2147483648 then Inl Signed_overflow else Inr (- num, c)
              else Inr (num, c)) (\<lambda>(num, c).
     andthen (if 10 \<le> num then write_int (num div 10) c else Inr c) (\<lambda>c.
     Inr (write_err [char_of (nat (48 + num mod 10))] c)))"
  by pat_completeness auto
termination
  by (relation "measure (\<lambda>(num, c). nat \<bar>num\<bar>)") (auto simp: Let_def split: if_splits)

declare write_int.simps [simp del]

definition ESC :: char where "ESC = CHR 0x1B"
definition RED :: string where "RED = ESC # ''[31m''"
definition GREEN :: string where "GREEN = ESC # ''[32m''"
definition RESET :: string where "RESET = ESC # ''[0m''"
definition BLUE :: string where "BLUE = ESC # ''[34m''"

text \<open>Where a macro is used: \<open>__FILE__\<close>, \<open>__func__\<close> and \<open>__LINE__\<close>.\<close>

record place =
  at_file :: string
  at_func :: string
  at_line :: int

definition show_place :: "place \<Rightarrow> console \<Rightarrow> console run" where
  "show_place pl c =
     andthen (write_int (at_line pl)
       (write_out '':'' (write_out (at_func pl) (write_out '':'' (write_out (at_file pl) c)))))
     (\<lambda>c. Inr (write_out [NL] c))"

datatype outcome = Continue console | Exit int console

definition test_macro :: "place \<Rightarrow> int \<Rightarrow> console \<Rightarrow> outcome run" where
  "test_macro pl expr c =
     (if expr \<noteq> 0
      then andthen (show_place pl (write_err ''[FAILED] '' c)) (\<lambda>c. Inr (Exit 1 c))
      else Inr (Continue c))"

definition check_macro :: "place \<Rightarrow> int \<Rightarrow> console \<Rightarrow> outcome run" where
  "check_macro pl expr c =
     (if expr \<noteq> 0
      then andthen (show_place pl (write_err (RED @ ''[ERROR] '') c)) (\<lambda>c.
           Inr (Exit 1 (write_err RESET c)))
      else andthen (show_place pl (write_err (GREEN @ ''[SUCCESS] '') c)) (\<lambda>c.
           Inr (Continue (write_err RESET c))))"

definition checkpoint_output :: string where "checkpoint_output = ''<<CHECKPOINT>>'' @ [NL]"
definition checkpoint_end_output :: string where
  "checkpoint_end_output = ''^^^^^^^^^^^^^^'' @ [NL, NL, NL]"

definition checkpoint_macro :: "place \<Rightarrow> console \<Rightarrow> console run" where
  "checkpoint_macro pl c =
     andthen (show_place pl (write_err (BLUE @ checkpoint_output) c)) (\<lambda>c.
     Inr (write_err (BLUE @ checkpoint_end_output) c))"

section \<open>What they print\<close>

lemma write_err_append: "write_err u (write_err t c) = write_err (t @ u) c"
  by (simp add: write_err_def)

lemma write_int_nat: "write_int (int n) c = Inr (write_err (show_nat n) c)"
proof (induction n arbitrary: c rule: less_induct)
  case (less n)
  have d: "nat (48 + int n mod 10) = 48 + n mod 10" by (simp add: nat_add_distrib nat_mod_distrib)
  have q: "int n div 10 = int (n div 10)" by (simp add: zdiv_int)
  show ?case
  proof (cases "n < 10")
    case True
    then show ?thesis using d by (subst write_int.simps) (simp add: show_nat.simps [of n])
  next
    case False
    then have "write_int (int (n div 10)) c = Inr (write_err (show_nat (n div 10)) c)"
      by (intro less.IH) simp
    then show ?thesis
      using False d q by (subst write_int.simps) (simp add: show_nat.simps [of n] write_err_append)
  qed
qed

lemma write_int_neg:
  assumes "num < 0" and "num \<noteq> - 2147483648"
  shows "write_int num c = write_int (- num) (write_err ''-'' c)"
  using assms by (subst (1 2) write_int.simps) (simp add: Let_def)

lemma write_int_run:
  "num \<noteq> - 2147483648 \<Longrightarrow> write_int num c = Inr (write_err (show_int num) c)"
  using write_int_nat [of "nat num" c] write_int_nat [of "nat (- num)" "write_err ''-'' c"]
  by (cases "num < 0") (simp_all add: write_int_neg show_int_def write_err_append)

lemma show_place_run:
  assumes "0 \<le> at_line pl"
  shows "show_place pl c = Inr (c\<lparr>con_out := con_out c @ at_file pl @ '':'' @ at_func pl @ '':'' @ [NL],
    con_err := con_err c @ show_int (at_line pl)\<rparr>)"
  using assms write_int_run [of "at_line pl"] by (simp add: show_place_def write_out_def write_err_def)

section \<open>Properties\<close>

text \<open>C38: \<open>write_int\<close> prints every 32-bit number in decimal as \<open>show_int\<close> does, on the error
  stream, except the smallest one, whose negation overflows.\<close>

theorem write_int_prints:
  "write_int (sint (num :: i32)) c =
    (if sint num = - 2147483648 then Inl Signed_overflow else Inr (write_err (show_int (sint num)) c))"
proof (cases "sint num = - 2147483648")
  case True
  then show ?thesis by (subst write_int.simps) (simp add: Let_def)
qed (simp add: write_int_run)

text \<open>\<open>check\<close> exits with status 1 when its argument is not 0 and reports success and goes on when it
  is 0: it takes an error code, not a condition. The place is split over the streams, the line number
  goes to the error stream.\<close>

theorem check_report:
  assumes "0 \<le> at_line pl"
  shows "check_macro pl expr c = Inr (let place = show_int (at_line pl);
      c' = c\<lparr>con_out := con_out c @ at_file pl @ '':'' @ at_func pl @ '':'' @ [NL],
             con_err := con_err c @ (if expr = 0 then GREEN @ ''[SUCCESS] '' else RED @ ''[ERROR] '') @
               place @ RESET\<rparr> in
    if expr = 0 then Continue c' else Exit 1 c')"
  using assms show_place_run [OF assms]
  by (simp add: check_macro_def Let_def) (simp add: write_err_def)

end
