(* ===== verification/Auth.thy ===== *)
theory Auth
  imports Prelude
begin

text \<open>
  \<open>auth/auth.cc\<close>: the self-signed certificate of the agent. OpenSSL is a parameter, a record of the
  functions the code calls, each on a state \<open>'l\<close> of the library; NULL is \<^const>\<open>None\<close>. The state of
  the program beside it is the contents of the files it writes.
\<close>

section \<open>The library\<close>

text \<open>Settings of a certificate, one for each call that changes it before it is signed.\<close>

datatype 'k x509_setting =
    Version int
  | Serial int
  | Not_before int
  | Not_after int
  | Pubkey "'k option"
  | Subject_entry string string
  | Issuer_is_subject

record ('l, 'c, 'k, 'x) openssl =
  EVP_PKEY_CTX_new_id :: "'l \<Rightarrow> 'c option \<times> 'l"
  EVP_PKEY_keygen_init :: "'c \<Rightarrow> 'l \<Rightarrow> int \<times> 'l"
  EVP_PKEY_CTX_set_rsa_keygen_bits :: "'c \<Rightarrow> u64 \<Rightarrow> 'l \<Rightarrow> int \<times> 'l"
  EVP_PKEY_keygen :: "'c \<Rightarrow> 'l \<Rightarrow> int \<times> 'k option \<times> 'l"
  EVP_PKEY_CTX_free :: "'c \<Rightarrow> 'l \<Rightarrow> 'l"
  X509_new :: "'l \<Rightarrow> 'x option \<times> 'l"
  X509_apply :: "'x \<Rightarrow> 'k x509_setting \<Rightarrow> 'l \<Rightarrow> 'l"
  X509_sign :: "'x \<Rightarrow> 'k option \<Rightarrow> 'l \<Rightarrow> int \<times> 'l"
  PEM_key :: "'k option \<Rightarrow> 'l \<Rightarrow> string"
  PEM_cert :: "'x option \<Rightarrow> 'l \<Rightarrow> string"
  X509_free :: "'x option \<Rightarrow> 'l \<Rightarrow> 'l"
  EVP_PKEY_free :: "'k option \<Rightarrow> 'l \<Rightarrow> 'l"

section \<open>Operations\<close>

definition generate_key :: "('l, 'c, 'k, 'x) openssl \<Rightarrow> 'l \<Rightarrow> 'k option \<times> 'l" where
  "generate_key lib l = (case EVP_PKEY_CTX_new_id lib l of
     (None, l) \<Rightarrow> (None, l)
   | (Some ctx, l) \<Rightarrow> (case EVP_PKEY_keygen_init lib ctx l of (r, l) \<Rightarrow>
       if r \<le> 0 then (None, l)
       else (case EVP_PKEY_CTX_set_rsa_keygen_bits lib ctx (KiB 2) l of (r, l) \<Rightarrow>
         if r \<le> 0 then (None, l)
         else (case EVP_PKEY_keygen lib ctx l of (r, pkey, l) \<Rightarrow>
           if r \<le> 0 then (None, l)
           else (pkey, EVP_PKEY_CTX_free lib ctx l)))))"

definition cert_settings :: "'k option \<Rightarrow> 'k x509_setting list" where
  "cert_settings pkey =
     [Version 2, Serial 1, Not_before 0, Not_after (60 * 60 * 24 * 365), Pubkey pkey,
      Subject_entry ''C'' ''BE'', Subject_entry ''O'' ''paradigm-ehb'', Subject_entry ''CN'' ''localhost'',
      Issuer_is_subject]"

definition generate_cert :: "('l, 'c, 'k, 'x) openssl \<Rightarrow> 'k option \<Rightarrow> 'l \<Rightarrow> 'x option \<times> 'l" where
  "generate_cert lib pkey l = (case X509_new lib l of
     (None, l) \<Rightarrow> (None, l)
   | (Some x, l) \<Rightarrow>
       (case X509_sign lib x pkey (fold (X509_apply lib x) (cert_settings pkey) l) of (r, l) \<Rightarrow>
         if r = 0 then (None, l) else (Some x, l)))"

text \<open>\<open>fopen(path, "wb")\<close> truncates the file, or fails when the path is not \<open>writable\<close>; the calls
  that follow then dereference NULL.\<close>

definition write_pem :: "(string \<Rightarrow> bool) \<Rightarrow> string \<Rightarrow> string \<Rightarrow> (string \<rightharpoonup> string) \<Rightarrow> (string \<rightharpoonup> string) run" where
  "write_pem writable path content disk =
     (if writable path then Inr (disk(path \<mapsto> content)) else Inl Segfault)"

definition generate :: "('l, 'c, 'k, 'x) openssl \<Rightarrow> (string \<Rightarrow> bool) \<Rightarrow> 'l \<Rightarrow> (string \<rightharpoonup> string) \<Rightarrow>
   ('l \<times> (string \<rightharpoonup> string)) run" where
  "generate lib writable l disk =
     (case generate_key lib l of (pkey, l) \<Rightarrow>
     (case generate_cert lib pkey l of (cert, l) \<Rightarrow>
       andthen (write_pem writable ''key.pem'' (PEM_key lib pkey l) disk) (\<lambda>disk.
       andthen (write_pem writable ''cert.pem'' (PEM_cert lib cert l) disk) (\<lambda>disk.
       Inr (EVP_PKEY_free lib pkey (X509_free lib cert l), disk)))))"

section \<open>What the library documents\<close>

text \<open>\<open>live\<close> gives the contexts and certificates that exist. Creating one adds it, freeing it
  removes it, nothing else changes the set. The PEM writers write nothing for NULL, and freeing NULL does nothing.\<close>

definition openssl_objects :: "('l, 'c, 'k, 'x) openssl \<Rightarrow> ('l \<Rightarrow> 'c list) \<Rightarrow> ('l \<Rightarrow> 'x list) \<Rightarrow> bool" where
  "openssl_objects lib ctxs certs \<longleftrightarrow>
     (\<forall>l c l'. EVP_PKEY_CTX_new_id lib l = (Some c, l') \<longrightarrow> ctxs l' = c # ctxs l \<and> certs l' = certs l) \<and>
     (\<forall>l l'. EVP_PKEY_CTX_new_id lib l = (None, l') \<longrightarrow> ctxs l' = ctxs l \<and> certs l' = certs l) \<and>
     (\<forall>c l. ctxs (snd (EVP_PKEY_keygen_init lib c l)) = ctxs l \<and> certs (snd (EVP_PKEY_keygen_init lib c l)) = certs l) \<and>
     (\<forall>c n l. ctxs (snd (EVP_PKEY_CTX_set_rsa_keygen_bits lib c n l)) = ctxs l \<and>
        certs (snd (EVP_PKEY_CTX_set_rsa_keygen_bits lib c n l)) = certs l) \<and>
     (\<forall>c l. ctxs (snd (snd (EVP_PKEY_keygen lib c l))) = ctxs l \<and> certs (snd (snd (EVP_PKEY_keygen lib c l))) = certs l) \<and>
     (\<forall>c l. ctxs (EVP_PKEY_CTX_free lib c l) = remove1 c (ctxs l) \<and> certs (EVP_PKEY_CTX_free lib c l) = certs l) \<and>
     (\<forall>l x l'. X509_new lib l = (Some x, l') \<longrightarrow> certs l' = x # certs l \<and> ctxs l' = ctxs l) \<and>
     (\<forall>l l'. X509_new lib l = (None, l') \<longrightarrow> certs l' = certs l \<and> ctxs l' = ctxs l) \<and>
     (\<forall>x set l. certs (X509_apply lib x set l) = certs l \<and> ctxs (X509_apply lib x set l) = ctxs l) \<and>
     (\<forall>x k l. certs (snd (X509_sign lib x k l)) = certs l \<and> ctxs (snd (X509_sign lib x k l)) = ctxs l) \<and>
     (\<forall>x l. certs (X509_free lib (Some x) l) = remove1 x (certs l) \<and> ctxs (X509_free lib (Some x) l) = ctxs l) \<and>
     (\<forall>l. X509_free lib None l = l \<and> EVP_PKEY_free lib None l = l) \<and>
     (\<forall>k l. ctxs (EVP_PKEY_free lib k l) = ctxs l \<and> certs (EVP_PKEY_free lib k l) = certs l) \<and>
     (\<forall>l. PEM_key lib None l = [] \<and> PEM_cert lib None l = [])"

text \<open>Which calls of key generation succeed from a state on, in order.\<close>

definition keygen_succeeds :: "('l, 'c, 'k, 'x) openssl \<Rightarrow> 'c \<Rightarrow> 'l \<Rightarrow> bool" where
  "keygen_succeeds lib ctx l \<longleftrightarrow>
     (case EVP_PKEY_keygen_init lib ctx l of (r, l) \<Rightarrow> 0 < r \<and>
     (case EVP_PKEY_CTX_set_rsa_keygen_bits lib ctx 2048 l of (r, l) \<Rightarrow> 0 < r \<and>
       0 < fst (EVP_PKEY_keygen lib ctx l)))"

lemma openssl_objectsD:
  assumes "openssl_objects lib ctxs certs"
  shows "EVP_PKEY_CTX_new_id lib l = (Some c, l') \<Longrightarrow> ctxs l' = c # ctxs l \<and> certs l' = certs l"
    "EVP_PKEY_keygen_init lib c l = (r, l') \<Longrightarrow> ctxs l' = ctxs l \<and> certs l' = certs l"
    "EVP_PKEY_CTX_set_rsa_keygen_bits lib c n l = (r, l') \<Longrightarrow> ctxs l' = ctxs l \<and> certs l' = certs l"
    "EVP_PKEY_keygen lib c l = (r, k, l') \<Longrightarrow> ctxs l' = ctxs l \<and> certs l' = certs l"
    "ctxs (EVP_PKEY_CTX_free lib c l) = remove1 c (ctxs l)" "certs (EVP_PKEY_CTX_free lib c l) = certs l"
    "X509_new lib l = (Some x, l') \<Longrightarrow> certs l' = x # certs l \<and> ctxs l' = ctxs l"
    "certs (X509_apply lib x st l) = certs l" "ctxs (X509_apply lib x st l) = ctxs l"
    "X509_sign lib x kk l = (r, l') \<Longrightarrow> certs l' = certs l \<and> ctxs l' = ctxs l"
    "certs (X509_free lib (Some x) l) = remove1 x (certs l)" "ctxs (X509_free lib (Some x) l) = ctxs l"
    "X509_free lib None l = l" "EVP_PKEY_free lib None l = l"
    "ctxs (EVP_PKEY_free lib kk l) = ctxs l" "certs (EVP_PKEY_free lib kk l) = certs l"
    "PEM_key lib None l = []" "PEM_cert lib None l = []"
    "EVP_PKEY_CTX_new_id lib l = (None, l') \<Longrightarrow> ctxs l' = ctxs l \<and> certs l' = certs l"
    "X509_new lib l = (None, l') \<Longrightarrow> certs l' = certs l \<and> ctxs l' = ctxs l"
  using assms unfolding openssl_objects_def by (metis snd_conv)+

lemma cert_settings_keep:
  assumes "openssl_objects lib ctxs certs"
  shows "certs (fold (X509_apply lib x) sts l) = certs l" "ctxs (fold (X509_apply lib x) sts l) = ctxs l"
  by (induction sts arbitrary: l) (simp_all add: openssl_objectsD(8,9) [OF assms])

lemma generate_key_run:
  assumes ok: "openssl_objects lib ctxs certs" and new: "EVP_PKEY_CTX_new_id lib l = (Some c, l1)"
    and run: "generate_key lib l = (k, l')"
  shows "certs l' = certs l"
    and "ctxs l' = (if keygen_succeeds lib c l1 then ctxs l else c # ctxs l)"
    and "\<not> keygen_succeeds lib c l1 \<Longrightarrow> k = None"
proof -
  note D = openssl_objectsD [OF ok]
  obtain r2 l2 where a2: "EVP_PKEY_keygen_init lib c l1 = (r2, l2)" by fastforce
  obtain r3 l3 where a3: "EVP_PKEY_CTX_set_rsa_keygen_bits lib c 2048 l2 = (r3, l3)" by fastforce
  obtain r4 pk l4 where a4: "EVP_PKEY_keygen lib c l3 = (r4, pk, l4)" by (cases "EVP_PKEY_keygen lib c l3")
  have eqs: "ctxs l1 = c # ctxs l" "certs l1 = certs l" "ctxs l2 = ctxs l1" "certs l2 = certs l1"
      "ctxs l3 = ctxs l2" "certs l3 = certs l2" "ctxs l4 = ctxs l3" "certs l4 = certs l3"
    using D(1) [OF new] D(2) [OF a2] D(3) [OF a3] D(4) [OF a4] by simp_all
  have suc: "keygen_succeeds lib c l1 \<longleftrightarrow> 0 < r2 \<and> 0 < r3 \<and> 0 < r4"
    by (simp add: keygen_succeeds_def a2 a3 a4)
  have "generate_key lib l = (if r2 \<le> 0 then (None, l2) else if r3 \<le> 0 then (None, l3)
      else if r4 \<le> 0 then (None, l4) else (pk, EVP_PKEY_CTX_free lib c l4))"
    by (simp add: generate_key_def new a2 a3 a4)
  then show "certs l' = certs l" "ctxs l' = (if keygen_succeeds lib c l1 then ctxs l else c # ctxs l)"
      "\<not> keygen_succeeds lib c l1 \<Longrightarrow> k = None"
    using run eqs suc by (auto simp: D(5,6) split: if_splits)
qed

lemma generate_cert_unsigned:
  assumes "openssl_objects lib ctxs certs" and "\<And>x l. fst (X509_sign lib x None l) = 0"
  shows "fst (generate_cert lib None l) = None"
  using assms(2) by (auto simp: generate_cert_def split: prod.splits option.splits) (metis fst_conv)

section \<open>A small library\<close>

text \<open>Objects are numbers; contexts refuse to make a key in a state with \<open>seed = 0\<close>.\<close>

record demo_state =
  demo_ctxs :: "nat list"
  demo_certs :: "nat list"
  seed :: nat

definition demo_openssl :: "(demo_state, nat, nat, nat) openssl" where
  "demo_openssl = \<lparr>
     EVP_PKEY_CTX_new_id = \<lambda>l. (Some (length (demo_ctxs l)), l\<lparr>demo_ctxs := length (demo_ctxs l) # demo_ctxs l\<rparr>),
     EVP_PKEY_keygen_init = \<lambda>c l. (1, l),
     EVP_PKEY_CTX_set_rsa_keygen_bits = \<lambda>c n l. (1, l),
     EVP_PKEY_keygen = \<lambda>c l. if seed l = 0 then (0, None, l) else (1, Some (seed l), l),
     EVP_PKEY_CTX_free = \<lambda>c l. l\<lparr>demo_ctxs := remove1 c (demo_ctxs l)\<rparr>,
     X509_new = \<lambda>l. (Some (length (demo_certs l)), l\<lparr>demo_certs := length (demo_certs l) # demo_certs l\<rparr>),
     X509_apply = \<lambda>x st l. l,
     X509_sign = \<lambda>x k l. (if k = None then 0 else 256, l),
     PEM_key = \<lambda>k l. if k = None then [] else ''PRIVATE KEY'',
     PEM_cert = \<lambda>x l. if x = None then [] else ''CERTIFICATE'',
     X509_free = \<lambda>x l. case x of None \<Rightarrow> l | Some x \<Rightarrow> l\<lparr>demo_certs := remove1 x (demo_certs l)\<rparr>,
     EVP_PKEY_free = \<lambda>k l. l\<rparr>"

lemma demo_openssl_ok: "openssl_objects demo_openssl demo_ctxs demo_certs"
  by (auto simp: openssl_objects_def demo_openssl_def)

section \<open>Properties\<close>

text \<open>C39: once \<open>generate_key\<close> has a key-generation context, the context is freed exactly when all
  later calls succeed. When one of them fails the answer is NULL and the context stays allocated.\<close>

theorem generate_key_contexts:
  assumes "openssl_objects lib ctxs certs" and "EVP_PKEY_CTX_new_id lib l = (Some c, l1)"
    and "generate_key lib l = (k, l')"
  shows "(keygen_succeeds lib c l1 \<longrightarrow> ctxs l' = ctxs l) \<and>
    (\<not> keygen_succeeds lib c l1 \<longrightarrow> k = None \<and> ctxs l' = c # ctxs l)"
  using generate_key_run [OF assms] by simp

theorem generate_key_contexts_witness:
  "\<exists>l'. generate_key demo_openssl \<lparr>demo_ctxs = [], demo_certs = [], seed = 0\<rparr> = (None, l') \<and> demo_ctxs l' = [0] \<and>
     (\<exists>k l''. generate_key demo_openssl \<lparr>demo_ctxs = [], demo_certs = [], seed = 7\<rparr> = (k, l'') \<and> demo_ctxs l'' = [])"
proof -
  let ?l = "\<lambda>n. \<lparr>demo_ctxs = [], demo_certs = [], seed = n\<rparr>"
  have new: "EVP_PKEY_CTX_new_id demo_openssl (?l n) = (Some 0, \<lparr>demo_ctxs = [0], demo_certs = [], seed = n\<rparr>)" for n
    by (simp add: demo_openssl_def)
  have ks: "keygen_succeeds demo_openssl 0 \<lparr>demo_ctxs = [0], demo_certs = [], seed = n\<rparr> \<longleftrightarrow> n \<noteq> 0" for n
    by (simp add: keygen_succeeds_def demo_openssl_def)
  obtain k0 l0 where g0: "generate_key demo_openssl (?l 0) = (k0, l0)" by (metis surj_pair)
  obtain k7 l7 where g7: "generate_key demo_openssl (?l 7) = (k7, l7)" by (metis surj_pair)
  have "k0 = None" "demo_ctxs l0 = [0]" "demo_ctxs l7 = []"
    using generate_key_contexts [OF demo_openssl_ok new g0] generate_key_contexts [OF demo_openssl_ok new g7]
    by (simp_all add: ks)
  then show ?thesis using g0 g7 by blast
qed

text \<open>When no key can be generated, \<open>generate\<close> still overwrites \<open>key.pem\<close> and \<open>cert.pem\<close>: both are
  empty afterwards, whatever they held. (Signing without a key fails.)\<close>

theorem generate_overwrites:
  assumes "openssl_objects lib ctxs certs" and "\<And>x l. fst (X509_sign lib x None l) = 0"
    and "fst (generate_key lib l) = None" and "writable ''key.pem''" and "writable ''cert.pem''"
  shows "\<exists>l' disk'. generate lib writable l disk = Inr (l', disk') \<and>
    disk' ''key.pem'' = Some [] \<and> disk' ''cert.pem'' = Some []"
proof -
  obtain l1 where l1: "generate_key lib l = (None, l1)" using assms(3) by (metis prod.collapse)
  obtain l2 where l2: "generate_cert lib None l1 = (None, l2)"
    using generate_cert_unsigned [OF assms(1,2), of l1] by (metis prod.collapse)
  show ?thesis
    using assms(4,5) by (simp add: generate_def l1 l2 write_pem_def openssl_objectsD(17,18) [OF assms(1)])
qed

end
