(* ===== verification/Journal.thy ===== *)
theory Journal
  imports Prelude
begin

text \<open>
  \<open>journal/journald.cc\<close> and \<open>journald.h\<close>. The journal library is a parameter, a record of the
  functions the code calls on a state \<open>'j\<close>; data it hands out is a pointer into memory of its own. \<open>logs\<close> passes the
  library the bytes of a pointer that is never assigned, \<open>junk i\<close> in round \<open>i\<close>. Its loop runs for as long as the
  library has entries, which need not end: \<^const>\<open>None\<close>.
\<close>

section \<open>Operations\<close>

datatype JournalField =
    JOURNAL_FIELD_PRIORITY | JOURNAL_FIELD_MESSAGE | JOURNAL_FIELD_TIMESTAMP | JOURNAL_FIELD_PID
  | JOURNAL_FIELD_UID | JOURNAL_FIELD_GID | JOURNAL_FIELD_COMM | JOURNAL_FIELD_EXE
  | JOURNAL_FIELD_SYSTEMD_UNIT | JOURNAL_FIELD_SYSTEMD_USER_UNIT | JOURNAL_FIELD_BOOT_ID
  | JOURNAL_FIELD_MACHINE_ID | JOURNAL_FIELD_HOSTNAME | JOURNAL_FIELD_TRANSPORT
  | JOURNAL_FIELD_COUNT

definition parse_unit_name :: "string \<Rightarrow> JournalField" where
  "parse_unit_name unit = JOURNAL_FIELD_HOSTNAME"

record 'j sd_journal =
  sd_journal_open :: "int \<times> 'j"
  sd_journal_seek_head :: "'j \<Rightarrow> 'j"
  sd_journal_next :: "'j \<Rightarrow> int \<times> 'j"
  sd_journal_add_match :: "char list \<Rightarrow> 'j \<Rightarrow> 'j"
  sd_journal_get_data :: "string \<Rightarrow> 'j \<Rightarrow> int \<times> u64 \<times> 'j"
  sd_journal_close :: "'j \<Rightarrow> 'j"

definition sizeof_pointer :: nat where "sizeof_pointer = 8"

partial_function (option) log_entries ::
  "'j sd_journal \<Rightarrow> (nat \<Rightarrow> char list) \<Rightarrow> nat \<Rightarrow> 'j \<Rightarrow> u64 \<Rightarrow> (u64 \<times> 'j) option" where
  "log_entries lib junk i j msg =
     (let (code, j) = sd_journal_next lib j in
      if 0 < code then
        let j = sd_journal_add_match lib (take sizeof_pointer (junk i)) j;
            (r, data, j) = sd_journal_get_data lib ''MESSAGE'' j in
        log_entries lib junk (Suc i) j (if r = 0 then data else msg)
      else Some (msg, j))"

text \<open>The code of \<open>sd_journal_open\<close> is not looked at; the address returned is that of data of the journal just closed.\<close>

definition logs ::
  "'j sd_journal \<Rightarrow> (nat \<Rightarrow> char list) \<Rightarrow> string \<Rightarrow> string \<Rightarrow> JournalField \<Rightarrow> (u64 \<times> 'j) option" where
  "logs lib junk unit time jf =
     (let (code, j) = sd_journal_open lib; j = sd_journal_seek_head lib j in
      Option.bind (log_entries lib junk 0 j 0) (\<lambda>(msg, j). Some (msg, sd_journal_close lib j)))"

section \<open>What the library documents\<close>

text \<open>A journal that holds the entries \<open>es\<close>, each with the address and the text of its message, or none.
  \<open>pos\<close> is the number of entries passed, \<open>unmatched\<close> says that no match is set, \<open>data_at\<close> what the library's memory holds
  at an address it handed out. \<open>sd_journal_next\<close> moves on to a later entry, the next one when no match is set, or answers
  0 at the end; a match that is not of the form \<open>FIELD=value\<close> is refused; data is valid at most until the
  journal is closed.\<close>

definition holds_entries ::
  "'j sd_journal \<Rightarrow> ('j \<Rightarrow> nat) \<Rightarrow> ('j \<Rightarrow> bool) \<Rightarrow> ('j \<Rightarrow> u64 \<Rightarrow> string option) \<Rightarrow> (u64 \<times> string) option list \<Rightarrow> bool" where
  "holds_entries lib pos unmatched data_at es \<longleftrightarrow>
     (let j = sd_journal_seek_head lib (snd (sd_journal_open lib)) in pos j = 0 \<and> unmatched j) \<and>
     (\<forall>j code j'. sd_journal_next lib j = (code, j') \<longrightarrow> 0 < code \<longrightarrow> pos j < pos j' \<and> pos j' \<le> length es) \<and>
     (\<forall>j. unmatched j \<longrightarrow> pos j < length es \<longrightarrow>
        (\<exists>j'. sd_journal_next lib j = (1, j') \<and> pos j' = Suc (pos j) \<and> unmatched j')) \<and>
     (\<forall>m j. pos (sd_journal_add_match lib m j) = pos j) \<and>
     (\<forall>m j. CHR ''='' \<notin> set m \<longrightarrow> sd_journal_add_match lib m j = j) \<and>
     (\<forall>j r data j'. sd_journal_get_data lib ''MESSAGE'' j = (r, data, j') \<longrightarrow> pos j' = pos j \<and> (unmatched j \<longrightarrow> unmatched j') \<and>
        (0 < pos j \<longrightarrow> pos j \<le> length es \<longrightarrow> (case es ! (pos j - 1) of
           None \<Rightarrow> r \<noteq> 0 | Some (q, text) \<Rightarrow> r = 0 \<and> data = q \<and> data_at j' q = Some text))) \<and>
     (\<forall>j q. data_at (sd_journal_close lib j) q = None)"

lemma holds_entriesD:
  assumes "holds_entries lib pos unmatched data_at es"
  shows "pos (sd_journal_seek_head lib (snd (sd_journal_open lib))) = 0"
    "unmatched (sd_journal_seek_head lib (snd (sd_journal_open lib)))"
    "sd_journal_next lib j = (code, j') \<Longrightarrow> 0 < code \<Longrightarrow> pos j < pos j' \<and> pos j' \<le> length es"
    "unmatched j \<Longrightarrow> pos j < length es \<Longrightarrow> \<exists>j'. sd_journal_next lib j = (1, j') \<and> pos j' = Suc (pos j) \<and> unmatched j'"
    "pos (sd_journal_add_match lib m j) = pos j"
    "CHR ''='' \<notin> set m \<Longrightarrow> sd_journal_add_match lib m j = j"
    "sd_journal_get_data lib ''MESSAGE'' j = (r, data, j') \<Longrightarrow> pos j' = pos j \<and> (unmatched j \<longrightarrow> unmatched j')"
    "sd_journal_get_data lib ''MESSAGE'' j = (r, data, j') \<Longrightarrow> 0 < pos j \<Longrightarrow> pos j \<le> length es \<Longrightarrow>
       (case es ! (pos j - 1) of None \<Rightarrow> r \<noteq> 0 | Some (q, text) \<Rightarrow> r = 0 \<and> data = q \<and> data_at j' q = Some text)"
    "data_at (sd_journal_close lib j) q = None"
  using assms unfolding holds_entries_def Let_def by blast+

text \<open>The address of the last message of a list of entries, \<open>msg\<close> when there is none.\<close>

definition last_message :: "(u64 \<times> string) option list \<Rightarrow> u64 \<Rightarrow> u64" where
  "last_message es msg = foldl (\<lambda>m e. case e of Some (q, text) \<Rightarrow> q | None \<Rightarrow> m) msg es"

definition messages :: "(u64 \<times> string) option list \<Rightarrow> u64 set" where
  "messages es = {q. \<exists>text. Some (q, text) \<in> set es}"

text \<open>One round of the loop.\<close>

lemma log_entries_round:
  assumes law: "holds_entries lib pos unmatched data_at es" and j: "pos j \<le> length es"
  obtains (ended) j' where "log_entries lib junk i j msg = Some (msg, j')" and "unmatched j \<Longrightarrow> pos j = length es"
  | (moved) j' msg' where "log_entries lib junk i j msg = log_entries lib junk (Suc i) j' msg'"
    and "pos j < pos j'" and "pos j' \<le> length es"
    and "msg' = (case es ! (pos j' - 1) of Some (q, text) \<Rightarrow> q | None \<Rightarrow> msg)"
    and "unmatched j \<Longrightarrow> CHR ''='' \<notin> set (take 8 (junk i)) \<Longrightarrow> unmatched j' \<and> pos j' = Suc (pos j)"
proof -
  note D = holds_entriesD [OF law]
  obtain code j1 where j1: "sd_journal_next lib j = (code, j1)" by fastforce
  show ?thesis
  proof (cases "0 < code")
    case False
    have "log_entries lib junk i j msg = Some (msg, j1)" using False by (subst log_entries.simps) (simp add: j1)
    moreover have "pos j = length es" if "unmatched j" using D(4) [OF that] j1 False j by fastforce
    ultimately show ?thesis by (rule ended)
  next
    case True
    note p1 = D(3) [OF j1 True]
    let ?j2 = "sd_journal_add_match lib (take 8 (junk i)) j1"
    obtain r data j3 where j3: "sd_journal_get_data lib ''MESSAGE'' ?j2 = (r, data, j3)" by (metis prod_cases3)
    have pos: "pos j3 = pos j1" "pos ?j2 = pos j1" using D(5) D(7) [OF j3] by simp_all
    have run: "log_entries lib junk i j msg = log_entries lib junk (Suc i) j3 (if r = 0 then data else msg)"
      using True by (subst log_entries.simps) (simp add: j1 j3 sizeof_pointer_def)
    have msg: "(if r = 0 then data else msg) = (case es ! (pos j3 - 1) of Some (q, text) \<Rightarrow> q | None \<Rightarrow> msg)"
      using D(8) [OF j3] pos p1 by (auto split: option.splits)
    have un: "unmatched j3 \<and> pos j3 = Suc (pos j)" if "unmatched j" "CHR ''='' \<notin> set (take 8 (junk i))"
      using D(4) [OF that(1)] D(6) [OF that(2)] D(7) [OF j3] j1 p1 pos by fastforce
    show ?thesis by (rule moved [OF run _ _ msg un]) (use p1 pos(1) in simp_all)
  qed
qed

lemma log_entries_run:
  assumes law: "holds_entries lib pos unmatched data_at es" and "pos j \<le> length es"
  shows "\<exists>p j'. log_entries lib junk i j msg = Some (p, j') \<and> p \<in> insert msg (messages es) \<and>
    (unmatched j \<longrightarrow> (\<forall>i. CHR ''='' \<notin> set (take 8 (junk i))) \<longrightarrow> p = last_message (drop (pos j) es) msg)"
  using assms(2)
proof (induction "length es - pos j" arbitrary: i j msg rule: less_induct)
  case less
  show ?case
  proof (rule log_entries_round [OF law less.prems, of junk i msg])
    fix j'
    assume "log_entries lib junk i j msg = Some (msg, j')" "unmatched j \<Longrightarrow> pos j = length es"
    then show ?thesis by (auto simp: last_message_def)
  next
    fix j' msg'
    assume run: "log_entries lib junk i j msg = log_entries lib junk (Suc i) j' msg'"
      and p: "pos j < pos j'" "pos j' \<le> length es"
      and msg': "msg' = (case es ! (pos j' - 1) of Some (q, text) \<Rightarrow> q | None \<Rightarrow> msg)"
      and un: "unmatched j \<Longrightarrow> CHR ''='' \<notin> set (take 8 (junk i)) \<Longrightarrow> unmatched j' \<and> pos j' = Suc (pos j)"
    have "length es - pos j' < length es - pos j" using p by simp
    from less.hyps [OF this p(2), of "Suc i" msg'] obtain p' j2 where ih:
        "log_entries lib junk (Suc i) j' msg' = Some (p', j2)" "p' \<in> insert msg' (messages es)"
        "unmatched j' \<longrightarrow> (\<forall>i. CHR ''='' \<notin> set (take 8 (junk i))) \<longrightarrow> p' = last_message (drop (pos j') es) msg'"
      by blast
    have "es ! (pos j' - 1) \<in> set es" using p by simp
    then have "insert msg' (messages es) \<subseteq> insert msg (messages es)"
      unfolding msg' messages_def by (auto split: option.splits)
    moreover have "p' = last_message (drop (pos j) es) msg"
      if "unmatched j" "\<forall>i. CHR ''='' \<notin> set (take 8 (junk i))"
    proof -
      have u: "unmatched j'" "pos j' = Suc (pos j)" using un that by blast+
      have "drop (pos j) es = es ! pos j # drop (Suc (pos j)) es"
        using u(2) p(2) by (intro Cons_nth_drop_Suc [symmetric]) simp
      then show ?thesis using ih(3) u that(2) by (simp add: last_message_def msg')
    qed
    ultimately show ?thesis using run ih(1,2) by auto
  qed
qed

section \<open>Properties\<close>

text \<open>C40: on a journal with finitely many entries \<open>logs\<close> returns, whatever unit, time and field were asked for and
  whatever the unassigned bytes are. It returns NULL or an address the library handed out for some message, and by then
  the library has closed the journal and has no data at that address, nor at any other: what is returned dangles. When the
  unassigned bytes hold no equals sign, so that the library refuses them as a match, it is the address of the
  last message of the journal.\<close>

theorem logs_last_message:
  assumes "holds_entries lib pos unmatched data_at es"
  shows "\<exists>p j. logs lib junk unit time jf = Some (p, j) \<and> p \<in> insert 0 (messages es) \<and> (\<forall>q. data_at j q = None) \<and>
    ((\<forall>i. CHR ''='' \<notin> set (take 8 (junk i))) \<longrightarrow> p = last_message es 0)"
proof -
  let ?j = "sd_journal_seek_head lib (snd (sd_journal_open lib))"
  note D = holds_entriesD [OF assms]
  obtain p j where p: "log_entries lib junk 0 ?j 0 = Some (p, j)" "p \<in> insert 0 (messages es)"
      "(\<forall>i. CHR ''='' \<notin> set (take 8 (junk i))) \<longrightarrow> p = last_message es 0"
    using log_entries_run [OF assms, of ?j junk 0 0] D(1,2) by auto
  have "logs lib junk unit time jf = Some (p, sd_journal_close lib j)"
    using p(1) by (simp add: logs_def case_prod_beta' Let_def)
  then show ?thesis using p(2,3) D(9) by blast
qed

text \<open>A journal whose state is the number of entries passed, and whether it is open.\<close>

definition demo_journal :: "(u64 \<times> string) option list \<Rightarrow> (nat \<times> bool) sd_journal" where
  "demo_journal es = \<lparr>sd_journal_open = (0, 0, True), sd_journal_seek_head = \<lambda>(n, b). (0, b),
     sd_journal_next = \<lambda>(n, b). if b \<and> n < length es then (1, Suc n, b) else (0, n, b),
     sd_journal_add_match = \<lambda>m j. j,
     sd_journal_get_data = \<lambda>field (n, b). (case (if 0 < n \<and> n \<le> length es then es ! (n - 1) else None) of
        Some (q, text) \<Rightarrow> (0, q, n, b) | None \<Rightarrow> (- 2, 0, n, b)),
     sd_journal_close = \<lambda>(n, b). (n, False)\<rparr>"

definition demo_data :: "(u64 \<times> string) option list \<Rightarrow> nat \<times> bool \<Rightarrow> u64 \<Rightarrow> string option" where
  "demo_data es = (\<lambda>(n, b) q. if b then map_of (List.map_filter id es) q else None)"

theorem logs_last_message_witness:
  "\<exists>j. logs (demo_journal [Some (4096, ''MESSAGE=start''), Some (4128, ''MESSAGE=stop''), None]) (\<lambda>i. []) ''ssh'' ''today'' JOURNAL_FIELD_PID =
    Some (4128, j) \<and> demo_data [Some (4096, ''MESSAGE=start''), Some (4128, ''MESSAGE=stop''), None] j 4128 = None"
proof -
  let ?es = "[Some (4096, ''MESSAGE=start''), Some (4128, ''MESSAGE=stop''), None]"
  have "holds_entries (demo_journal ?es) (\<lambda>(n, b). if b then n else 0) snd (demo_data ?es) ?es"
    unfolding holds_entries_def Let_def
    by (auto simp: demo_journal_def demo_data_def map_filter_simps less_Suc_eq le_Suc_eq)
  from logs_last_message [OF this, of "\<lambda>i. []" "''ssh''" "''today''" JOURNAL_FIELD_PID] show ?thesis by (auto simp: last_message_def)
qed

end
