(* ===== verification/Dbus.thy ===== *)
theory Dbus
  imports Prelude
begin

text \<open>
  \<open>dbus/dbushandler.cc\<close>: the connections and objects on the system bus. The bus library is a parameter, a
  record of the functions the code calls, on a state \<open>'l\<close>. A call that fails leaves its result
  pointer alone: the \<open>bus\<close> of the connection functions is then a local variable that was never assigned, the
  \<open>slot\<close> of the object functions is the NULL it was set to.
\<close>

section \<open>Records of dbushandler.h\<close>

text \<open>Declared for the bus objects; a \<open>char *\<close> or another pointer is an address. No function of the
  sources uses them yet.\<close>

record BusConnection =
  conn :: u64

record Process =
  process_name :: u64
  process_id :: u32

record Service =
  service_name :: u64
  service_id :: u32
  service_owner :: u64

record System =
  system_os :: u64
  processes :: u64
  process_count :: u64
  services :: u64
  service_count :: u64

record Unit =
  unit_name :: u64
  unit_state :: u64

record LoadedUnit =
  loaded_name :: u64
  description :: u64
  load_state :: u64
  sub_state :: u64
  active_state :: u64
  dep_unit :: u64
  object_path :: u64
  queued_job :: u32
  job_type :: u64
  job_path :: u64

record UnitFileChange =
  type_of_change :: u64
  file_name_symlink :: u64
  destination_symlink :: u64

section \<open>Operations\<close>

record ('l, 'b, 'v, 's) sd_bus =
  sd_bus_default_user :: "'l \<Rightarrow> 'b option \<times> 'l"
  sd_bus_default_system :: "'l \<Rightarrow> 'b option \<times> 'l"
  sd_bus_add_object_vtable :: "'b \<Rightarrow> string \<Rightarrow> string \<Rightarrow> 'v \<Rightarrow> 'l \<Rightarrow> 's option \<times> 'l"

fun connected :: "'b option \<times> 'l \<Rightarrow> ('b \<times> 'l) run" where
  "connected (None, l) = Inl Uninitialised"
| "connected (Some bus, l) = Inr (bus, l)"

definition create_session_bus_connection :: "('l, 'b, 'v, 's) sd_bus \<Rightarrow> 'l \<Rightarrow> ('b \<times> 'l) run" where
  "create_session_bus_connection lib l = connected (sd_bus_default_user lib l)"

definition create_system_bus_connection :: "('l, 'b, 'v, 's) sd_bus \<Rightarrow> 'l \<Rightarrow> ('b \<times> 'l) run" where
  "create_system_bus_connection lib l = connected (sd_bus_default_system lib l)"

definition create_systemd_object :: "('l, 'b, 'v, 's) sd_bus \<Rightarrow> 'b \<Rightarrow> 'v \<Rightarrow> 'l \<Rightarrow> 's option \<times> 'l" where
  "create_systemd_object lib bus vtable l =
     sd_bus_add_object_vtable lib bus ''/org/freedesktop/systemd1'' ''org.freedesktop.systemd1.Manager'' vtable l"

definition create_logind_object :: "('l, 'b, 'v, 's) sd_bus \<Rightarrow> 'b \<Rightarrow> 'v \<Rightarrow> 'l \<Rightarrow> 's option \<times> 'l" where
  "create_logind_object lib bus vtable l =
     sd_bus_add_object_vtable lib bus ''/org/freedesktop/login1'' ''org.freedesktop.login1'' vtable l"

section \<open>Results\<close>

text \<open>A failed connection hands out a pointer nobody assigned.\<close>

theorem bus_unassigned:
  "create_system_bus_connection lib l = Inl Uninitialised \<longleftrightarrow> fst (sd_bus_default_system lib l) = None"
  "create_session_bus_connection lib l = Inl Uninitialised \<longleftrightarrow> fst (sd_bus_default_user lib l) = None"
  by (cases "sd_bus_default_system lib l"; cases "fst (sd_bus_default_system lib l)";
      simp add: create_system_bus_connection_def;
      cases "sd_bus_default_user lib l"; cases "fst (sd_bus_default_user lib l)";
      simp add: create_session_bus_connection_def)+

end
