(* ===== verification/Forge.thy ===== *)
theory Forge
  imports Memory
begin

text \<open>
  The build helper of \<open>forge\<close>: the packages to install on each distribution (\<open>dep.h\<close>), chosen by the
  preprocessor, and the entry point of \<open>forge.c\<close>, whose compile step is still empty.
\<close>

datatype distro_macro = DISTRO_FEDORA | DISTRO_ARCH | DISTRO_other

record package_set =
  manager :: "string option"
  packages :: "string option list"

text \<open>The initialiser of an array of 16 pointers: what it does not name is NULL.\<close>

definition packages16 :: "string option list \<Rightarrow> string option list" where
  "packages16 ps = ps @ replicate (16 - length ps) None"

definition deps :: "distro_macro \<Rightarrow> package_set" where
  "deps d = (case d of
     DISTRO_FEDORA \<Rightarrow> \<lparr>manager = Some ''dnf'', packages = packages16
       [Some ''grpc-devel'', Some ''protobuf-devel'', Some ''protobuf-compiler'', Some ''abseil-cpp-devel'',
        Some ''openssl-devel'', Some ''c-ares-devel'', Some ''re2-devel'', Some ''zlib-devel'', None]\<rparr>
   | DISTRO_ARCH \<Rightarrow> \<lparr>manager = Some ''pacman'', packages = packages16
       [Some ''grpc'', Some ''protobuf'', Some ''abseil-cpp'', Some ''openssl'', Some ''c-ares'',
        Some ''re2'', Some ''zlib'', None]\<rparr>
   | DISTRO_other \<Rightarrow> \<lparr>manager = None, packages = packages16 []\<rparr>)"

definition compile :: "u64 \<Rightarrow> os \<Rightarrow> os run" where
  "compile path s = Inr s"

definition build :: "i32 \<Rightarrow> u64 \<Rightarrow> os \<Rightarrow> (i32 \<times> os) run" where
  "build argc argv s =
     andthen (load64 s argv) (\<lambda>path. andthen (compile path s) (\<lambda>s. Inr (0, s)))"

text \<open>The list a reader of the array sees: up to the first NULL.\<close>

definition package_list :: "package_set \<Rightarrow> string list" where
  "package_list p = map the (takeWhile (\<lambda>x. x \<noteq> None) (packages p))"

text \<open>Every distribution's array has its 16 entries and ends its list; only a known distribution has packages.\<close>

theorem deps_terminated:
  "length (packages (deps d)) = 16 \<and> None \<in> set (packages (deps d))" "distinct (package_list (deps d))"
  "package_list (deps d) = [] \<longleftrightarrow> manager (deps d) = None"
  by (cases d; simp add: deps_def packages16_def package_list_def numeral_eq_Suc)+

text \<open>\<open>build\<close> reads the first argument before it looks at how many there are.\<close>

theorem build_reads_argument:
  "build argc argv s = (if accessible s (unat argv) 8 then Inr (0, s) else Inl Segfault)"
  by (simp add: build_def compile_def load64_def)

end
