(* ===== verification/Spec2Isabelle.thy ===== *)
theory Spec2Isabelle
  imports Arena_Life Mem_Stack Parse Disk_Read Cpu_Read Ram Device Process_List Process_Read Service
    Server In_Flight Net Proc_Files Pkg Dnf Base_Test Auth Journal Dbus Forge
begin

text \<open>
  Verification of the resource agent: a gRPC service that reads CPU, memory, disk, device and process
  information from \<open>/proc\<close>, \<open>/sys\<close> and a few other files, into structures that live in arena memory.

  \<^bold>\<open>The parts and how they interact.\<close> \<open>main\<close> (\<open>core/core.cc\<close>) starts the server. A service method of \<open>grpc/server/server.cc\<close> calls its handler in
  \<open>grpc/handlers/resource_handler.cc\<close>. The handler maps an arena (\<open>base/base_arena.c\<close>), creates
  structures in it (\<open>libres/resources.h\<close>), lets the readers of \<open>libres/resources.cc\<close> fill them, copies
  fields to the reply and unmaps the arena. The readers use the string helpers of \<open>base/base_parse.c\<close> and
  grow their arrays in the arena. Beside this path stand the stack allocator (\<open>base/base_stack.c\<close>),
  the reporting macros (\<open>base/base_test.c\<close>, \<open>base_test.h\<close>), the port readers (\<open>libnet/net.cc\<close>), the name of the
  distribution (\<open>libpkg/pkg.c\<close>), the certificate of the agent (\<open>auth/auth.cc\<close>), the log reader
  (\<open>journal/journald.cc\<close>), the bus connections (\<open>dbus/dbushandler.cc\<close>), the package manager of Fedora
  (\<open>libpkg/distro/fedora_dnf.cc\<close>) and the build helper (\<open>forge\<close>).

  \<^bold>\<open>How the code is modelled.\<close> Memory is a flat store of bytes with the list of mapped regions
  (\<open>Memory\<close>); a load or store outside every region is a \<open>Segfault\<close>. Allocators keep their headers in that store,
  next to the data, so that a stray write reaches them. C structures are records with a codec to the
  bytes of their layout. A run either returns a value or stops with a \<open>fault\<close> (type \<open>run\<close> of
  \<open>Prelude\<close>): segmentation fault, failed assertion (the build does not define \<open>NDEBUG\<close>), overrun
  of an array, use of an unassigned variable, signed overflow. Integers are words of their width. Files are a map
  from paths to contents; \<open>mmap\<close>, \<open>statfs\<close>, the directory listing, \<open>kill\<close>, the clock, OpenSSL, the journal,
  the bus library, libdnf5 and the gRPC runtime are parameters, and what is assumed of them is a named predicate with an instance that
  satisfies it (\<open>kernel_ok\<close> and \<open>page_kernel\<close>, \<open>ram_reader_gives\<close>, \<open>ram_reader_frame\<close> and \<open>sys_ram_read\<close>,
  \<open>openssl_objects\<close> and \<open>demo_openssl\<close>, \<open>holds_entries\<close> and \<open>demo_journal\<close>, \<open>downloader_law\<close> and
  \<open>demo_dnf\<close>).

  \<^bold>\<open>The theories.\<close>
  \<^item> \<open>Prelude\<close>, \<open>Memory\<close>, \<open>Libc\<close>, \<open>Structs\<close>, \<open>File_Io\<close>: types and constants of \<open>base/base.h\<close>, faults and
    their sequencing, the byte store, what the code uses of the C library and of \<open>read\<close>, arrays and structures in memory.
  \<^item> \<open>Base_Mem\<close>, \<open>Arena\<close>, \<open>Arena_Life\<close>: alignment and the arena. The state is \<open>mem_arena\<close>, read from the
    store by \<open>arena_at\<close>; one definition per function of \<open>base_arena.c\<close>. Shown: every state reachable by
    allocation, popping, clearing, temporary scopes and client writes (an inductive step relation) is well
    formed, the operations refine an abstract bump allocator, blocks are disjoint and zeroed, temporary scopes and
    destruction restore, shrinking works, and where growing and overflow go wrong.
  \<^item> \<open>Mem_Stack\<close>: \<open>base_stack.c\<close>. Shown: pushing and popping in order restores the stack, and the defect of
    resizing.
  \<^item> \<open>Parse\<close>, \<open>Proc_Files\<close>: \<open>base_parse.c\<close>. Shown: \<open>parse_u64\<close> inverts printing, and the exact bytes
    \<open>parse_proc_files\<close> leaves in memory, with the entries past the 256th written beyond the array.
  \<^item> \<open>Resources\<close>: the structures of \<open>resources.h\<close> with their codecs; \<open>Growable\<close>: arrays that grow in an
    arena, shared by disks and processes.
  \<^item> \<open>Disk\<close>, \<open>Disk_Read\<close>: pushing refines appending to a list; reading the kernel's partition table gives
    the kernel's partitions back; and the reader returns for every file and however little room is left, with a
    prefix of the partitions when the arena is too small.
  \<^item> \<open>Cpu\<close>, \<open>Cpu_Read\<close>: the readers for x86-64 and AArch64 and the usage counters: exact results, the inputs
    that overrun an array and those on which the reader does not return.
  \<^item> \<open>Ram\<close>, \<open>Device\<close>, \<open>Process\<close>, \<open>Process_List\<close>, \<open>Process_Read\<close>: the other readers, with exact results on any
    file, round trips from the text the kernel writes, and bounds.
  \<^item> \<open>Handlers\<close>, \<open>Service\<close>: the handlers with every deadline check, and the service methods. Shown: a call in
    time answers what the readers stored and restores the address space; a late one leaks its arena.
  \<^item> \<open>Server\<close>: the set-up of the server, \<open>main\<close>, and histories of calls (the inductive relation \<open>served\<close>,
    one step per call that returns). Each reader and each handler is shown to keep to its own arena without any
    hypothesis on the files, and the address space after a history is accounted for mapping by mapping.
  \<^item> \<open>Call_Steps\<close>, \<open>Shared_Space\<close>, \<open>Interleave\<close>, \<open>In_Flight\<close>: calls at the same time. \<open>call_step\<close> cuts a call into the
    steps between which other calls can run: the checks, mapping the arena, creating the structures, each
    reader with the look at the clock after it, copying to the reply, unmapping; run one after the other they are
    the handler. \<open>interleave\<close> lets any call take the next step; a fault of one
    call ends the agent, so only steps that return are followed by others. Shown, for every interleaving: answers are the
    call's own, arenas stay apart, what was mapped before is unchanged, every mapping is accounted for, and a call whose
    files can be read can go on and needs at most eight steps.
  \<^item> \<open>Net\<close>, \<open>Pkg\<close>, \<open>Dnf\<close>, \<open>Base_Test\<close>, \<open>Auth\<close>, \<open>Journal\<close>, \<open>Dbus\<close>, \<open>Forge\<close>: one theory for each of the remaining parts.
  \<^item> This theory: the way of the memory numbers through the whole program, from the text the kernel writes to the answer
    the client gets, whatever calls run at the same time.

  \<^bold>\<open>Interfaces.\<close> \<open>allocator\<close> (in \<open>Arena\<close>) is what clients rely on of an allocator: fresh zeroed blocks,
  earlier blocks untouched, NULL when full; \<open>arena\<close> interprets it. \<open>struct_codec\<close> (in \<open>Structs\<close>) is the contract
  of a structure layout, interpreted for processes, partitions, CPUs, memory, disks, devices and
  parsed entries. \<open>growable\<close> joins the two, interpreted for partitions and processes. \<open>private_mappings\<close> (in
  \<open>Shared_Space\<close>) is the contract of threads that share an address space and work each in a mapping of their own:
  what a thread knows of its mapping is stable under the steps of others, and a step stays inside. \<open>agent\<close> (in
  \<open>Interleave\<close>) gives it for the calls, on any kernel and memory reader that keep their promises, and is
  interpreted on \<open>page_kernel\<close> and \<open>sys_ram_read\<close>.

  \<^bold>\<open>Loops, bounds and fuel.\<close> Loops over the lines of a file are structural recursion. Loops that
  may not end are \<open>partial_function (option)\<close>: the core loop of the AArch64 reader, the
  byte loop of the port readers, the entry loop of the log reader; that they return, and when not, is
  proved. \<open>c_string_from\<close> has as fuel the number of addresses left, past which nothing can be read;
  \<open>scan_bytes\<close> the number of bytes read, which is how often the loop runs; \<open>run_call\<close> the number of steps, of
  which a call takes at most eight (\<open>step_rank\<close>). \<open>skip_blanks\<close>, \<open>lower_from\<close> and
  \<open>write_int\<close> are total by a measure.

  \<^bold>\<open>Not modelled.\<close> The gRPC runtime (what building a server from its configuration gives is a parameter), the
  generated message code (the reply is a record of the fields the handlers set), the files that hold includes
  only (\<open>unity.cc\<close>, \<open>libvm\<close>, \<open>common\<close>, the package managers of Arch and Debian), the empty functions of
  \<open>forge.h\<close>, the structure of \<open>net.h\<close> (its array sizes are not defined anywhere), console messages,
  interleaving finer than the steps above (within a reader; the readers have no state but their arena and the
  files), and calls that see a file change while they run (each call has one view of the files). \<open>ram_read\<close>, which the handlers call, is defined
  nowhere in the sources and is a parameter; \<open>sys_ram_read\<close> meets what is asked of it.
\<close>

section \<open>Properties that span components\<close>

text \<open>C6: from the kernel's text to the client: the kernel writes \<open>/proc/meminfo\<close> with its numbers of KiB
  blank-padded to a width of 8 (\<open>meminfo_text\<close>), the two lines in question and further lines, under other names,
  that fit the buffer. Whatever calls run at the same time, an answer OK of \<open>GetMemory\<close> or
  \<open>GetSystemResources\<close> holds the two numbers that were written.\<close>

theorem memory_reaches_client:
  assumes "kernel_ok k" and "tidy s0"
    and "interleave (call_step k ar (sys_ram_read k)) cs Called s0 ls s"
    and "i < length cs" and "ls ! i = Answered OK rep" and "call_method (cs ! i) \<noteq> Rpc_cpu"
    and "call_files (cs ! i) ''/proc/meminfo'' = Some (lines_text (meminfo_text (unat tv) (unat fv) others))"
    and "list_all (\<lambda>u. NL \<notin> set u \<and> NUL \<notin> set u \<and> length u + 2 \<le> BUFF_SMALL \<and>
      \<not> strn_eq u ''MemTotal'' 8 \<and> \<not> strn_eq u ''MemFree'' 7) others"
  shows "reply_memory rep = Some \<lparr>msg_total = tv, msg_free = fv\<rparr>"
proof -
  define bufs where "bufs = fgets_lines BUFF_SMALL (lines_text (meminfo_text (unat tv) (unat fv) others))"
  note vs = meminfo_text_values [OF unat_less_2_64 unat_less_2_64 assms(8) bufs_def]
  have len: "values_length bufs \<le> 8192"
    unfolding values_length_def total_length_def vs
    using length_show_u64 [of tv] length_show_u64 [of fv] by simp
  have num: "leading_number (last (mem_values ''MemTotal'' bufs)) = tv"
      "leading_number (last (mem_values ''MemFree'' bufs)) = fv"
    unfolding vs by (simp_all add: leading_number_show)
  have ne: "mem_values ''MemTotal'' bufs \<noteq> []" "mem_values ''MemFree'' bufs \<noteq> []"
      "last (mem_values ''MemTotal'' bufs) \<noteq> []" unfolding vs by simp_all
  have v: "ram_answers (sys_ram_read k (call_files (cs ! i))) \<lparr>mem_total = tv, mem_free = fv\<rparr>"
    using sys_ram_read_answers [where fs = "call_files (cs ! i)", OF assms(1,7) bufs_def len ne] unfolding num .
  have "agent k (sys_ram_read k)" using sys_ram_read_frame [OF assms(1)] assms(1) by (simp add: agent_def)
  from agent.answer_knows [OF this assms(3,2,4,5)]
  have "right_memory (sys_ram_read k) (cs ! i) (reply_memory rep)" using assms(6) by (simp add: right_answer_def)
  then have "reply_memory rep = Some (memory_message_of \<lparr>mem_total = tv, mem_free = fv\<rparr>)"
    using v unfolding right_memory_def ram_answers_def by blast
  then show ?thesis by (simp add: memory_message_of_def)
qed

definition demo_memory_call :: rpc_call where
  "demo_memory_call = demo_cpu_call\<lparr>call_method := Rpc_memory\<rparr>"

theorem memory_reaches_client_witness:
  "\<exists>s rep. interleave (call_step page_kernel X86_64 (sys_ram_read page_kernel)) [demo_memory_call] Called empty_os
      [Answered OK rep] s \<and> reply_memory rep = Some \<lparr>msg_total = 16318480, msg_free = 512000\<rparr>"
proof -
  have ram: "ram_reader_gives (sys_ram_read page_kernel demo_files) ((unat (4096 :: u64), 8388640) # regions empty_os)
      \<lparr>mem_total = 16318480, mem_free = 512000\<rparr>" using demo_ram by simp
  have "\<not> is_cancelled demo_context" "(\<lambda>i :: nat. 0) 0 \<le> deadline demo_context" by (simp_all add: demo_context_def)
  from get_memory_run [where clock = "\<lambda>i. 0" and resp = empty_reply, OF page_kernel_ok page_kernel_8M this ram]
  obtain rep s where "GetMemory page_kernel (sys_ram_read page_kernel demo_files) demo_context (\<lambda>i. 0) empty_os empty_reply =
      Inr (OK, rep, s)" by blast
  then have "run_call page_kernel X86_64 (sys_ram_read page_kernel) ([demo_memory_call] ! 0) 8 Called empty_os =
      Some (Inr (OK, rep, s))"
    by (simp add: handler_steps dispatch_def demo_memory_call_def demo_cpu_call_def del: run_call.simps)
  from run_call_interleaves [OF this _ interleave_start]
  have i: "interleave (call_step page_kernel X86_64 (sys_ram_read page_kernel)) [demo_memory_call] Called empty_os
      [Answered OK rep] s" by simp
  have f: "call_files ([demo_memory_call] ! 0) ''/proc/meminfo'' = Some (lines_text
      (meminfo_text (unat (16318480 :: u64)) (unat (512000 :: u64)) [''Buffers:          1024 kB'']))"
    by (simp add: demo_memory_call_def demo_cpu_call_def demo_files_def demo_meminfo_def)
  have m: "call_method ([demo_memory_call] ! 0) \<noteq> Rpc_cpu" by (simp add: demo_memory_call_def)
  have o: "list_all (\<lambda>u. NL \<notin> set u \<and> NUL \<notin> set u \<and> length u + 2 \<le> BUFF_SMALL \<and>
      \<not> strn_eq u ''MemTotal'' 8 \<and> \<not> strn_eq u ''MemFree'' 7) [''Buffers:          1024 kB'']"
    by (simp add: strn_eq_def BUFF_SMALL_def)
  have "reply_memory rep = Some \<lparr>msg_total = 16318480, msg_free = 512000\<rparr>"
    by (rule memory_reaches_client [OF page_kernel_ok tidy_empty i _ _ m f o]) simp_all
  then show ?thesis using i by blast
qed

end
